(* ===== verification/Go_Base.thy ===== *)
theory Go_Base
  imports Complex_Main "HOL-Library.List_Lexorder" "HOL-Library.Char_ord"
begin

text \<open>
  Shared vocabulary of the development: the parts of the Go language and of its standard
  library that the modelled packages use.

  \<^item> \<open>time.Time\<close> is the number of nanoseconds since Go's zero time (year 1), so the zero
    time is 0 and \<open>Truncate\<close> works on that count, as in Go; \<open>time.Duration\<close> is a number
    of nanoseconds. Locations and monotonic readings are not represented.
  \<^item> An \<open>error\<close> value is a \<open>go_error\<close>; a nil error is \<open>None\<close>. Errors made at run
    time carry an allocation number, because Go compares them by pointer.
  \<^item> The \<open>strings\<close> functions are recursive functions on character lists (bytes).

  The collections \<open>go_strings\<close>, \<open>status_simps\<close> and \<open>node_simps\<close> gather the equations
  that the component theories feed to the simplifier.
\<close>

named_theorems go_strings \<open>unfolding of the models of package strings\<close>
named_theorems status_simps \<open>unfolding of the status predicates\<close>
named_theorems node_simps \<open>how each node operation changes each field\<close>

section \<open>Time\<close>

type_synonym time = int
type_synonym duration = int

abbreviation (input) zero_time :: time where
  "zero_time \<equiv> 0"

definition is_zero :: "time \<Rightarrow> bool" where
  "is_zero t \<longleftrightarrow> t = zero_time"

abbreviation (input) millisecond :: duration where
  "millisecond \<equiv> 1000000"

abbreviation (input) second :: duration where
  "second \<equiv> 1000000000"

abbreviation (input) minute :: duration where
  "minute \<equiv> 60000000000"

abbreviation (input) hour :: duration where
  "hour \<equiv> 3600000000000"

definition truncate_time :: "time \<Rightarrow> duration \<Rightarrow> time" where
  "truncate_time t d = (if d \<le> 0 then t else t - t mod d)"

lemma truncate_time_le: "truncate_time t d \<le> t"
  by (simp add: truncate_time_def)

lemma truncate_time_gt: "0 < d \<Longrightarrow> t - d < truncate_time t d"
  by (simp add: truncate_time_def)

lemma truncate_time_idem: "truncate_time (truncate_time t d) d = truncate_time t d"
  by (simp add: truncate_time_def minus_mod_eq_mult_div)

section \<open>Errors\<close>

datatype go_error =
    Sentinel string
  | PkgSentinel string string
  | DeadlineExceeded
  | ContextCanceled
  | ExitError nat int string
  | Errorf nat string
  | Wrap nat string go_error

text \<open>
  \<open>Sentinel\<close> is a package-level \<open>errors.New\<close>, \<open>PkgSentinel\<close> one whose text another package
  uses too; \<open>ExitError n c s\<close> an \<open>*exec.ExitError\<close>
  with exit code \<open>c\<close> and text \<open>s\<close>; \<open>Errorf n s\<close> an error with text \<open>s\<close> and nothing
  wrapped; \<open>Wrap n s e\<close> the result of \<open>fmt.Errorf\<close> with \<open>%w\<close>, text \<open>s\<close>.
\<close>

fun errors_is :: "go_error \<Rightarrow> go_error \<Rightarrow> bool" where
  "errors_is (Wrap n s e) t = (Wrap n s e = t \<or> errors_is e t)"
| "errors_is e t = (e = t)"

fun as_exit_error :: "go_error \<Rightarrow> int option" where
  "as_exit_error (ExitError n c s) = Some c"
| "as_exit_error (Wrap n s e) = as_exit_error e"
| "as_exit_error e = None"

fun err_text :: "go_error \<Rightarrow> string" where
  "err_text (Sentinel s) = s"
| "err_text (PkgSentinel p s) = s"
| "err_text DeadlineExceeded = ''context deadline exceeded''"
| "err_text ContextCanceled = ''context canceled''"
| "err_text (ExitError n c s) = s"
| "err_text (Errorf n s) = s"
| "err_text (Wrap n s e) = s"

lemma errors_is_refl [simp]: "errors_is e e"
  by (cases e) auto

section \<open>Strings\<close>

definition has_prefix :: "string \<Rightarrow> string \<Rightarrow> bool" where
  [go_strings]: "has_prefix s p \<longleftrightarrow> take (length p) s = p"

definition has_suffix :: "string \<Rightarrow> string \<Rightarrow> bool" where
  [go_strings]: "has_suffix s p \<longleftrightarrow> length p \<le> length s \<and> drop (length s - length p) s = p"

fun str_contains :: "string \<Rightarrow> string \<Rightarrow> bool" where
  "str_contains [] sub = (sub = [])"
| "str_contains (c # s) sub = (has_prefix (c # s) sub \<or> str_contains s sub)"

text \<open>\<open>strings.Cut\<close> at a single character: before, after, found.\<close>

fun str_cut :: "string \<Rightarrow> char \<Rightarrow> string \<times> string \<times> bool" where
  "str_cut [] sep = ([], [], False)"
| "str_cut (c # s) sep =
     (if c = sep then ([], s, True)
      else case str_cut s sep of (b, a, f) \<Rightarrow> (c # b, a, f))"

text \<open>\<open>strings.Split\<close> with a non-empty separator; \<open>k\<close> counts separator bytes still to skip.\<close>

fun split_aux :: "string \<Rightarrow> nat \<Rightarrow> string \<Rightarrow> string \<Rightarrow> string list" where
  "split_aux sep k acc [] = [rev acc]"
| "split_aux sep k acc (c # s) =
     (if 0 < k then split_aux sep (k - 1) acc s
      else if has_prefix (c # s) sep then rev acc # split_aux sep (length sep - 1) [] s
      else split_aux sep 0 (c # acc) s)"

definition str_split :: "string \<Rightarrow> string \<Rightarrow> string list" where
  "str_split s sep = split_aux sep 0 [] s"

fun str_join :: "string list \<Rightarrow> string \<Rightarrow> string" where
  "str_join [] sep = []"
| "str_join [x] sep = x"
| "str_join (x # y # xs) sep = x @ sep @ str_join (y # xs) sep"

text \<open>White space, \<open>strings.TrimSpace\<close> and \<open>strings.ToLower\<close> on ASCII text.\<close>

definition is_space :: "char \<Rightarrow> bool" where
  "is_space c \<longleftrightarrow> (let n = (of_char c :: nat) in 9 \<le> n \<and> n \<le> 13 \<or> n = 32)"

definition trim_space :: "string \<Rightarrow> string" where
  "trim_space s = rev (dropWhile is_space (rev (dropWhile is_space s)))"

definition lower_char :: "char \<Rightarrow> char" where
  "lower_char c = (let n = (of_char c :: nat) in if 65 \<le> n \<and> n \<le> 90 then char_of (n + 32) else c)"

definition to_lower :: "string \<Rightarrow> string" where
  "to_lower s = map lower_char s"

lemma trim_space_fixed: "\<not> is_space (hd s) \<Longrightarrow> \<not> is_space (last s) \<Longrightarrow> trim_space s = s"
proof (cases s)
  case (Cons c r)
  assume "\<not> is_space (hd s)" "\<not> is_space (last s)"
  then have "dropWhile is_space s = s" "dropWhile is_space (rev s) = rev s"
    using Cons by (simp, cases "rev s") (auto simp: hd_rev [symmetric])
  then show ?thesis by (simp add: trim_space_def)
qed (simp add: trim_space_def)

lemma trim_space_ends:
  assumes "trim_space s \<noteq> []"
  shows "\<not> is_space (hd (trim_space s)) \<and> \<not> is_space (last (trim_space s))"
proof -
  define u where "u = dropWhile is_space s"
  define v where "v = dropWhile is_space (rev u)"
  have v: "v \<noteq> []" "trim_space s = rev v" using assms by (simp_all add: trim_space_def u_def v_def)
  have "last v = last (rev u)"
    using v(1) unfolding v_def by (metis last_append takeWhile_dropWhile_id)
  then have "hd (rev v) = hd u" using v(1) by (metis hd_rev last_rev)
  moreover have "u \<noteq> []" using v(1) by (auto simp: v_def)
  ultimately show ?thesis
    using v hd_dropWhile [of is_space s] hd_dropWhile [of is_space "rev u"]
    by (simp add: u_def [symmetric] v_def [symmetric] last_rev)
qed

lemma trim_space_Nil [simp]: "trim_space [] = []"
  by (simp add: trim_space_def)

lemma trim_space_idem [simp]: "trim_space (trim_space s) = trim_space s"
proof (cases "trim_space s = []")
  case False
  then show ?thesis using trim_space_ends trim_space_fixed by blast
qed simp

lemma to_lower_Nil [simp]: "to_lower s = [] \<longleftrightarrow> s = []"
  by (simp add: to_lower_def)

lemma to_lower_idem [simp]: "to_lower (to_lower s) = to_lower s"
  by (simp add: to_lower_def lower_char_def Let_def)

lemma is_space_lower [simp]: "is_space (lower_char c) = is_space c"
  by (auto simp: is_space_def lower_char_def Let_def)

lemma trim_space_lower: "trim_space (to_lower s) = to_lower (trim_space s)"
  by (simp add: trim_space_def to_lower_def dropWhile_map rev_map comp_def)

lemma str_cut_eq: "str_cut s c = (if c \<in> set s then (takeWhile ((\<noteq>) c) s, tl (dropWhile ((\<noteq>) c) s), True) else (s, [], False))"
  by (induction s) auto

definition digit_of :: "char \<Rightarrow> nat option" where
  "digit_of c = (let n = (of_char c :: nat) in if 48 \<le> n \<and> n \<le> 57 then Some (n - 48) else None)"

definition is_digit :: "char \<Rightarrow> bool" where
  "is_digit c \<longleftrightarrow> digit_of c \<noteq> None"

fun digits_value :: "nat \<Rightarrow> string \<Rightarrow> nat option" where
  "digits_value acc [] = Some acc"
| "digits_value acc (c # s) =
     (case digit_of c of None \<Rightarrow> None | Some d \<Rightarrow> digits_value (10 * acc + d) s)"

definition max_int64 :: int where
  "max_int64 = 9223372036854775807"

definition min_int64 :: int where
  "min_int64 = - 9223372036854775808"

definition wrap64 :: "int \<Rightarrow> int" where
  "wrap64 x = (x + 9223372036854775808) mod 18446744073709551616 - 9223372036854775808"

text \<open>\<open>strconv.ParseBool\<close>.\<close>

definition parse_bool :: "string \<Rightarrow> bool option" where
  "parse_bool s =
     (if s \<in> set [''1'', ''t'', ''T'', ''true'', ''TRUE'', ''True''] then Some True
      else if s \<in> set [''0'', ''f'', ''F'', ''false'', ''FALSE'', ''False''] then Some False
      else None)"

definition format_bool :: "bool \<Rightarrow> string" where
  "format_bool b = (if b then ''true'' else ''false'')"

text \<open>\<open>strconv.Atoi\<close> on an unsigned decimal string: \<open>None\<close> for a syntax or range error.\<close>

definition atoi_digits :: "string \<Rightarrow> int option" where
  "atoi_digits s =
     (if s = [] then None
      else case digits_value 0 s of
        None \<Rightarrow> None
      | Some n \<Rightarrow> if int n \<le> max_int64 then Some (int n) else None)"

lemma wrap64_id: "min_int64 \<le> x \<Longrightarrow> x \<le> max_int64 \<Longrightarrow> wrap64 x = x"
  by (simp add: wrap64_def min_int64_def max_int64_def)

lemma wrap64_range: "min_int64 \<le> wrap64 x \<and> wrap64 x \<le> max_int64"
  by (simp add: wrap64_def min_int64_def max_int64_def)

lemma parse_format_bool [simp]: "parse_bool (format_bool b) = Some b"
  by (cases b) (simp_all add: parse_bool_def format_bool_def)

lemma str_cut_not_found: "sep \<notin> set s \<Longrightarrow> str_cut s sep = (s, [], False)"
  by (induction s) auto

lemma str_cut_append: "sep \<notin> set k \<Longrightarrow> str_cut (k @ sep # v) sep = (k, v, True)"
  by (induction k) auto

lemma str_contains_append: "str_contains (a @ sub @ b) sub"
proof (induction a)
  case Nil
  have "str_contains s p" if "take (length p) s = p" for s p
    using that by (cases s) (auto simp: has_prefix_def)
  then show ?case by simp
next
  case (Cons x a)
  then show ?case by simp
qed

lemma has_prefix_append [simp]: "has_prefix (p @ s) p"
  by (simp add: has_prefix_def)

lemma has_suffix_append [simp]: "has_suffix (s @ p) p"
  by (simp add: has_suffix_def)

section \<open>Lists and options\<close>

lemma filter_neq_length:
  "x \<in> set xs \<Longrightarrow> length (filter (\<lambda>y. y \<noteq> x) xs) < length xs"
  by (induction xs) (auto simp: less_Suc_eq_le)

lemma distinct_map_nth_eq:
  assumes "distinct (map f xs)" "i < length xs" "j < length xs" "f (xs ! i) = f (xs ! j)"
  shows "i = j"
  using assms by (metis length_map nth_eq_iff_index_eq nth_map)

lemma Inl_Inr_case_eq [simp]:
  "(case r of Inl e \<Rightarrow> Inl e | Inr x \<Rightarrow> Inr x) = r"
  by (cases r) auto

end
