(* ===== verification/Core_Status.thy ===== *)
theory Core_Status
  imports Go_Base
begin

text \<open>
  Package \<open>core\<close>, file \<open>status.go\<close>: the life-cycle phases of a DAG run (\<open>Status\<close>) and of
  one node (\<open>NodeStatus\<close>), and how a run was triggered (\<open>TriggerType\<close>). A Go constant
  block is a datatype; integers outside the block are not represented.
\<close>

datatype status =
    NotStarted
  | Running
  | Failed
  | Aborted
  | Succeeded
  | Queued
  | PartiallySucceeded
  | Waiting
  | Rejected

definition all_statuses :: "status list" where
  "all_statuses = [NotStarted, Running, Failed, Aborted, Succeeded, Queued,
     PartiallySucceeded, Waiting, Rejected]"

primrec status_String :: "status \<Rightarrow> string" where
  "status_String NotStarted = ''not_started''"
| "status_String Running = ''running''"
| "status_String Failed = ''failed''"
| "status_String Aborted = ''aborted''"
| "status_String Succeeded = ''succeeded''"
| "status_String Queued = ''queued''"
| "status_String PartiallySucceeded = ''partially_succeeded''"
| "status_String Waiting = ''waiting''"
| "status_String Rejected = ''rejected''"

definition status_IsActive :: "status \<Rightarrow> bool" where
  [status_simps]: "status_IsActive s \<longleftrightarrow> s = Running \<or> s = Queued \<or> s = Waiting"

definition status_IsSuccess :: "status \<Rightarrow> bool" where
  [status_simps]: "status_IsSuccess s \<longleftrightarrow> s = Succeeded \<or> s = PartiallySucceeded"

definition status_IsWaiting :: "status \<Rightarrow> bool" where
  [status_simps]: "status_IsWaiting s \<longleftrightarrow> s = Waiting"

datatype node_status =
    NodeNotStarted
  | NodeRunning
  | NodeFailed
  | NodeAborted
  | NodeSucceeded
  | NodeSkipped
  | NodePartiallySucceeded
  | NodeWaiting
  | NodeRejected
  | NodeRetrying

text \<open>The persisted numeric encoding, which the source keeps stable.\<close>

primrec node_status_code :: "node_status \<Rightarrow> int" where
  "node_status_code NodeNotStarted = 0"
| "node_status_code NodeRunning = 1"
| "node_status_code NodeFailed = 2"
| "node_status_code NodeAborted = 3"
| "node_status_code NodeSucceeded = 4"
| "node_status_code NodeSkipped = 5"
| "node_status_code NodePartiallySucceeded = 6"
| "node_status_code NodeWaiting = 7"
| "node_status_code NodeRejected = 8"
| "node_status_code NodeRetrying = 9"

definition node_IsSuccess :: "node_status \<Rightarrow> bool" where
  [status_simps]: "node_IsSuccess s \<longleftrightarrow> s = NodeSucceeded \<or> s = NodePartiallySucceeded"

definition node_IsWaiting :: "node_status \<Rightarrow> bool" where
  [status_simps]: "node_IsWaiting s \<longleftrightarrow> s = NodeWaiting"

definition node_IsDone :: "node_status \<Rightarrow> bool" where
  [status_simps]: "node_IsDone s \<longleftrightarrow>
     s = NodeSucceeded \<or> s = NodeFailed \<or> s = NodeSkipped \<or> s = NodeAborted
     \<or> s = NodePartiallySucceeded \<or> s = NodeRejected"

primrec node_status_String :: "node_status \<Rightarrow> string" where
  "node_status_String NodeNotStarted = ''not_started''"
| "node_status_String NodeRunning = ''running''"
| "node_status_String NodeRetrying = ''retrying''"
| "node_status_String NodeFailed = ''failed''"
| "node_status_String NodeAborted = ''aborted''"
| "node_status_String NodeSucceeded = ''succeeded''"
| "node_status_String NodeSkipped = ''skipped''"
| "node_status_String NodePartiallySucceeded = ''partially_succeeded''"
| "node_status_String NodeWaiting = ''waiting''"
| "node_status_String NodeRejected = ''rejected''"

datatype trigger_type =
    TriggerTypeUnknown
  | TriggerTypeScheduler
  | TriggerTypeManual
  | TriggerTypeWebhook
  | TriggerTypeSubDAG
  | TriggerTypeRetry
  | TriggerTypeCatchUp

primrec trigger_String :: "trigger_type \<Rightarrow> string" where
  "trigger_String TriggerTypeUnknown = ''unknown''"
| "trigger_String TriggerTypeScheduler = ''scheduler''"
| "trigger_String TriggerTypeManual = ''manual''"
| "trigger_String TriggerTypeWebhook = ''webhook''"
| "trigger_String TriggerTypeSubDAG = ''subdag''"
| "trigger_String TriggerTypeRetry = ''retry''"
| "trigger_String TriggerTypeCatchUp = ''catchup''"

definition ParseTriggerType :: "string \<Rightarrow> trigger_type" where
  "ParseTriggerType s =
     (if s = ''scheduler'' then TriggerTypeScheduler
      else if s = ''manual'' then TriggerTypeManual
      else if s = ''webhook'' then TriggerTypeWebhook
      else if s = ''subdag'' then TriggerTypeSubDAG
      else if s = ''retry'' then TriggerTypeRetry
      else if s = ''catchup'' then TriggerTypeCatchUp
      else TriggerTypeUnknown)"

lemma parse_trigger_String: "ParseTriggerType (trigger_String t) = t"
  by (cases t) (simp_all add: ParseTriggerType_def)

lemma status_String_inject: "status_String s = status_String t \<longleftrightarrow> s = t"
  by (cases s; cases t) simp_all

lemma node_status_code_inject: "node_status_code s = node_status_code t \<longleftrightarrow> s = t"
  by (cases s; cases t) simp_all

lemma node_done_iff_not_pending:
  "node_IsDone s \<longleftrightarrow> s \<notin> {NodeNotStarted, NodeRunning, NodeRetrying, NodeWaiting}"
  by (cases s) (simp_all add: status_simps)

end
