(* ===== verification/Node_Data.thy ===== *)
theory Node_Data
  imports Core_Status
begin

text \<open>
  Package \<open>core\<close>, file \<open>step.go\<close> (the step definition) and package \<open>runtime\<close>, files
  \<open>data.go\<close> and \<open>node.go\<close> (one node of a plan and its mutable state), with
  \<open>stringutil/kv.go\<close> and the exit-code helpers of \<open>runtime/utils.go\<close>.

  Go embeds \<open>Data\<close> (step and state under a mutex) in \<open>Node\<close>; the record \<open>node\<close> holds
  both. A method that mutates the receiver returns the new record. Mutexes are left out: each
  method is one critical section. What an executor does, the evaluation of an expression and
  the reading of a log file are arguments of the operations that use them.
\<close>

section \<open>The step definition\<close>

record condition =
  cd_Condition :: string
  cd_Expected :: string
  cd_Negate :: bool
  cd_errorMessage :: string

record continue_on =
  co_Failure :: bool
  co_Skipped :: bool
  co_ExitCode :: "int list"
  co_Output :: "string list"
  co_MarkSuccess :: bool

record step_retry_policy =
  srp_Limit :: int
  srp_Interval :: duration
  srp_LimitStr :: string
  srp_IntervalSecStr :: string
  srp_ExitCodes :: "int list"
  srp_Backoff :: real
  srp_MaxInterval :: duration

record repeat_policy =
  rp_RepeatMode :: string
  rp_Interval :: duration
  rp_IntervalStr :: string
  rp_Limit :: int
  rp_LimitStr :: string
  rp_Backoff :: real
  rp_MaxInterval :: duration
  rp_MaxIntervalStr :: string
  rp_Condition :: "condition option"
  rp_ExitCode :: "int list"

abbreviation RepeatModeWhile :: string where
  "RepeatModeWhile \<equiv> ''while''"

abbreviation RepeatModeUntil :: string where
  "RepeatModeUntil \<equiv> ''until''"

record approval_config =
  ap_Prompt :: string
  ap_Input :: "string list"
  ap_Required :: "string list"
  ap_RewindTo :: string

text \<open>
  The fields of \<open>core.Step\<close> that the scheduling logic reads; \<open>sp_StructuredOutput\<close> records
  whether the step has object-form output, \<open>sp_SubDAG\<close> whether it calls a sub DAG. Commands,
  shell, container, LLM and agent settings only reach the executors.
\<close>

record step =
  sp_ID :: string
  sp_Name :: string
  sp_Stdout :: string
  sp_Stderr :: string
  sp_Output :: string
  sp_StructuredOutput :: bool
  sp_Depends :: "string list"
  sp_ContinueOn :: continue_on
  sp_RetryPolicy :: step_retry_policy
  sp_RepeatPolicy :: repeat_policy
  sp_Preconditions :: "condition list"
  sp_SignalOnStop :: string
  sp_SubDAG :: bool
  sp_Timeout :: duration
  sp_Approval :: "approval_config option"

definition zero_step :: step where
  "zero_step = \<lparr> sp_ID = '''', sp_Name = '''', sp_Stdout = '''', sp_Stderr = '''',
     sp_Output = '''', sp_StructuredOutput = False, sp_Depends = [],
     sp_ContinueOn = \<lparr> co_Failure = False, co_Skipped = False, co_ExitCode = [],
       co_Output = [], co_MarkSuccess = False \<rparr>,
     sp_RetryPolicy = \<lparr> srp_Limit = 0, srp_Interval = 0, srp_LimitStr = '''',
       srp_IntervalSecStr = '''', srp_ExitCodes = [], srp_Backoff = 0, srp_MaxInterval = 0 \<rparr>,
     sp_RepeatPolicy = \<lparr> rp_RepeatMode = '''', rp_Interval = 0, rp_IntervalStr = '''',
       rp_Limit = 0, rp_LimitStr = '''', rp_Backoff = 0, rp_MaxInterval = 0,
       rp_MaxIntervalStr = '''', rp_Condition = None, rp_ExitCode = [] \<rparr>,
     sp_Preconditions = [], sp_SignalOnStop = '''', sp_SubDAG = False, sp_Timeout = 0,
     sp_Approval = None \<rparr>"

section \<open>The state of a node\<close>

record sub_dag_run =
  sr_DAGRunID :: string
  sr_Params :: string
  sr_DAGName :: string

type_synonym variables = "string \<rightharpoonup> string"

record node_state =
  ns_Status :: node_status
  ns_Stdout :: string
  ns_Stderr :: string
  ns_StartedAt :: time
  ns_FinishedAt :: time
  ns_RetryCount :: int
  ns_RetriedAt :: time
  ns_DoneCount :: int
  ns_Repeated :: bool
  ns_SkippedByRetry :: bool
  ns_Error :: "go_error option"
  ns_ExitCode :: int
  ns_SubRuns :: "sub_dag_run list"
  ns_SubRunsRepeated :: "sub_dag_run list"
  ns_OutputVariables :: "variables option"
  ns_OutputValue :: "string option"
  ns_ChatMessages :: "string list"
  ns_ToolDefinitions :: "string list"
  ns_ApprovalInputs :: "variables option"
  ns_ApprovalIteration :: int
  ns_PushBackInputs :: "variables option"

definition zero_node_state :: node_state where
  "zero_node_state = \<lparr> ns_Status = NodeNotStarted, ns_Stdout = '''', ns_Stderr = '''',
     ns_StartedAt = zero_time, ns_FinishedAt = zero_time, ns_RetryCount = 0,
     ns_RetriedAt = zero_time, ns_DoneCount = 0, ns_Repeated = False,
     ns_SkippedByRetry = False, ns_Error = None, ns_ExitCode = 0, ns_SubRuns = [],
     ns_SubRunsRepeated = [], ns_OutputVariables = None, ns_OutputValue = None,
     ns_ChatMessages = [], ns_ToolDefinitions = [], ns_ApprovalInputs = None,
     ns_ApprovalIteration = 0, ns_PushBackInputs = None \<rparr>"

record runtime_retry_policy =
  rrp_Limit :: int
  rrp_Interval :: duration
  rrp_ExitCodes :: "int list"

definition zero_retry_policy :: runtime_retry_policy where
  "zero_retry_policy = \<lparr> rrp_Limit = 0, rrp_Interval = 0, rrp_ExitCodes = [] \<rparr>"

text \<open>\<open>n_cmd\<close> says whether the executor field is non-nil.\<close>

record node =
  n_id :: nat
  n_step :: step
  n_state :: node_state
  n_retryPolicy :: runtime_retry_policy
  n_cmd :: bool
  n_done :: bool

definition NewNode :: "step \<Rightarrow> node_state \<Rightarrow> node" where
  "NewNode s st = \<lparr> n_id = 0, n_step = s, n_state = st, n_retryPolicy = zero_retry_policy,
     n_cmd = False, n_done = False \<rparr>"

abbreviation Name :: "node \<Rightarrow> string" where
  "Name n \<equiv> sp_Name (n_step n)"

abbreviation Status :: "node \<Rightarrow> node_status" where
  "Status n \<equiv> ns_Status (n_state n)"

section \<open>Accessors and mutators of Data\<close>

definition SetStep :: "step \<Rightarrow> node \<Rightarrow> node" where
  [node_simps]: "SetStep s n = n\<lparr>n_step := s\<rparr>"

definition SetStatus :: "node_status \<Rightarrow> node \<Rightarrow> node" where
  [node_simps]: "SetStatus s n = n\<lparr>n_state := (n_state n)\<lparr>ns_Status := s\<rparr>\<rparr>"

definition ResetError :: "node \<Rightarrow> node" where
  [node_simps]: "ResetError n =
     n\<lparr>n_state := (n_state n)\<lparr>ns_Error := None, ns_ExitCode := 0\<rparr>\<rparr>"

definition SetError :: "go_error option \<Rightarrow> node \<Rightarrow> node" where
  [node_simps]: "SetError e n = n\<lparr>n_state := (n_state n)\<lparr>ns_Error := e\<rparr>\<rparr>"

definition MarkError :: "go_error option \<Rightarrow> node \<Rightarrow> node" where
  [node_simps]: "MarkError e n =
     n\<lparr>n_state := (n_state n)\<lparr>ns_Error := e, ns_Status := NodeFailed\<rparr>\<rparr>"

definition SetExitCode :: "int \<Rightarrow> node \<Rightarrow> node" where
  [node_simps]: "SetExitCode c n = n\<lparr>n_state := (n_state n)\<lparr>ns_ExitCode := c\<rparr>\<rparr>"

definition Finish :: "time \<Rightarrow> node \<Rightarrow> node" where
  [node_simps]: "Finish now n = n\<lparr>n_state := (n_state n)\<lparr>ns_FinishedAt := now\<rparr>\<rparr>"

definition IncRetryCount :: "node \<Rightarrow> node" where
  [node_simps]: "IncRetryCount n =
     n\<lparr>n_state := (n_state n)\<lparr>ns_RetryCount := ns_RetryCount (n_state n) + 1\<rparr>\<rparr>"

definition SetRetryCount :: "int \<Rightarrow> node \<Rightarrow> node" where
  [node_simps]: "SetRetryCount c n = n\<lparr>n_state := (n_state n)\<lparr>ns_RetryCount := c\<rparr>\<rparr>"

definition SetRetriedAt :: "time \<Rightarrow> node \<Rightarrow> node" where
  [node_simps]: "SetRetriedAt t n = n\<lparr>n_state := (n_state n)\<lparr>ns_RetriedAt := t\<rparr>\<rparr>"

definition IncDoneCount :: "node \<Rightarrow> node" where
  [node_simps]: "IncDoneCount n =
     n\<lparr>n_state := (n_state n)\<lparr>ns_DoneCount := ns_DoneCount (n_state n) + 1\<rparr>\<rparr>"

definition SetRepeated :: "bool \<Rightarrow> node \<Rightarrow> node" where
  [node_simps]: "SetRepeated b n = n\<lparr>n_state := (n_state n)\<lparr>ns_Repeated := b\<rparr>\<rparr>"

definition ClearState :: "step \<Rightarrow> node \<Rightarrow> node" where
  [node_simps]: "ClearState s n = n\<lparr>n_state := zero_node_state, n_step := s\<rparr>"

definition SetSubRuns :: "sub_dag_run list \<Rightarrow> node \<Rightarrow> node" where
  [node_simps]: "SetSubRuns rs n = n\<lparr>n_state := (n_state n)\<lparr>ns_SubRuns := rs\<rparr>\<rparr>"

definition AddSubRunsRepeated :: "sub_dag_run list \<Rightarrow> node \<Rightarrow> node" where
  [node_simps]: "AddSubRunsRepeated rs n =
     n\<lparr>n_state := (n_state n)\<lparr>ns_SubRunsRepeated := ns_SubRunsRepeated (n_state n) @ rs\<rparr>\<rparr>"

definition SetChatMessages :: "string list \<Rightarrow> node \<Rightarrow> node" where
  [node_simps]: "SetChatMessages ms n = n\<lparr>n_state := (n_state n)\<lparr>ns_ChatMessages := ms\<rparr>\<rparr>"

definition SetToolDefinitions :: "string list \<Rightarrow> node \<Rightarrow> node" where
  [node_simps]: "SetToolDefinitions ts n =
     n\<lparr>n_state := (n_state n)\<lparr>ns_ToolDefinitions := ts\<rparr>\<rparr>"

definition SetApprovalInputs :: "variables option \<Rightarrow> node \<Rightarrow> node" where
  [node_simps]: "SetApprovalInputs m n =
     n\<lparr>n_state := (n_state n)\<lparr>ns_ApprovalInputs := m\<rparr>\<rparr>"

definition MatchExitCode :: "int list \<Rightarrow> node \<Rightarrow> bool" where
  "MatchExitCode codes n \<longleftrightarrow> ns_ExitCode (n_state n) \<in> set codes"

section \<open>Output variables\<close>

definition NewKeyValue :: "string \<Rightarrow> string \<Rightarrow> string" where
  "NewKeyValue k v = k @ ''='' @ v"

definition kv_Key :: "string \<Rightarrow> string" where
  "kv_Key kv = fst (str_cut kv (CHR ''=''))"

definition kv_Value :: "string \<Rightarrow> string" where
  "kv_Value kv = (case str_cut kv (CHR ''='') of (b, a, found) \<Rightarrow> if found then a else '''')"

definition kv_Bool :: "string \<Rightarrow> bool" where
  "kv_Bool kv = (case parse_bool (kv_Value kv) of None \<Rightarrow> False | Some b \<Rightarrow> b)"

definition ClearVariable :: "string \<Rightarrow> node \<Rightarrow> node" where
  [node_simps]: "ClearVariable k n =
     (case ns_OutputVariables (n_state n) of
        None \<Rightarrow> n
      | Some m \<Rightarrow> n\<lparr>n_state := (n_state n)\<lparr>ns_OutputVariables := Some (m(k := None))\<rparr>\<rparr>)"

definition getVariable :: "string \<Rightarrow> node \<Rightarrow> string option" where
  "getVariable k n =
     (case ns_OutputVariables (n_state n) of None \<Rightarrow> None | Some m \<Rightarrow> m k)"

definition getBoolVariable :: "string \<Rightarrow> node \<Rightarrow> bool option" where
  "getBoolVariable k n = map_option kv_Bool (getVariable k n)"

definition setVariable :: "string \<Rightarrow> string \<Rightarrow> node \<Rightarrow> node" where
  [node_simps]: "setVariable k v n =
     n\<lparr>n_state := (n_state n)\<lparr>ns_OutputVariables :=
        Some ((case ns_OutputVariables (n_state n) of None \<Rightarrow> Map.empty | Some m \<Rightarrow> m)
          (k \<mapsto> NewKeyValue k v))\<rparr>\<rparr>"

definition setBoolVariable :: "string \<Rightarrow> bool \<Rightarrow> node \<Rightarrow> node" where
  [node_simps]: "setBoolVariable k b n = setVariable k (format_bool b) n"

definition setOutputValue :: "string \<Rightarrow> node \<Rightarrow> node" where
  [node_simps]: "setOutputValue v n = n\<lparr>n_state := (n_state n)\<lparr>ns_OutputValue := Some v\<rparr>\<rparr>"

text \<open>\<open>OutputVariablesMap\<close>: the values after the first \<open>=\<close> of each stored pair.\<close>

definition OutputVariablesMap :: "node \<Rightarrow> variables" where
  "OutputVariablesMap n =
     (case ns_OutputVariables (n_state n) of
        None \<Rightarrow> Map.empty
      | Some m \<Rightarrow> (\<lambda>k. case m k of
            None \<Rightarrow> None
          | Some kv \<Rightarrow>
              (case str_cut kv (CHR ''='') of (b, a, found) \<Rightarrow> if found then Some a else None)))"

definition legacyOutputVariableValue :: "string \<Rightarrow> variables option \<Rightarrow> string option" where
  "legacyOutputVariableValue key vars =
     (if key = '''' then None
      else case vars of
        None \<Rightarrow> None
      | Some m \<Rightarrow>
          (case m key of
             None \<Rightarrow> None
           | Some kv \<Rightarrow>
               (case str_cut kv (CHR ''='') of (b, a, found) \<Rightarrow> if found then Some a else None)))"

definition StringFormOutputValue :: "node \<Rightarrow> string option" where
  "StringFormOutputValue n =
     (if sp_Output (n_step n) = '''' then None
      else case ns_OutputValue (n_state n) of
        Some v \<Rightarrow> Some v
      | None \<Rightarrow> legacyOutputVariableValue (sp_Output (n_step n)) (ns_OutputVariables (n_state n)))"

end
