(* ===== verification/Digraph.thy ===== *)
theory Digraph
  imports Go_Base "HOL-Library.AList"
begin

text \<open>
  Adjacency maps of package \<open>runtime\<close>, file \<open>plan.go\<close>. A Go \<open>map[int][]int\<close> that is
  only appended to is an association list; a missing key reads as the empty slice. The file
  holds Kahn's algorithm as the source writes it (\<open>isCyclic\<close>) and proves it correct against
  \<open>acyclic\<close>, and the facts about finite acyclic relations that the traversals of a plan use.
\<close>

type_synonym adjacency = "(nat \<times> nat list) list"

definition adj :: "adjacency \<Rightarrow> nat \<Rightarrow> nat list" where
  "adj m u = (case map_of m u of None \<Rightarrow> [] | Some vs \<Rightarrow> vs)"

definition adj_add :: "nat \<Rightarrow> nat \<Rightarrow> adjacency \<Rightarrow> adjacency" where
  "adj_add u v m = AList.update u (adj m u @ [v]) m"

definition edges :: "adjacency \<Rightarrow> (nat \<times> nat) set" where
  "edges m = {(u, v). v \<in> set (adj m u)}"

definition targets :: "adjacency \<Rightarrow> nat set" where
  "targets m = (\<Union>(k, vs) \<in> set m. set vs)"

lemma adj_empty [simp]: "adj [] u = []"
  by (simp add: adj_def)

lemma adj_adj_add: "adj (adj_add u v m) w = (if w = u then adj m u @ [v] else adj m w)"
  by (simp add: adj_def adj_add_def update_conv')

lemma edges_adj_add: "edges (adj_add u v m) = insert (u, v) (edges m)"
  by (auto simp: edges_def adj_adj_add split: if_splits)

lemma edges_empty [simp]: "edges [] = {}"
  by (simp add: edges_def)

lemma finite_targets [simp]: "finite (targets m)"
  by (auto simp: targets_def)

lemma adj_targets: "set (adj m u) \<subseteq> targets m"
proof (cases "map_of m u")
  case None
  then show ?thesis by (simp add: adj_def)
next
  case (Some vs)
  then have "(u, vs) \<in> set m" by (rule map_of_SomeD)
  with Some show ?thesis by (auto simp: adj_def targets_def)
qed

lemma finite_edges: "finite (edges m)"
proof -
  have "edges m \<subseteq> (fst ` set m) \<times> targets m"
  proof
    fix e assume "e \<in> edges m"
    then obtain u v where e: "e = (u, v)" and v: "v \<in> set (adj m u)"
      by (auto simp: edges_def)
    from v have "map_of m u \<noteq> None" by (cases "map_of m u") (auto simp: adj_def)
    then have "u \<in> fst ` set m" by (simp add: map_of_eq_None_iff)
    with e v show "e \<in> (fst ` set m) \<times> targets m" using adj_targets by blast
  qed
  then show ?thesis by (rule finite_subset) simp
qed

section \<open>Kahn's algorithm\<close>

type_synonym degrees = "nat \<Rightarrow> int"

fun kahn_relax :: "nat list \<Rightarrow> degrees \<Rightarrow> nat list \<Rightarrow> degrees \<times> nat list" where
  "kahn_relax [] d q = (d, q)"
| "kahn_relax (v # vs) d q =
     (let d' = d(v := d v - 1) in kahn_relax vs d' (if d' v = 0 then q @ [v] else q))"

text \<open>
  Every iteration takes one node out of the queue, and a node enters the queue only when its
  degree drops from one to zero. So the queue length plus the number of targets with a positive
  degree decreases.
\<close>

definition positive_targets :: "adjacency \<Rightarrow> degrees \<Rightarrow> nat" where
  "positive_targets m d = card {v \<in> targets m. 0 < d v}"

lemma kahn_relax_measure:
  "set vs \<subseteq> targets m \<Longrightarrow> kahn_relax vs d q = (d', q') \<Longrightarrow>
   length q' + positive_targets m d' \<le> length q + positive_targets m d"
proof (induction vs arbitrary: d q)
  case Nil
  then show ?case by simp
next
  case (Cons v vs)
  let ?d = "d(v := d v - 1)"
  let ?q = "if ?d v = 0 then q @ [v] else q"
  have "length q' + positive_targets m d' \<le> length ?q + positive_targets m ?d"
    using Cons.prems by (intro Cons.IH) (simp_all only: kahn_relax.simps Let_def set_simps insert_subset)
  moreover have "length ?q + positive_targets m ?d \<le> length q + positive_targets m d"
  proof (cases "d v = 1")
    case True
    let ?P = "{w \<in> targets m. 0 < d w}"
    have "{w \<in> targets m. 0 < ?d w} = ?P - {v}"
      using True by auto
    moreover have "v \<in> ?P" using True Cons.prems by simp
    moreover have "finite ?P" by simp
    ultimately have "Suc (positive_targets m ?d) = positive_targets m d"
      unfolding positive_targets_def by (simp only: card_Suc_Diff1)
    then show ?thesis using True by simp
  next
    case False
    have "{w \<in> targets m. 0 < ?d w} \<subseteq> {w \<in> targets m. 0 < d w}" by auto
    then have "positive_targets m ?d \<le> positive_targets m d"
      unfolding positive_targets_def by (intro card_mono) simp_all
    then show ?thesis using False by simp
  qed
  ultimately show ?case by linarith
qed

function kahn_loop :: "adjacency \<Rightarrow> nat list \<Rightarrow> degrees \<Rightarrow> nat \<Rightarrow> nat" where
  "kahn_loop m [] d processed = processed"
| "kahn_loop m (u # q) d processed =
     (case kahn_relax (adj m u) d q of (d', q') \<Rightarrow> kahn_loop m q' d' (Suc processed))"
  by pat_completeness auto
termination
  apply (relation "measure (\<lambda>(m, q, d, n). length q + positive_targets m d)")
   apply simp
  apply (simp del: One_nat_def)
  apply (drule sym)
  apply (drule kahn_relax_measure [OF adj_targets])
  apply simp
  done

text \<open>
  \<open>isCyclic\<close> of a graph given by its node list, the map to dependencies and the map to
  dependents.
\<close>

definition is_cyclic :: "nat list \<Rightarrow> adjacency \<Rightarrow> adjacency \<Rightarrow> bool" where
  "is_cyclic ids dependency dependant =
     (let inDegrees = (\<lambda>id. int (length (adj dependency id)));
          queue = filter (\<lambda>id. inDegrees id = 0) ids
      in kahn_loop dependant queue inDegrees 0 \<noteq> length ids)"

section \<open>Topological orders\<close>

text \<open>
  A list is a (reversed) topological order of a relation when each element has all its
  predecessors further down the list.
\<close>

fun topo_rev :: "(nat \<times> nat) set \<Rightarrow> nat list \<Rightarrow> bool" where
  "topo_rev E [] \<longleftrightarrow> True"
| "topo_rev E (v # vs) \<longleftrightarrow> v \<notin> set vs \<and> (\<forall>u. (u, v) \<in> E \<longrightarrow> u \<in> set vs) \<and> topo_rev E vs"

fun topo_rank :: "nat list \<Rightarrow> nat \<Rightarrow> nat" where
  "topo_rank [] v = 0"
| "topo_rank (x # xs) v = (if x = v then Suc (length xs) else topo_rank xs v)"

lemma topo_rev_distinct: "topo_rev E vs \<Longrightarrow> distinct vs"
  by (induction vs) auto

lemma topo_rev_closed: "topo_rev E vs \<Longrightarrow> v \<in> set vs \<Longrightarrow> (u, v) \<in> E \<Longrightarrow> u \<in> set vs"
  by (induction vs) auto

lemma topo_rank_le: "topo_rank vs v \<le> length vs"
  by (induction vs) auto

lemma topo_rank_less:
  "topo_rev E vs \<Longrightarrow> v \<in> set vs \<Longrightarrow> (u, v) \<in> E \<Longrightarrow> topo_rank vs u < topo_rank vs v"
proof (induction vs)
  case (Cons x xs)
  show ?case
  proof (cases "x = v")
    case True
    then have "u \<noteq> x" using Cons.prems by auto
    with True show ?thesis using topo_rank_le [of xs u] by simp
  next
    case False
    then have v: "v \<in> set xs" and u: "u \<in> set xs"
      using Cons.prems topo_rev_closed [of E xs v u] by auto
    then have "u \<noteq> x" using Cons.prems by auto
    with False v Cons show ?thesis by auto
  qed
qed simp

lemma topo_rev_acyclic:
  assumes "topo_rev E vs" and "\<And>u v. (u, v) \<in> E \<Longrightarrow> v \<in> set vs"
  shows "acyclic E"
proof -
  have "acyclic (E\<inverse>)"
    by (rule acyclicI_order [where f = "topo_rank vs"]) (use assms topo_rank_less in auto)
  then show ?thesis by simp
qed

section \<open>Correctness of Kahn's algorithm\<close>

lemma kahn_relax_spec:
  assumes "kahn_relax vs d q = (d', q')" and "\<And>v. int (count_list vs v) \<le> d v"
  shows "d' = (\<lambda>v. d v - int (count_list vs v)) \<and>
    (\<exists>r. q' = q @ r \<and> distinct r \<and> set r = {v \<in> set vs. d v = int (count_list vs v)})"
  using assms
proof (induction vs arbitrary: d q)
  case Nil
  then show ?case by auto
next
  case (Cons v vs)
  let ?d = "d(v := d v - 1)"
  let ?q = "if ?d v = 0 then q @ [v] else q"
  have relax: "kahn_relax vs ?d ?q = (d', q')"
    using Cons.prems(1) by (simp only: kahn_relax.simps Let_def)
  have le: "int (count_list vs w) \<le> ?d w" for w
    using Cons.prems(2) [of w] by (auto split: if_splits)
  from Cons.IH [OF relax le] obtain r where
    d': "d' = (\<lambda>w. ?d w - int (count_list vs w))" and q': "q' = ?q @ r" and
    r: "distinct r" "set r = {w \<in> set vs. ?d w = int (count_list vs w)}" by blast
  have d'': "d' = (\<lambda>w. d w - int (count_list (v # vs) w))"
    unfolding d' by (rule ext) simp
  show ?case
  proof (cases "?d v = 0")
    case True
    then have nv: "v \<notin> set vs" using le [of v] by (auto simp: count_list_0_iff)
    then have "distinct (v # r)" using r by auto
    moreover have "w \<in> set (v # r) \<longleftrightarrow> w \<in> set (v # vs) \<and> d w = int (count_list (v # vs) w)"
      for w
      using True nv r(2) count_list_0_iff [of vs v] by (cases "w = v") simp_all
    then have "set (v # r) = {w \<in> set (v # vs). d w = int (count_list (v # vs) w)}" by blast
    moreover have "q' = q @ v # r" using q' True by simp
    ultimately show ?thesis using d'' by blast
  next
    case False
    have nv: "v \<in> set vs" if "d v = int (count_list (v # vs) v)"
      using that False count_list_0_iff [of vs v] by auto
    have "w \<in> set r \<longleftrightarrow> w \<in> set (v # vs) \<and> d w = int (count_list (v # vs) w)" for w
      unfolding r(2) using nv by (cases "w = v") auto
    then have "set r = {w \<in> set (v # vs). d w = int (count_list (v # vs) w)}" by blast
    moreover have "q' = q @ r" using q' False by simp
    ultimately show ?thesis using d'' r(1) by blast
  qed
qed

text \<open>
  The loop invariant, over the processed nodes \<open>P\<close> (last first): every degree counts the edges
  from unprocessed nodes, and the nodes of degree zero are the processed and the queued ones.
\<close>

definition open_degree :: "adjacency \<Rightarrow> nat list \<Rightarrow> nat list \<Rightarrow> nat \<Rightarrow> nat" where
  "open_degree m ids P v = (\<Sum>u \<in> set ids - set P. count_list (adj m u) v)"

definition kahn_inv :: "adjacency \<Rightarrow> nat list \<Rightarrow> nat list \<Rightarrow> nat list \<Rightarrow> degrees \<Rightarrow> bool" where
  "kahn_inv m ids P q d \<longleftrightarrow> distinct (P @ q) \<and> set (P @ q) \<subseteq> set ids
     \<and> (\<forall>v. d v = int (open_degree m ids P v))
     \<and> (\<forall>v \<in> set ids. d v = 0 \<longleftrightarrow> v \<in> set (P @ q)) \<and> topo_rev (edges m) P"

lemma open_degree_Cons:
  assumes "u \<in> set ids" "u \<notin> set P"
  shows "open_degree m ids P v = count_list (adj m u) v + open_degree m ids (u # P) v"
proof -
  have eq: "set ids - set (u # P) = set ids - set P - {u}" by auto
  show ?thesis
    unfolding open_degree_def eq by (rule sum.remove) (use assms in auto)
qed

lemma open_degree_zero:
  "open_degree m ids P v = 0 \<longleftrightarrow> (\<forall>u \<in> set ids - set P. (u, v) \<notin> edges m)"
  by (auto simp: open_degree_def edges_def count_list_0_iff)

lemma kahn_inv_step:
  assumes inv: "kahn_inv m ids P (u # q) d"
    and sub: "edges m \<subseteq> set ids \<times> set ids"
    and relax: "kahn_relax (adj m u) d q = (d', q')"
  shows "kahn_inv m ids (u # P) q' d'"
proof -
  from inv have u: "u \<in> set ids" "u \<notin> set P" and d: "\<And>v. d v = int (open_degree m ids P v)"
    and zero: "\<And>v. v \<in> set ids \<Longrightarrow> d v = 0 \<longleftrightarrow> v \<in> set (P @ u # q)"
    by (auto simp: kahn_inv_def)
  have split: "open_degree m ids P v = count_list (adj m u) v + open_degree m ids (u # P) v" for v
    using open_degree_Cons [OF u] .
  have "int (count_list (adj m u) v) \<le> d v" for v
    using d [of v] split [of v] by simp
  from kahn_relax_spec [OF relax this] obtain r where
    d': "d' = (\<lambda>v. d v - int (count_list (adj m u) v))" and q': "q' = q @ r" and
    r: "distinct r" "set r = {v \<in> set (adj m u). d v = int (count_list (adj m u) v)}" by blast
  have d'': "d' v = int (open_degree m ids (u # P) v)" for v
    using d [of v] split [of v] d' by simp
  have r_ids: "set r \<subseteq> set ids" using r sub by (auto simp: edges_def)
  have r_pos: "d v \<noteq> 0" if "v \<in> set r" for v
    using that r by (auto simp: count_list_0_iff)
  have fresh: "v \<notin> set (P @ u # q)" if "v \<in> set r" for v
    using zero [of v] r_pos [OF that] r_ids that by blast
  have "d' v = 0 \<longleftrightarrow> v \<in> set ((u # P) @ q')" if v: "v \<in> set ids" for v
  proof -
    have "d' v = 0 \<longleftrightarrow> d v = int (count_list (adj m u) v)" by (simp add: d')
    also have "\<dots> \<longleftrightarrow> d v = 0 \<or> v \<in> set r"
      unfolding r(2) using d [of v] split [of v] count_list_0_iff [of "adj m u" v]
      by (cases "v \<in> set (adj m u)") simp_all
    finally show ?thesis using zero [OF v] q' by auto
  qed
  moreover have "(w, u) \<in> edges m \<Longrightarrow> w \<in> set P" for w
  proof -
    assume e: "(w, u) \<in> edges m"
    have "open_degree m ids P u = 0" using zero [OF u(1)] d [of u] by simp
    then show "w \<in> set P" using e sub by (auto simp: open_degree_zero)
  qed
  moreover have "distinct ((u # P) @ q')"
    using inv r(1) fresh unfolding q' kahn_inv_def by (simp, blast)
  moreover have "set ((u # P) @ q') \<subseteq> set ids"
    using inv r_ids unfolding q' kahn_inv_def by simp
  moreover have "topo_rev (edges m) P" using inv by (simp add: kahn_inv_def)
  ultimately show ?thesis
    using d'' u unfolding kahn_inv_def by simp
qed

lemma kahn_loop_inv:
  "kahn_inv m ids P q d \<Longrightarrow> edges m \<subseteq> set ids \<times> set ids \<Longrightarrow>
   \<exists>R d'. kahn_loop m q d (length P) = length R \<and> kahn_inv m ids R [] d'"
proof (induction m q d "length P" arbitrary: P rule: kahn_loop.induct)
  case (1 m d)
  then show ?case by auto
next
  case (2 m u q d)
  obtain d' q' where relax: "kahn_relax (adj m u) d q = (d', q')" by fastforce
  have "kahn_inv m ids (u # P) q' d'" using kahn_inv_step [OF 2(2,3) relax] .
  from 2(1) [OF relax [symmetric], of "u # P"] this 2(3) relax show ?case by simp
qed

text \<open>
  The two adjacency maps of a plan mirror each other: an edge is recorded as often in one as in
  the other.
\<close>

definition mirrored :: "nat list \<Rightarrow> adjacency \<Rightarrow> adjacency \<Rightarrow> bool" where
  "mirrored ids dependency dependant \<longleftrightarrow>
     (\<forall>u v. count_list (adj dependency v) u = count_list (adj dependant u) v)
     \<and> edges dependant \<subseteq> set ids \<times> set ids"

lemma mirrored_edge:
  assumes "mirrored ids dependency dependant"
  shows "u \<in> set (adj dependency v) \<longleftrightarrow> (u, v) \<in> edges dependant"
proof -
  have "count_list (adj dependency v) u = 0 \<longleftrightarrow> count_list (adj dependant u) v = 0"
    using assms by (simp add: mirrored_def)
  then show ?thesis by (simp add: edges_def count_list_0_iff)
qed

lemma mirrored_degree:
  assumes "mirrored ids dependency dependant"
  shows "length (adj dependency v) = open_degree dependant ids [] v"
proof -
  have "x \<in> set ids" if "x \<in> set (adj dependency v)" for x
    using that mirrored_edge [OF assms] assms by (auto simp: mirrored_def)
  then have "length (adj dependency v) = (\<Sum>u \<in> set ids. count_list (adj dependency v) u)"
    by (intro sum_count_set [symmetric]) auto
  also have "\<dots> = open_degree dependant ids [] v"
    using assms by (simp add: open_degree_def mirrored_def)
  finally show ?thesis .
qed

lemma kahn_run:
  assumes "distinct ids" and mir: "mirrored ids dependency dependant"
  obtains R d' where "kahn_inv dependant ids R [] d'"
    and "is_cyclic ids dependency dependant \<longleftrightarrow> length R \<noteq> length ids"
proof -
  let ?d = "\<lambda>id. int (length (adj dependency id))"
  let ?q = "filter (\<lambda>id. ?d id = 0) ids"
  have "kahn_inv dependant ids [] ?q ?d"
    using assms by (simp add: kahn_inv_def mirrored_degree)
  from kahn_loop_inv [OF this] mir obtain R d' where
    "kahn_loop dependant ?q ?d 0 = length R" "kahn_inv dependant ids R [] d'"
    by (auto simp: mirrored_def)
  then show ?thesis using that by (simp add: is_cyclic_def Let_def)
qed

lemma kahn_exhausted:
  assumes inv: "kahn_inv m ids R [] d" and "acyclic (edges m)"
    and sub: "edges m \<subseteq> set ids \<times> set ids"
  shows "set R = set ids"
proof (rule ccontr)
  assume "set R \<noteq> set ids"
  then obtain x where x: "x \<in> set ids - set R" using inv by (auto simp: kahn_inv_def)
  have "wf (edges m)" using assms(2) finite_edges by (simp add: finite_acyclic_wf)
  from wfE_min [OF this x] obtain v where v: "v \<in> set ids - set R"
    and min: "\<And>u. (u, v) \<in> edges m \<Longrightarrow> u \<notin> set ids - set R" by blast
  have "open_degree m ids R v = 0" using min by (auto simp: open_degree_zero)
  then have "v \<in> set R" using inv v by (auto simp: kahn_inv_def)
  with v show False by simp
qed

theorem is_cyclic_iff:
  assumes "distinct ids" and mir: "mirrored ids dependency dependant"
  shows "is_cyclic ids dependency dependant \<longleftrightarrow> \<not> acyclic (edges dependant)"
proof -
  obtain R d' where inv: "kahn_inv dependant ids R [] d'"
    and cyc: "is_cyclic ids dependency dependant \<longleftrightarrow> length R \<noteq> length ids"
    using kahn_run [OF assms] .
  have sub: "edges dependant \<subseteq> set ids \<times> set ids" using mir by (simp add: mirrored_def)
  have R: "distinct R" "set R \<subseteq> set ids" "topo_rev (edges dependant) R"
    using inv by (auto simp: kahn_inv_def)
  have "length R = length ids \<longleftrightarrow> set R = set ids"
    using R assms(1) by (metis List.finite_set card_subset_eq distinct_card)
  moreover have "acyclic (edges dependant)" if "set R = set ids"
    using topo_rev_acyclic [OF R(3)] sub that by blast
  ultimately show ?thesis using cyc kahn_exhausted [OF inv _ sub] by blast
qed

lemma is_cyclic_topo:
  assumes "distinct ids" and mir: "mirrored ids dependency dependant"
    and "\<not> is_cyclic ids dependency dependant"
  obtains R where "topo_rev (edges dependant) R" "set R = set ids" "length R = length ids"
proof -
  obtain R d' where inv: "kahn_inv dependant ids R [] d'"
    and len: "length R = length ids"
    using kahn_run [OF assms(1,2)] assms(3) by metis
  moreover have "acyclic (edges dependant)" using assms is_cyclic_iff by blast
  ultimately show ?thesis
    using that kahn_exhausted [OF inv] mir by (auto simp: mirrored_def kahn_inv_def)
qed

end
