(* ===== verification/Plan_Graph.thy ===== *)
theory Plan_Graph
  imports Node_Data Digraph
begin

text \<open>
  Package \<open>runtime\<close>, file \<open>plan.go\<close>: the execution plan of a set of steps. A pointer to a
  node is the position of the node in \<open>p_nodes\<close>. The process-wide counter behind
  \<open>getNextNodeID\<close> is an argument and a result of the constructors. The lemmas show that a
  plan is built exactly when every dependency exists and the declared dependencies have no
  cycle, and that the graph is the declared one.
\<close>

section \<open>State\<close>

record plan =
  p_startedAt :: time
  p_finishedAt :: time
  p_nodes :: "node list"
  p_nodeByID :: "nat \<rightharpoonup> nat"
  p_nodeByName :: "string \<rightharpoonup> nat"
  p_DependencyMap :: adjacency
  p_DependantMap :: adjacency

datatype plan_error =
    ErrCyclicPlan
  | ErrMissingNode string
  | NilNodePanic

definition empty_plan :: "time \<Rightarrow> plan" where
  "empty_plan now = \<lparr> p_startedAt = now, p_finishedAt = zero_time, p_nodes = [],
     p_nodeByID = Map.empty, p_nodeByName = Map.empty,
     p_DependencyMap = [], p_DependantMap = [] \<rparr>"

abbreviation plan_ids :: "plan \<Rightarrow> nat list" where
  "plan_ids p \<equiv> map n_id (p_nodes p)"

abbreviation plan_names :: "plan \<Rightarrow> string list" where
  "plan_names p \<equiv> map Name (p_nodes p)"

section \<open>Construction\<close>

definition Init :: "nat \<Rightarrow> node \<Rightarrow> node \<times> nat" where
  "Init nid n = (if n_id n = 0 then (n\<lparr>n_id := nid\<rparr>, Suc nid) else (n, nid))"

definition addNode :: "node \<Rightarrow> plan \<Rightarrow> plan" where
  "addNode n p = p\<lparr>p_nodeByID := (p_nodeByID p)(n_id n \<mapsto> length (p_nodes p)),
     p_nodeByName := (p_nodeByName p)(Name n \<mapsto> length (p_nodes p)),
     p_nodes := p_nodes p @ [n]\<rparr>"

definition addEdge :: "nat \<Rightarrow> nat \<Rightarrow> plan \<Rightarrow> plan" where
  "addEdge from to p = p\<lparr>p_DependantMap := adj_add from to (p_DependantMap p),
     p_DependencyMap := adj_add to from (p_DependencyMap p)\<rparr>"

fun init_nodes :: "nat \<Rightarrow> node list \<Rightarrow> plan \<Rightarrow> plan \<times> nat" where
  "init_nodes nid [] p = (p, nid)"
| "init_nodes nid (n # ns) p =
     (case Init nid n of (n', nid') \<Rightarrow> init_nodes nid' ns (addNode n' p))"

fun node_edges :: "node \<Rightarrow> string list \<Rightarrow> plan \<Rightarrow> plan_error + plan" where
  "node_edges n [] p = Inr p"
| "node_edges n (depName # ds) p =
     (case p_nodeByName p depName of
        None \<Rightarrow> Inl (ErrMissingNode depName)
      | Some i \<Rightarrow> node_edges n ds (addEdge (n_id (p_nodes p ! i)) (n_id n) p))"

fun nodes_edges :: "node list \<Rightarrow> plan \<Rightarrow> plan_error + plan" where
  "nodes_edges [] p = Inr p"
| "nodes_edges (n # ns) p =
     (case node_edges n (sp_Depends (n_step n)) p of
        Inl e \<Rightarrow> Inl e
      | Inr p' \<Rightarrow> nodes_edges ns p')"

definition plan_isCyclic :: "plan \<Rightarrow> bool" where
  "plan_isCyclic p = is_cyclic (plan_ids p) (p_DependencyMap p) (p_DependantMap p)"

definition buildEdges :: "plan \<Rightarrow> plan_error + plan" where
  "buildEdges p =
     (case nodes_edges (p_nodes p) p of
        Inl e \<Rightarrow> Inl e
      | Inr p' \<Rightarrow> if plan_isCyclic p' then Inl ErrCyclicPlan else Inr p')"

definition NewPlan :: "time \<Rightarrow> nat \<Rightarrow> step list \<Rightarrow> (plan_error + plan) \<times> nat" where
  "NewPlan now nid steps =
     (case init_nodes nid (map (\<lambda>s. NewNode s zero_node_state) steps) (empty_plan now) of
        (p, nid') \<Rightarrow> (buildEdges p, nid'))"

definition NewPlanFromNodes :: "time \<Rightarrow> nat \<Rightarrow> node list \<Rightarrow> (plan_error + plan) \<times> nat" where
  "NewPlanFromNodes now nid nodes =
     (case init_nodes nid nodes (empty_plan now) of (p, nid') \<Rightarrow> (buildEdges p, nid'))"

section \<open>Accessors and status\<close>

definition update_node :: "nat \<Rightarrow> (node \<Rightarrow> node) \<Rightarrow> plan \<Rightarrow> plan" where
  "update_node i f p = p\<lparr>p_nodes := (p_nodes p)[i := f (p_nodes p ! i)]\<rparr>"

definition GetNode :: "plan \<Rightarrow> nat \<Rightarrow> node option" where
  "GetNode p u = map_option ((!) (p_nodes p)) (p_nodeByID p u)"

definition GetNodeByName :: "plan \<Rightarrow> string \<Rightarrow> node option" where
  "GetNodeByName p k = map_option ((!) (p_nodes p)) (p_nodeByName p k)"

definition Dependencies :: "plan \<Rightarrow> nat \<Rightarrow> nat list" where
  "Dependencies p u = adj (p_DependencyMap p) u"

definition Dependents :: "plan \<Rightarrow> nat \<Rightarrow> nat list" where
  "Dependents p u = adj (p_DependantMap p) u"

definition plan_Duration :: "time \<Rightarrow> plan \<Rightarrow> duration" where
  "plan_Duration now p =
     (if is_zero (p_finishedAt p) then now - p_startedAt p else p_finishedAt p - p_startedAt p)"

definition plan_IsStarted :: "plan \<Rightarrow> bool" where
  "plan_IsStarted p \<longleftrightarrow> \<not> is_zero (p_startedAt p)"

definition plan_IsFinished :: "plan \<Rightarrow> bool" where
  "plan_IsFinished p \<longleftrightarrow> \<not> is_zero (p_finishedAt p)"

definition plan_Finish :: "time \<Rightarrow> plan \<Rightarrow> plan" where
  "plan_Finish now p = p\<lparr>p_finishedAt := now\<rparr>"

record plan_node_states =
  HasRunning :: bool
  HasRetrying :: bool
  HasWaiting :: bool
  HasNotStarted :: bool
  HasRejected :: bool

primrec note_status :: "node_status \<Rightarrow> plan_node_states \<Rightarrow> plan_node_states" where
  "note_status NodeRunning s = s\<lparr>HasRunning := True\<rparr>"
| "note_status NodeRetrying s = s\<lparr>HasRetrying := True\<rparr>"
| "note_status NodeWaiting s = s\<lparr>HasWaiting := True\<rparr>"
| "note_status NodeNotStarted s = s\<lparr>HasNotStarted := True\<rparr>"
| "note_status NodeRejected s = s\<lparr>HasRejected := True\<rparr>"
| "note_status NodeSucceeded s = s"
| "note_status NodeFailed s = s"
| "note_status NodeAborted s = s"
| "note_status NodeSkipped s = s"
| "note_status NodePartiallySucceeded s = s"

definition NodeStates :: "plan \<Rightarrow> plan_node_states" where
  "NodeStates p = fold (note_status \<circ> Status) (p_nodes p)
     \<lparr> HasRunning = False, HasRetrying = False, HasWaiting = False, HasNotStarted = False,
       HasRejected = False \<rparr>"

definition WaitingStepNames :: "plan \<Rightarrow> string list" where
  "WaitingStepNames p = map Name (filter (\<lambda>n. Status n = NodeWaiting) (p_nodes p))"

definition isRunningLocked :: "plan \<Rightarrow> bool" where
  "isRunningLocked p = list_ex (\<lambda>n. Status n = NodeRunning \<or> Status n = NodeRetrying
     \<or> (Status n = NodeNotStarted \<and> is_zero (p_finishedAt p))) (p_nodes p)"

definition hasActiveNodesLocked :: "plan \<Rightarrow> bool" where
  "hasActiveNodesLocked p =
     list_ex (\<lambda>n. Status n = NodeRunning \<or> Status n = NodeRetrying) (p_nodes p)"

definition CheckFinished :: "plan \<Rightarrow> bool" where
  "CheckFinished p = (\<not> list_ex (\<lambda>n. Status n = NodeRunning \<or> Status n = NodeRetrying
     \<or> Status n = NodeNotStarted) (p_nodes p))"

section \<open>Well-formed plans\<close>

text \<open>The position of the last occurrence of a key, as successive map updates leave it.\<close>

definition last_pos :: "'a list \<Rightarrow> 'a \<rightharpoonup> nat" where
  "last_pos xs = map_of (rev (zip xs [0..<length xs]))"

lemma last_pos_Nil [simp]: "last_pos [] = Map.empty"
  by (simp add: last_pos_def)

lemma last_pos_snoc [simp]: "last_pos (xs @ [x]) = (last_pos xs)(x \<mapsto> length xs)"
  by (simp add: last_pos_def)

lemma last_pos_SomeD: "last_pos xs k = Some i \<Longrightarrow> i < length xs \<and> xs ! i = k"
  by (induction xs arbitrary: i rule: rev_induct) (auto simp: nth_append split: if_splits)

lemma last_pos_None: "last_pos xs k = None \<longleftrightarrow> k \<notin> set xs"
  by (induction xs rule: rev_induct) auto

lemma last_pos_nth: "distinct xs \<Longrightarrow> i < length xs \<Longrightarrow> last_pos xs (xs ! i) = Some i"
proof -
  assume d: "distinct xs" and i: "i < length xs"
  then have "last_pos xs (xs ! i) \<noteq> None" by (simp only: last_pos_None nth_mem not_not)
  then obtain j where j: "last_pos xs (xs ! i) = Some j" by blast
  with last_pos_SomeD [OF j] nth_eq_iff_index_eq [OF d, of j i] i show ?thesis by simp
qed

definition plan_wf :: "plan \<Rightarrow> bool" where
  "plan_wf p \<longleftrightarrow> distinct (plan_ids p) \<and> p_nodeByID p = last_pos (plan_ids p)
     \<and> p_nodeByName p = last_pos (plan_names p)
     \<and> mirrored (plan_ids p) (p_DependencyMap p) (p_DependantMap p)"

lemma plan_wf_empty: "plan_wf (empty_plan now)"
  by (simp add: plan_wf_def empty_plan_def mirrored_def)

lemma plan_wf_addNode:
  assumes "plan_wf p" "n_id n \<notin> set (plan_ids p)"
  shows "plan_wf (addNode n p)"
  using assms by (auto simp: plan_wf_def addNode_def mirrored_def)

lemma plan_wf_addEdge:
  assumes "plan_wf p" "u \<in> set (plan_ids p)" "v \<in> set (plan_ids p)"
  shows "plan_wf (addEdge u v p)"
  using assms
  by (auto simp: plan_wf_def addEdge_def mirrored_def adj_adj_add edges_adj_add)

lemma addEdge_frame [simp]:
  "p_nodes (addEdge u v p) = p_nodes p" "p_nodeByID (addEdge u v p) = p_nodeByID p"
  "p_nodeByName (addEdge u v p) = p_nodeByName p"
  "p_startedAt (addEdge u v p) = p_startedAt p" "p_finishedAt (addEdge u v p) = p_finishedAt p"
  "edges (p_DependantMap (addEdge u v p)) = insert (u, v) (edges (p_DependantMap p))"
  by (simp_all add: addEdge_def edges_adj_add)

lemma addNode_frame [simp]:
  "p_nodes (addNode n p) = p_nodes p @ [n]"
  "p_DependantMap (addNode n p) = p_DependantMap p"
  "p_DependencyMap (addNode n p) = p_DependencyMap p"
  "p_startedAt (addNode n p) = p_startedAt p" "p_finishedAt (addNode n p) = p_finishedAt p"
  by (simp_all add: addNode_def)

text \<open>
  Nodes handed to a constructor either have no id yet or carry distinct ids that the counter
  has already passed.
\<close>

definition fresh_nodes :: "nat \<Rightarrow> node list \<Rightarrow> bool" where
  "fresh_nodes nid ns \<longleftrightarrow> 0 < nid \<and> (\<forall>n \<in> set ns. n_id n < nid)
     \<and> distinct (filter (\<lambda>i. i \<noteq> 0) (map n_id ns))"

fun assign_ids :: "nat \<Rightarrow> node list \<Rightarrow> node list" where
  "assign_ids nid [] = []"
| "assign_ids nid (n # ns) =
     (if n_id n = 0 then n\<lparr>n_id := nid\<rparr> # assign_ids (Suc nid) ns else n # assign_ids nid ns)"

lemma init_nodes_nodes:
  "p_nodes (fst (init_nodes nid ns p)) = p_nodes p @ assign_ids nid ns"
  "p_DependantMap (fst (init_nodes nid ns p)) = p_DependantMap p"
  "p_DependencyMap (fst (init_nodes nid ns p)) = p_DependencyMap p"
  "p_startedAt (fst (init_nodes nid ns p)) = p_startedAt p"
  "p_finishedAt (fst (init_nodes nid ns p)) = p_finishedAt p"
  by (induction nid ns p rule: init_nodes.induct) (simp_all add: Init_def)

lemma init_nodes_wf:
  assumes "plan_wf p" "fresh_nodes nid ns"
    and "\<forall>i \<in> set (plan_ids p). i < nid \<and> i \<notin> n_id ` set ns \<and> i \<noteq> 0"
  shows "plan_wf (fst (init_nodes nid ns p))"
  using assms
proof (induction nid ns p rule: init_nodes.induct)
  case (2 nid n ns p)
  show ?case
  proof (cases "n_id n = 0")
    case True
    let ?n = "n\<lparr>n_id := nid\<rparr>"
    have "nid \<notin> set (plan_ids p)" using 2(4) by fastforce
    then have wf: "plan_wf (addNode ?n p)" using 2(2) by (simp add: plan_wf_addNode)
    have "fresh_nodes (Suc nid) ns" using 2(3) True by (auto simp: fresh_nodes_def)
    moreover have "\<forall>i \<in> set (plan_ids (addNode ?n p)).
        i < Suc nid \<and> i \<notin> n_id ` set ns \<and> i \<noteq> 0"
      using 2(3,4) by (auto simp: fresh_nodes_def)
    ultimately show ?thesis using 2(1) [of ?n "Suc nid"] wf True by (simp add: Init_def)
  next
    case False
    then have "n_id n \<notin> set (plan_ids p)" using 2(4) by auto
    then have wf: "plan_wf (addNode n p)" using 2(2) by (simp add: plan_wf_addNode)
    have "fresh_nodes nid ns" using 2(3) False by (auto simp: fresh_nodes_def)
    moreover have "\<forall>i \<in> set (plan_ids (addNode n p)).
        i < nid \<and> i \<notin> n_id ` set ns \<and> i \<noteq> 0"
      using 2(3,4) False by (auto simp: fresh_nodes_def)
    ultimately show ?thesis using 2(1) [of n nid] wf False by (simp add: Init_def)
  qed
qed simp

lemma init_nodes_empty_wf:
  "fresh_nodes nid ns \<Longrightarrow> plan_wf (fst (init_nodes nid ns (empty_plan now)))"
  by (rule init_nodes_wf) (simp_all add: plan_wf_empty, simp add: empty_plan_def)

lemma assign_ids_steps [simp]:
  "map n_step (assign_ids nid ns) = map n_step ns"
  "map n_state (assign_ids nid ns) = map n_state ns"
  "length (assign_ids nid ns) = length ns"
  by (induction nid ns rule: assign_ids.induct) simp_all

lemma assign_ids_new:
  "map n_id (assign_ids nid (map (\<lambda>s. NewNode s st) steps)) = [nid..<nid + length steps]"
proof (induction steps arbitrary: nid)
  case (Cons s steps)
  have "[nid..<nid + length (s # steps)] = nid # [Suc nid..<Suc nid + length steps]"
    by (simp add: upt_conv_Cons del: upt_Suc)
  with Cons [of "Suc nid"] show ?case by (simp add: NewNode_def)
qed simp

section \<open>Building the edges\<close>

definition declared_edges :: "plan \<Rightarrow> node list \<Rightarrow> (nat \<times> nat) set" where
  "declared_edges p ns =
     {(n_id (p_nodes p ! i), n_id n) | i n d. n \<in> set ns \<and> d \<in> set (sp_Depends (n_step n))
        \<and> p_nodeByName p d = Some i}"

definition missing_deps :: "plan \<Rightarrow> node list \<Rightarrow> string list" where
  "missing_deps p ns =
     filter (\<lambda>d. p_nodeByName p d = None) (concat (map (sp_Depends \<circ> n_step) ns))"

text \<open>
  What the loops of \<open>buildEdges\<close> leave unchanged, which makes their effect a fold over the
  edges.
\<close>

definition same_nodes :: "plan \<Rightarrow> plan \<Rightarrow> bool" where
  "same_nodes p p' \<longleftrightarrow> p_nodes p' = p_nodes p \<and> p_nodeByID p' = p_nodeByID p
     \<and> p_nodeByName p' = p_nodeByName p \<and> p_startedAt p' = p_startedAt p
     \<and> p_finishedAt p' = p_finishedAt p"

lemma node_edges_missing:
  "filter (\<lambda>d. p_nodeByName p d = None) ds = d # rest \<Longrightarrow>
   node_edges n ds p = Inl (ErrMissingNode d)"
  by (induction n ds p rule: node_edges.induct) (auto split: if_splits option.splits)

lemma node_edges_ok:
  assumes "plan_wf p" "n_id n \<in> set (plan_ids p)" "\<forall>d \<in> set ds. p_nodeByName p d \<noteq> None"
  shows "\<exists>p'. node_edges n ds p = Inr p' \<and> plan_wf p' \<and> same_nodes p p'
     \<and> edges (p_DependantMap p') = edges (p_DependantMap p) \<union>
         {(n_id (p_nodes p ! i), n_id n) | i d. d \<in> set ds \<and> p_nodeByName p d = Some i}"
  using assms
proof (induction ds arbitrary: p)
  case Nil
  then show ?case by (simp add: same_nodes_def)
next
  case (Cons d ds)
  then obtain i where i: "p_nodeByName p d = Some i" by auto
  let ?u = "n_id (p_nodes p ! i)"
  let ?p = "addEdge ?u (n_id n) p"
  have "i < length (p_nodes p)"
    using i Cons.prems(1) last_pos_SomeD [of "plan_names p"] by (auto simp: plan_wf_def)
  then have "?u \<in> set (plan_ids p)" by simp
  then have "plan_wf ?p" using Cons.prems(1,2) by (intro plan_wf_addEdge)
  moreover have "n_id n \<in> set (plan_ids ?p)" "\<forall>d \<in> set ds. p_nodeByName ?p d \<noteq> None"
    using Cons.prems by simp_all
  ultimately obtain p' where p': "node_edges n ds ?p = Inr p'" "plan_wf p'" "same_nodes ?p p'"
    and e: "edges (p_DependantMap p') = insert (?u, n_id n) (edges (p_DependantMap p)) \<union>
      {(n_id (p_nodes p ! i), n_id n) | i d. d \<in> set ds \<and> p_nodeByName p d = Some i}"
    using Cons.IH [of ?p] by (simp only: addEdge_frame) blast
  have "edges (p_DependantMap p') = edges (p_DependantMap p) \<union>
      {(n_id (p_nodes p ! i), n_id n) | i d'. d' \<in> set (d # ds) \<and> p_nodeByName p d' = Some i}"
    unfolding e using i by auto
  moreover have "node_edges n (d # ds) p = Inr p'" using p'(1) i by simp
  moreover have "same_nodes p p'" using p'(3) by (simp add: same_nodes_def)
  ultimately show ?case using p'(2) by blast
qed

lemma declared_edges_Cons:
  "declared_edges p (n # ns) = declared_edges p ns \<union>
     {(n_id (p_nodes p ! i), n_id n) | i d. d \<in> set (sp_Depends (n_step n))
        \<and> p_nodeByName p d = Some i}"
  by (auto simp: declared_edges_def)

lemma nodes_edges_missing:
  assumes "plan_wf p" "set (map n_id ns) \<subseteq> set (plan_ids p)" "missing_deps p ns = d # rest"
  shows "nodes_edges ns p = Inl (ErrMissingNode d)"
  using assms
proof (induction ns arbitrary: p)
  case (Cons n ns)
  show ?case
  proof (cases "filter (\<lambda>d. p_nodeByName p d = None) (sp_Depends (n_step n))")
    case Nil
    then have "\<forall>d \<in> set (sp_Depends (n_step n)). p_nodeByName p d \<noteq> None"
      by (simp add: filter_empty_conv)
    with node_edges_ok [of p n "sp_Depends (n_step n)"] Cons.prems obtain p' where
      p': "node_edges n (sp_Depends (n_step n)) p = Inr p'" "plan_wf p'" "same_nodes p p'"
      by (simp del: not_None_eq) blast
    have "nodes_edges ns p' = Inl (ErrMissingNode d)"
      using Cons.prems p' Nil by (intro Cons.IH) (auto simp: same_nodes_def missing_deps_def)
    with p' show ?thesis by simp
  next
    case (Cons d' rest')
    with Cons.prems show ?thesis
      by (simp add: missing_deps_def node_edges_missing)
  qed
qed (simp add: missing_deps_def)

lemma nodes_edges_ok:
  assumes "plan_wf p" "set (map n_id ns) \<subseteq> set (plan_ids p)" "missing_deps p ns = []"
  shows "\<exists>p'. nodes_edges ns p = Inr p' \<and> plan_wf p' \<and> same_nodes p p'
     \<and> edges (p_DependantMap p') = edges (p_DependantMap p) \<union> declared_edges p ns"
  using assms
proof (induction ns arbitrary: p)
  case Nil
  then show ?case by (simp add: same_nodes_def declared_edges_def)
next
  case (Cons n ns)
  have "\<forall>d \<in> set (sp_Depends (n_step n)). p_nodeByName p d \<noteq> None"
    using Cons.prems by (simp add: missing_deps_def filter_empty_conv)
  with node_edges_ok [of p n "sp_Depends (n_step n)"] Cons.prems obtain p1 where
    p1: "node_edges n (sp_Depends (n_step n)) p = Inr p1" "plan_wf p1" "same_nodes p p1"
    "edges (p_DependantMap p1) = edges (p_DependantMap p) \<union>
       {(n_id (p_nodes p ! i), n_id n) | i d. d \<in> set (sp_Depends (n_step n))
          \<and> p_nodeByName p d = Some i}"
    by (simp del: not_None_eq) blast
  have "declared_edges p1 ns = declared_edges p ns" "missing_deps p1 ns = []"
    using p1(3) Cons.prems by (simp_all add: same_nodes_def declared_edges_def missing_deps_def)
  moreover have "set (map n_id ns) \<subseteq> set (plan_ids p1)"
    using p1(3) Cons.prems by (simp add: same_nodes_def)
  ultimately obtain p' where p': "nodes_edges ns p1 = Inr p'" "plan_wf p'" "same_nodes p1 p'"
    "edges (p_DependantMap p') = edges (p_DependantMap p1) \<union> declared_edges p ns"
    using Cons.IH [of p1] p1(2) by auto
  have "edges (p_DependantMap p') = edges (p_DependantMap p) \<union> declared_edges p (n # ns)"
    unfolding p'(4) p1(4) declared_edges_Cons by blast
  moreover have "nodes_edges (n # ns) p = Inr p'" using p1(1) p'(1) by simp
  moreover have "same_nodes p p'" using p1(3) p'(3) by (simp add: same_nodes_def)
  ultimately show ?case using p'(2) by blast
qed

lemmas nodes_edges_all = nodes_edges_ok [of p "p_nodes p" for p, simplified]

text \<open>\<open>buildEdges\<close> of a plan that has no edges yet, on all its branches.\<close>

lemma buildEdges_missing:
  "plan_wf p \<Longrightarrow> missing_deps p (p_nodes p) = d # rest \<Longrightarrow>
   buildEdges p = Inl (ErrMissingNode d)"
  by (simp add: buildEdges_def nodes_edges_missing)

lemma buildEdges_complete:
  assumes "plan_wf p" "p_DependantMap p = []" "missing_deps p (p_nodes p) = []"
  obtains p' where "plan_wf p'" "same_nodes p p'"
    "edges (p_DependantMap p') = declared_edges p (p_nodes p)"
    "buildEdges p =
       (if acyclic (declared_edges p (p_nodes p)) then Inr p' else Inl ErrCyclicPlan)"
proof -
  from nodes_edges_all [OF assms(1,3)] assms(2) obtain p' where
    p': "nodes_edges (p_nodes p) p = Inr p'" "plan_wf p'" "same_nodes p p'"
    "edges (p_DependantMap p') = declared_edges p (p_nodes p)" by auto
  moreover have "plan_isCyclic p' \<longleftrightarrow> \<not> acyclic (declared_edges p (p_nodes p))"
    unfolding plan_isCyclic_def using p' by (subst is_cyclic_iff) (auto simp: plan_wf_def)
  ultimately show ?thesis using that by (simp add: buildEdges_def)
qed

section \<open>The plan of a list of steps\<close>

text \<open>
  The specification, on the steps alone: the names that no step has, and the edges the
  \<open>depends\<close> lists declare between positions shifted by the first id.
\<close>

definition missing_names :: "step list \<Rightarrow> string list" where
  "missing_names steps =
     filter (\<lambda>d. d \<notin> sp_Name ` set steps) (concat (map sp_Depends steps))"

definition step_edges :: "nat \<Rightarrow> step list \<Rightarrow> (nat \<times> nat) set" where
  "step_edges nid steps =
     {(nid + i, nid + j) | i j d. j < length steps \<and> d \<in> set (sp_Depends (steps ! j))
        \<and> last_pos (map sp_Name steps) d = Some i}"

definition initial_plan :: "time \<Rightarrow> nat \<Rightarrow> step list \<Rightarrow> plan" where
  "initial_plan now nid steps =
     fst (init_nodes nid (map (\<lambda>s. NewNode s zero_node_state) steps) (empty_plan now))"

lemma fresh_new_nodes: "0 < nid \<Longrightarrow> fresh_nodes nid (map (\<lambda>s. NewNode s st) steps)"
  by (auto simp: fresh_nodes_def NewNode_def filter_empty_conv comp_def)

lemma init_nodes_snd:
  "snd (init_nodes nid (map (\<lambda>s. NewNode s st) steps) p) = nid + length steps"
  by (induction steps arbitrary: nid p) (simp_all add: NewNode_def Init_def)

lemma initial_plan_fields:
  "map n_step (p_nodes (initial_plan now nid steps)) = steps"
  "map n_state (p_nodes (initial_plan now nid steps)) = map (\<lambda>_. zero_node_state) steps"
  "plan_ids (initial_plan now nid steps) = [nid..<nid + length steps]"
  "plan_names (initial_plan now nid steps) = map sp_Name steps"
  "p_DependantMap (initial_plan now nid steps) = []"
  "p_startedAt (initial_plan now nid steps) = now"
  "p_finishedAt (initial_plan now nid steps) = zero_time"
proof -
  let ?ns = "assign_ids nid (map (\<lambda>s. NewNode s zero_node_state) steps)"
  have nodes: "p_nodes (initial_plan now nid steps) = ?ns"
    by (simp add: initial_plan_def init_nodes_nodes empty_plan_def)
  have steps: "map n_step ?ns = steps" by (simp add: NewNode_def comp_def)
  have "map Name ?ns = map sp_Name (map n_step ?ns)" by (simp only: map_map comp_def)
  with steps nodes show "plan_names (initial_plan now nid steps) = map sp_Name steps" by simp
  show "map n_step (p_nodes (initial_plan now nid steps)) = steps"
    using steps nodes by simp
  show "map n_state (p_nodes (initial_plan now nid steps)) = map (\<lambda>_. zero_node_state) steps"
    using nodes by (simp add: NewNode_def comp_def)
  show "plan_ids (initial_plan now nid steps) = [nid..<nid + length steps]"
    using nodes assign_ids_new by simp
  show "p_DependantMap (initial_plan now nid steps) = []"
    "p_startedAt (initial_plan now nid steps) = now"
    "p_finishedAt (initial_plan now nid steps) = zero_time"
    by (simp_all add: initial_plan_def init_nodes_nodes empty_plan_def)
qed

lemma initial_plan_nth:
  assumes "i < length steps"
  shows "n_id (p_nodes (initial_plan now nid steps) ! i) = nid + i"
    and "n_step (p_nodes (initial_plan now nid steps) ! i) = steps ! i"
proof -
  let ?ns = "p_nodes (initial_plan now nid steps)"
  have len: "length ?ns = length steps"
    using initial_plan_fields(1) [of now nid steps] by (metis length_map)
  have "map n_id ?ns ! i = nid + i" using assms by (simp add: initial_plan_fields)
  then show "n_id (?ns ! i) = nid + i" using assms len by simp
  have "map n_step ?ns ! i = steps ! i" by (simp add: initial_plan_fields)
  then show "n_step (?ns ! i) = steps ! i" using assms len by simp
qed

lemma initial_plan_wf: "0 < nid \<Longrightarrow> plan_wf (initial_plan now nid steps)"
  by (simp add: initial_plan_def init_nodes_empty_wf fresh_new_nodes)

lemma initial_plan_length: "length (p_nodes (initial_plan now nid steps)) = length steps"
  using initial_plan_fields(1) [of now nid steps] by (metis length_map)

lemma initial_plan_missing:
  assumes "0 < nid"
  shows "missing_deps (initial_plan now nid steps) (p_nodes (initial_plan now nid steps))
    = missing_names steps"
proof -
  let ?p = "initial_plan now nid steps"
  have "p_nodeByName ?p = last_pos (map sp_Name steps)"
    using initial_plan_wf [OF assms, of now steps]
    by (simp only: plan_wf_def initial_plan_fields)
  moreover have "map (sp_Depends \<circ> n_step) (p_nodes ?p) = map sp_Depends steps"
    by (simp only: map_map [symmetric] initial_plan_fields)
  ultimately show ?thesis by (simp add: missing_deps_def missing_names_def last_pos_None)
qed

lemma initial_plan_edges:
  assumes "0 < nid"
  shows "declared_edges (initial_plan now nid steps) (p_nodes (initial_plan now nid steps))
    = step_edges nid steps"
proof -
  let ?p = "initial_plan now nid steps"
  have byName: "p_nodeByName ?p = last_pos (map sp_Name steps)"
    using initial_plan_wf [OF assms, of now steps]
    by (simp only: plan_wf_def initial_plan_fields)
  have bound: "i < length steps" if "last_pos (map sp_Name steps) d = Some i" for d i
    using last_pos_SomeD [OF that] by simp
  have "declared_edges ?p (p_nodes ?p) =
      {(n_id (p_nodes ?p ! i), n_id (p_nodes ?p ! j)) | i j d. j < length steps
         \<and> d \<in> set (sp_Depends (n_step (p_nodes ?p ! j)))
         \<and> last_pos (map sp_Name steps) d = Some i}"
    unfolding declared_edges_def byName
    by (auto simp: in_set_conv_nth initial_plan_length)
  also have "\<dots> = step_edges nid steps"
    unfolding step_edges_def using bound by (force simp: initial_plan_nth)
  finally show ?thesis .
qed

text \<open>What a successful construction returns.\<close>

definition plan_of_steps :: "time \<Rightarrow> nat \<Rightarrow> step list \<Rightarrow> plan \<Rightarrow> bool" where
  "plan_of_steps now nid steps p \<longleftrightarrow> plan_wf p \<and> map n_step (p_nodes p) = steps
     \<and> map n_state (p_nodes p) = map (\<lambda>_. zero_node_state) steps
     \<and> plan_ids p = [nid..<nid + length steps]
     \<and> edges (p_DependantMap p) = step_edges nid steps
     \<and> p_startedAt p = now \<and> p_finishedAt p = zero_time"

lemma NewPlan_unfold:
  "NewPlan now nid steps = (buildEdges (initial_plan now nid steps), nid + length steps)"
  using init_nodes_snd [of nid zero_node_state steps "empty_plan now"]
  by (auto simp: NewPlan_def initial_plan_def split: prod.splits)

lemma NewPlan_cases:
  assumes "0 < nid"
  shows "missing_names steps = d # rest \<Longrightarrow>
      fst (NewPlan now nid steps) = Inl (ErrMissingNode d)"
    and "missing_names steps = [] \<Longrightarrow> \<not> acyclic (step_edges nid steps) \<Longrightarrow>
      fst (NewPlan now nid steps) = Inl ErrCyclicPlan"
    and "missing_names steps = [] \<Longrightarrow> acyclic (step_edges nid steps) \<Longrightarrow>
      \<exists>p. fst (NewPlan now nid steps) = Inr p \<and> plan_of_steps now nid steps p"
proof -
  let ?p = "initial_plan now nid steps"
  note wf = initial_plan_wf [OF assms, of now steps]
  note miss = initial_plan_missing [OF assms, of now steps]
  show "missing_names steps = d # rest \<Longrightarrow> fst (NewPlan now nid steps) = Inl (ErrMissingNode d)"
    using buildEdges_missing [OF wf] miss by (simp add: NewPlan_unfold)
  have "\<exists>p'. plan_of_steps now nid steps p' \<and> buildEdges ?p =
      (if acyclic (step_edges nid steps) then Inr p' else Inl ErrCyclicPlan)"
    if "missing_names steps = []"
  proof -
    from that miss have "missing_deps ?p (p_nodes ?p) = []" by simp
    from buildEdges_complete [OF wf initial_plan_fields(5) this] obtain p' where
      p': "plan_wf p'" "same_nodes ?p p'" "edges (p_DependantMap p') = step_edges nid steps"
      "buildEdges ?p = (if acyclic (step_edges nid steps) then Inr p' else Inl ErrCyclicPlan)"
      unfolding initial_plan_edges [OF assms] by blast
    then have "plan_of_steps now nid steps p'"
      by (simp add: plan_of_steps_def same_nodes_def initial_plan_fields)
    with p' show ?thesis by blast
  qed
  then show "missing_names steps = [] \<Longrightarrow> \<not> acyclic (step_edges nid steps) \<Longrightarrow>
      fst (NewPlan now nid steps) = Inl ErrCyclicPlan"
    and "missing_names steps = [] \<Longrightarrow> acyclic (step_edges nid steps) \<Longrightarrow>
      \<exists>p. fst (NewPlan now nid steps) = Inr p \<and> plan_of_steps now nid steps p"
    by (auto simp: NewPlan_unfold)
qed

lemma NodeStates_fold:
  "fold (note_status \<circ> Status) ns s =
     \<lparr> HasRunning = HasRunning s \<or> (\<exists>n \<in> set ns. Status n = NodeRunning),
       HasRetrying = HasRetrying s \<or> (\<exists>n \<in> set ns. Status n = NodeRetrying),
       HasWaiting = HasWaiting s \<or> (\<exists>n \<in> set ns. Status n = NodeWaiting),
       HasNotStarted = HasNotStarted s \<or> (\<exists>n \<in> set ns. Status n = NodeNotStarted),
       HasRejected = HasRejected s \<or> (\<exists>n \<in> set ns. Status n = NodeRejected) \<rparr>"
proof (induction ns arbitrary: s)
  case (Cons n ns)
  show ?case by (cases "Status n") (simp_all add: Cons.IH [unfolded comp_def] comp_def)
qed simp

lemma NodeStates_iff:
  "HasRunning (NodeStates p) \<longleftrightarrow> (\<exists>n \<in> set (p_nodes p). Status n = NodeRunning)"
  "HasRetrying (NodeStates p) \<longleftrightarrow> (\<exists>n \<in> set (p_nodes p). Status n = NodeRetrying)"
  "HasWaiting (NodeStates p) \<longleftrightarrow> (\<exists>n \<in> set (p_nodes p). Status n = NodeWaiting)"
  "HasNotStarted (NodeStates p) \<longleftrightarrow> (\<exists>n \<in> set (p_nodes p). Status n = NodeNotStarted)"
  "HasRejected (NodeStates p) \<longleftrightarrow> (\<exists>n \<in> set (p_nodes p). Status n = NodeRejected)"
  by (simp_all add: NodeStates_def NodeStates_fold)

section \<open>Properties\<close>

text \<open>
  C1: \<open>NewPlan\<close> is correct on every branch. It reports the first dependency, in step order,
  that no step has; otherwise it reports a cycle exactly when the declared dependencies have
  one; otherwise it returns a well-formed plan with one fresh, not-started node per step in
  order, consecutive ids, and exactly the declared edges.
\<close>

theorem NewPlan_correct:
  assumes "0 < nid"
  shows "case fst (NewPlan now nid steps) of
      Inl (ErrMissingNode d) \<Rightarrow> \<exists>rest. missing_names steps = d # rest
    | Inl ErrCyclicPlan \<Rightarrow> missing_names steps = [] \<and> \<not> acyclic (step_edges nid steps)
    | Inl NilNodePanic \<Rightarrow> False
    | Inr p \<Rightarrow> missing_names steps = [] \<and> acyclic (step_edges nid steps)
        \<and> plan_of_steps now nid steps p"
proof (cases "missing_names steps")
  case (Cons d rest)
  then show ?thesis using NewPlan_cases(1) [OF assms] by simp
next
  case Nil
  then show ?thesis
    using NewPlan_cases(2,3) [OF assms Nil, of now] by (cases "acyclic (step_edges nid steps)") auto
qed

theorem NewPlan_correct_witness:
  "0 < (1::nat) \<and>
   (case fst (NewPlan 5 1 [zero_step\<lparr>sp_Name := ''a'', sp_Depends := [''b'']\<rparr>]) of
      Inl (ErrMissingNode d) \<Rightarrow> d = ''b''
    | Inl ErrCyclicPlan \<Rightarrow> False | Inl NilNodePanic \<Rightarrow> False | Inr p \<Rightarrow> False)"
  using NewPlan_correct [of 1 "[zero_step\<lparr>sp_Name := ''a'', sp_Depends := [''b'']\<rparr>]" 5]
  by (auto simp: missing_names_def zero_step_def split: sum.splits plan_error.splits)

text \<open>
  C16: the cycle check. On the graph of a well-formed plan, Kahn's algorithm as the source runs
  it answers exactly whether some node depends on itself through the dependency edges.
\<close>

theorem isCyclic_correct:
  assumes "plan_wf p"
  shows "plan_isCyclic p \<longleftrightarrow> (\<exists>u. (u, u) \<in> (edges (p_DependantMap p))\<^sup>+)"
  unfolding plan_isCyclic_def using assms
  by (subst is_cyclic_iff) (auto simp: plan_wf_def acyclic_def)

theorem isCyclic_correct_witness:
  "plan_isCyclic (addEdge 1 1 (addNode ((NewNode zero_step zero_node_state)\<lparr>n_id := 1\<rparr>) (empty_plan 0)))"
proof -
  let ?p = "addNode ((NewNode zero_step zero_node_state)\<lparr>n_id := 1\<rparr>) (empty_plan 0)"
  have "plan_wf ?p" by (rule plan_wf_addNode [OF plan_wf_empty]) (simp add: empty_plan_def)
  then have "plan_wf (addEdge 1 1 ?p)" by (rule plan_wf_addEdge) simp_all
  from isCyclic_correct [OF this] show ?thesis by auto
qed

text \<open>
  The run status flags. \<open>CheckFinished\<close>, which ends the event loop, holds exactly when
  \<open>NodeStates\<close> reports no running, no retrying and no not-started node, and it excludes
  \<open>HasActiveNodes\<close>, on which \<open>Signal\<close> waits.
\<close>

theorem CheckFinished_states:
  "(CheckFinished p \<longleftrightarrow> \<not> HasRunning (NodeStates p) \<and> \<not> HasRetrying (NodeStates p)
      \<and> \<not> HasNotStarted (NodeStates p))
   \<and> (hasActiveNodesLocked p \<longleftrightarrow> HasRunning (NodeStates p) \<or> HasRetrying (NodeStates p))
   \<and> (isRunningLocked p \<longleftrightarrow> hasActiveNodesLocked p
      \<or> HasNotStarted (NodeStates p) \<and> \<not> plan_IsFinished p)"
  by (auto simp: CheckFinished_def hasActiveNodesLocked_def isRunningLocked_def NodeStates_iff
      plan_IsFinished_def list_ex_iff)

end
