(* ===== verification/Plan_Retry.thy ===== *)
theory Plan_Retry
  imports Plan_Graph
begin

text \<open>
  Package \<open>runtime\<close>, file \<open>plan.go\<close>: the plans of a retried run. \<open>CreateRetryPlan\<close> rebinds
  the recorded nodes to the steps of the DAG and clears what has to run again,
  \<open>CreateStepRetryPlan\<close> clears one step. The loop of \<open>setupRetry\<close> ends only when its
  frontier is empty, so it is a partial function; the lemmas show that it returns on every plan
  that the constructors build and clears exactly the nodes reachable from a failed one.
\<close>

section \<open>Retry plans\<close>

text \<open>\<open>stepsByName\<close>: a later step with the same name replaces the earlier one.\<close>

definition stepsByName :: "step list \<Rightarrow> string \<rightharpoonup> step" where
  "stepsByName steps = foldl (\<lambda>m s. m(sp_Name s \<mapsto> s)) Map.empty steps"

text \<open>\<open>rebindRetryNodesToSteps\<close> skips nil pointers; the constructors then panic on them.\<close>

fun rebindRetryNodesToSteps ::
  "node option list \<Rightarrow> (string \<rightharpoonup> step) \<Rightarrow> plan_error + node option list" where
  "rebindRetryNodesToSteps [] steps = Inr []"
| "rebindRetryNodesToSteps (None # ns) steps =
     map_sum id ((#) None) (rebindRetryNodesToSteps ns steps)"
| "rebindRetryNodesToSteps (Some n # ns) steps =
     (case steps (Name n) of
        None \<Rightarrow> Inl (ErrMissingNode (Name n))
      | Some s \<Rightarrow> map_sum id ((#) (Some (SetStep s n))) (rebindRetryNodesToSteps ns steps))"

definition retry_base ::
  "time \<Rightarrow> nat \<Rightarrow> step list \<Rightarrow> node option list \<Rightarrow> (plan_error + plan) \<times> nat" where
  "retry_base now nid dag_steps nodes =
     (case rebindRetryNodesToSteps nodes (stepsByName dag_steps) of
        Inl e \<Rightarrow> (Inl e, nid)
      | Inr ns \<Rightarrow>
          if None \<in> set ns then (Inl NilNodePanic, nid)
          else NewPlanFromNodes now nid (map the ns))"

definition needs_retry :: "node_status \<Rightarrow> bool" where
  "needs_retry s \<longleftrightarrow>
     s = NodeFailed \<or> s = NodeRetrying \<or> s = NodeAborted \<or> s = NodeRejected"

text \<open>
  One level of \<open>setupRetry\<close>: the nodes of the frontier in order, and the dependents that form
  the next frontier.
\<close>

fun retry_level ::
  "(string \<rightharpoonup> step) \<Rightarrow> (nat \<Rightarrow> node_status) \<Rightarrow> nat list \<Rightarrow> plan \<Rightarrow> (nat \<Rightarrow> bool) \<Rightarrow> nat list \<Rightarrow>
   plan_error + plan \<times> (nat \<Rightarrow> bool) \<times> nat list" where
  "retry_level steps st [] p toRetry next = Inr (p, toRetry, next)"
| "retry_level steps st (u # us) p toRetry next =
     (if toRetry u \<or> needs_retry (st u)
      then case p_nodeByID p u of
             None \<Rightarrow> Inl NilNodePanic
           | Some i \<Rightarrow>
               (case steps (Name (p_nodes p ! i)) of
                  None \<Rightarrow> Inl (ErrMissingNode (Name (p_nodes p ! i)))
                | Some s \<Rightarrow>
                    retry_level steps st us (update_node i (ClearState s) p)
                      (\<lambda>v. v = u \<or> v \<in> set (adj (p_DependantMap p) u) \<or> toRetry v)
                      (next @ adj (p_DependantMap p) u))
      else retry_level steps st us p toRetry (next @ adj (p_DependantMap p) u))"

partial_function (option) retry_loop ::
  "(string \<rightharpoonup> step) \<Rightarrow> (nat \<Rightarrow> node_status) \<Rightarrow> nat list \<Rightarrow> plan \<Rightarrow> (nat \<Rightarrow> bool) \<Rightarrow>
   (plan_error + plan) option" where
  [code]: "retry_loop steps st frontier p toRetry =
     (if frontier = [] then Some (Inr p)
      else case retry_level steps st frontier p toRetry [] of
        Inl e \<Rightarrow> Some (Inl e)
      | Inr (p', toRetry', next) \<Rightarrow> retry_loop steps st next p' toRetry')"

definition node_status_map :: "plan \<Rightarrow> nat \<Rightarrow> node_status" where
  "node_status_map p u =
     (case map_of (rev (map (\<lambda>n. (n_id n, Status n)) (p_nodes p))) u of
        None \<Rightarrow> NodeNotStarted
      | Some s \<Rightarrow> s)"

definition setupRetry :: "(string \<rightharpoonup> step) \<Rightarrow> plan \<Rightarrow> (plan_error + plan) option" where
  "setupRetry steps p =
     retry_loop steps (node_status_map p)
       (filter (\<lambda>u. adj (p_DependencyMap p) u = []) (plan_ids p)) p (\<lambda>_. False)"

definition CreateRetryPlan ::
  "time \<Rightarrow> nat \<Rightarrow> step list \<Rightarrow> node option list \<Rightarrow> ((plan_error + plan) \<times> nat) option" where
  "CreateRetryPlan now nid dag_steps nodes =
     (case retry_base now nid dag_steps nodes of
        (Inl e, nid') \<Rightarrow> Some (Inl e, nid')
      | (Inr p, nid') \<Rightarrow> map_option (\<lambda>r. (r, nid')) (setupRetry (stepsByName dag_steps) p))"

definition CreateStepRetryPlan ::
  "time \<Rightarrow> nat \<Rightarrow> step list \<Rightarrow> node option list \<Rightarrow> string \<Rightarrow> (plan_error + plan) \<times> nat" where
  "CreateStepRetryPlan now nid dag_steps nodes stepName =
     (case retry_base now nid dag_steps nodes of
        (Inl e, nid') \<Rightarrow> (Inl e, nid')
      | (Inr p, nid') \<Rightarrow>
          (case p_nodeByName p stepName of
             None \<Rightarrow> (Inl (ErrMissingNode stepName), nid')
           | Some i \<Rightarrow>
               let target = p_nodes p ! i;
                   preserveRetryBudget = (Status target = NodeRetrying)
               in case stepsByName dag_steps (Name target) of
                    None \<Rightarrow> (Inl (ErrMissingNode (Name target)), nid')
                  | Some s \<Rightarrow>
                      (Inr (update_node i (\<lambda>n.
                         let n' = SetRetryCount (ns_RetryCount (n_state n)) (ClearState s n)
                         in if preserveRetryBudget then n'
                            else n'\<lparr>n_retryPolicy := zero_retry_policy\<rparr>) p), nid')))"

section \<open>What setupRetry clears\<close>

definition plan_edges :: "plan \<Rightarrow> (nat \<times> nat) set" where
  "plan_edges p = edges (p_DependantMap p)"

definition retry_roots :: "plan \<Rightarrow> nat set" where
  "retry_roots p = {n_id n | n. n \<in> set (p_nodes p) \<and> needs_retry (Status n)}"

text \<open>The nodes reachable from a node that failed, was aborted or rejected, or awaits a retry.\<close>

definition retry_set :: "plan \<Rightarrow> nat set" where
  "retry_set p = (plan_edges p)\<^sup>* `` retry_roots p"

definition cleared :: "(string \<rightharpoonup> step) \<Rightarrow> nat set \<Rightarrow> plan \<Rightarrow> plan" where
  "cleared steps C p = p\<lparr>p_nodes := map (\<lambda>n. if n_id n \<in> C
     then ClearState (the (steps (Name n))) n else n) (p_nodes p)\<rparr>"

definition steps_cover :: "(string \<rightharpoonup> step) \<Rightarrow> plan \<Rightarrow> bool" where
  "steps_cover steps p \<longleftrightarrow>
     (\<forall>n \<in> set (p_nodes p). \<exists>s. steps (Name n) = Some s \<and> sp_Name s = Name n)"

lemma cleared_frame [simp]:
  "p_nodeByID (cleared steps C p) = p_nodeByID p"
  "p_DependantMap (cleared steps C p) = p_DependantMap p"
  "p_DependencyMap (cleared steps C p) = p_DependencyMap p"
  "length (p_nodes (cleared steps C p)) = length (p_nodes p)"
  by (simp_all add: cleared_def)

lemma cleared_empty [simp]: "cleared steps {} p = p"
  by (simp add: cleared_def)

lemma cleared_Name:
  assumes "steps_cover steps p" "i < length (p_nodes p)"
  shows "Name (p_nodes (cleared steps C p) ! i) = Name (p_nodes p ! i)"
proof -
  have "p_nodes p ! i \<in> set (p_nodes p)" using assms(2) by simp
  then obtain s where "steps (Name (p_nodes p ! i)) = Some s" "sp_Name s = Name (p_nodes p ! i)"
    using assms(1) by (auto simp: steps_cover_def)
  with assms(2) show ?thesis by (simp add: cleared_def ClearState_def)
qed

lemma nodeByID_pos:
  assumes "plan_wf p" "u \<in> set (plan_ids p)"
  obtains i where "p_nodeByID p u = Some i" "i < length (p_nodes p)" "n_id (p_nodes p ! i) = u"
proof -
  obtain i where i: "last_pos (plan_ids p) u = Some i"
    using assms(2) last_pos_None [of "plan_ids p" u] by (cases "last_pos (plan_ids p) u") auto
  then have "i < length (p_nodes p)" "n_id (p_nodes p ! i) = u"
    using last_pos_SomeD [OF i] by auto
  with i that show ?thesis using assms(1) by (simp add: plan_wf_def)
qed

lemma cleared_insert:
  assumes wf: "plan_wf p" and i: "i < length (p_nodes p)" "n_id (p_nodes p ! i) = u"
    and s: "steps (Name (p_nodes p ! i)) = Some s"
  shows "update_node i (ClearState s) (cleared steps C p) = cleared steps (insert u C) p"
proof -
  have ne: "n_id (p_nodes p ! j) \<noteq> u" if "j < length (p_nodes p)" "j \<noteq> i" for j
    using distinct_map_nth_eq [of n_id "p_nodes p" j i] wf i that by (auto simp: plan_wf_def)
  have "p_nodes (update_node i (ClearState s) (cleared steps C p)) ! j =
      p_nodes (cleared steps (insert u C) p) ! j" if "j < length (p_nodes p)" for j
    using that ne [OF that] i s
    by (cases "j = i") (simp_all add: update_node_def cleared_def ClearState_def)
  then have "p_nodes (update_node i (ClearState s) (cleared steps C p)) =
      p_nodes (cleared steps (insert u C) p)"
    by (intro nth_equalityI) (simp_all add: update_node_def cleared_def)
  then show ?thesis by (simp add: update_node_def cleared_def)
qed

definition flagged :: "(nat \<Rightarrow> node_status) \<Rightarrow> (nat \<Rightarrow> bool) \<Rightarrow> nat \<Rightarrow> bool" where
  "flagged st tr u \<longleftrightarrow> tr u \<or> needs_retry (st u)"

text \<open>
  One level visits every node of the frontier. Afterwards the flagged ones are cleared, and the
  dependents of every newly cleared node are flagged and in the next frontier.
\<close>

definition level_post ::
  "plan \<Rightarrow> (nat \<Rightarrow> node_status) \<Rightarrow> nat set \<Rightarrow> nat list \<Rightarrow> nat set \<Rightarrow> (nat \<Rightarrow> bool) \<Rightarrow>
   nat set \<Rightarrow> (nat \<Rightarrow> bool) \<Rightarrow> bool" where
  "level_post p st R us C tr C' tr' \<longleftrightarrow> C \<subseteq> C' \<and> C' \<subseteq> R \<and> {v. tr' v} \<subseteq> R
     \<and> (\<forall>v. tr v \<longrightarrow> tr' v) \<and> (\<forall>u \<in> set us. flagged st tr u \<longrightarrow> u \<in> C') \<and> C' - C \<subseteq> set us
     \<and> (\<forall>u \<in> C' - C. \<forall>v \<in> set (adj (p_DependantMap p) u). tr' v)"

lemma level_post_skip:
  "level_post p st R us C tr C' tr' \<Longrightarrow> \<not> flagged st tr u \<Longrightarrow>
   level_post p st R (u # us) C tr C' tr'"
  by (auto simp: level_post_def)

lemma level_post_clear:
  assumes "level_post p st R us (insert u C)
    (\<lambda>v. v = u \<or> v \<in> set (adj (p_DependantMap p) u) \<or> tr v) C' tr'"
  shows "level_post p st R (u # us) C tr C' tr'"
proof -
  have "w \<in> C'" if "w \<in> set (u # us)" "flagged st tr w" for w
    using assms that by (auto simp: level_post_def flagged_def)
  moreover have "tr' v" if "w \<in> C' - C" "v \<in> set (adj (p_DependantMap p) w)" for w v
    using assms that by (cases "w = u") (auto simp: level_post_def)
  ultimately show ?thesis using assms unfolding level_post_def by auto
qed

lemma retry_level_spec:
  assumes wf: "plan_wf p" and cover: "steps_cover steps p"
    and "set us \<subseteq> set (plan_ids p)"
    and roots: "\<forall>u. needs_retry (st u) \<longrightarrow> u \<in> R"
    and closed: "\<forall>u v. u \<in> R \<longrightarrow> (u, v) \<in> plan_edges p \<longrightarrow> v \<in> R"
    and "C \<subseteq> R" and "{v. tr v} \<subseteq> R"
  shows "\<exists>C' tr'. retry_level steps st us (cleared steps C p) tr nx =
        Inr (cleared steps C' p, tr', nx @ concat (map (adj (p_DependantMap p)) us))
      \<and> level_post p st R us C tr C' tr'"
  using assms(3,6,7)
proof (induction us arbitrary: C tr nx)
  case Nil
  then show ?case by (auto simp: level_post_def)
next
  case (Cons u us)
  let ?A = "adj (p_DependantMap p)"
  have us: "set us \<subseteq> set (plan_ids p)" using Cons.prems by simp
  show ?case
  proof (cases "flagged st tr u")
    case False
    then have step: "retry_level steps st (u # us) (cleared steps C p) tr nx =
        retry_level steps st us (cleared steps C p) tr (nx @ ?A u)"
      by (simp add: flagged_def)
    from Cons.IH [OF us Cons.prems(2,3), of "nx @ ?A u"] level_post_skip [OF _ False]
    show ?thesis unfolding step by (simp only: list.map concat.simps append_assoc) blast
  next
    case True
    then have uR: "u \<in> R" using Cons.prems(3) roots by (auto simp: flagged_def)
    obtain i where i: "p_nodeByID p u = Some i" "i < length (p_nodes p)" "n_id (p_nodes p ! i) = u"
      using nodeByID_pos [OF wf] Cons.prems(1) by auto
    obtain s where s: "steps (Name (p_nodes p ! i)) = Some s"
      using cover nth_mem [OF i(2)] unfolding steps_cover_def by blast
    let ?C = "insert u C" and ?tr = "\<lambda>v. v = u \<or> v \<in> set (?A u) \<or> tr v"
    have step: "retry_level steps st (u # us) (cleared steps C p) tr nx =
        retry_level steps st us (cleared steps ?C p) ?tr (nx @ ?A u)"
      using True i(1) s cleared_Name [OF cover i(2), of C]
        cleared_insert [of p i u steps s C, OF wf i(2,3) s]
      by (simp add: flagged_def)
    have C: "?C \<subseteq> R" using uR Cons.prems(2) by simp
    have tr: "{v. ?tr v} \<subseteq> R"
      using uR Cons.prems(3) closed by (auto simp: plan_edges_def edges_def)
    from Cons.IH [OF us C tr, of "nx @ ?A u"] level_post_clear
    show ?thesis unfolding step by (simp only: list.map concat.simps append_assoc) blast
  qed
qed

definition retry_inv ::
  "plan \<Rightarrow> nat set \<Rightarrow> (nat \<Rightarrow> bool) \<Rightarrow> nat list \<Rightarrow> bool" where
  "retry_inv p C tr fr \<longleftrightarrow> C \<subseteq> retry_set p \<and> {v. tr v} \<subseteq> retry_set p
     \<and> set fr \<subseteq> set (plan_ids p)
     \<and> (\<forall>u \<in> C. \<forall>v. (u, v) \<in> plan_edges p \<longrightarrow> v \<in> C \<or> v \<in> set fr \<and> tr v)
     \<and> (\<forall>s \<in> retry_roots p. s \<in> C \<or> s \<in> (plan_edges p)\<^sup>* `` set fr)"

lemma needs_retry_status_map:
  assumes "plan_wf p"
  shows "needs_retry (node_status_map p u) \<longleftrightarrow> u \<in> retry_roots p"
proof -
  let ?xs = "map (\<lambda>n. (n_id n, Status n)) (p_nodes p)"
  have "distinct (map fst (rev ?xs))"
    using assms by (simp add: plan_wf_def rev_map [symmetric] comp_def)
  then have key: "map_of (rev ?xs) u = Some s \<longleftrightarrow> (u, s) \<in> set ?xs" for s
    by (simp only: map_of_eq_Some_iff set_rev)
  have root: "u \<in> retry_roots p \<longleftrightarrow> (\<exists>s. (u, s) \<in> set ?xs \<and> needs_retry s)"
    by (auto simp: retry_roots_def)
  show ?thesis
  proof (cases "map_of (rev ?xs) u")
    case None
    then have "(u, s) \<notin> set ?xs" for s using key [of s] by simp
    with None root show ?thesis by (simp add: node_status_map_def needs_retry_def)
  next
    case (Some s)
    then have "(u, t) \<in> set ?xs \<longleftrightarrow> t = s" for t using key [of t] by auto
    with Some root show ?thesis by (simp add: node_status_map_def)
  qed
qed

lemma retry_set_closed:
  "u \<in> retry_set p \<Longrightarrow> (u, v) \<in> plan_edges p \<Longrightarrow> v \<in> retry_set p"
  by (auto simp: retry_set_def intro: rtrancl_into_rtrancl)

lemma retry_inv_done:
  assumes "retry_inv p C tr []"
  shows "C = retry_set p"
proof
  show "C \<subseteq> retry_set p" using assms by (simp add: retry_inv_def)
  show "retry_set p \<subseteq> C"
  proof
    fix v assume "v \<in> retry_set p"
    then obtain s where s: "s \<in> retry_roots p" "(s, v) \<in> (plan_edges p)\<^sup>*"
      by (auto simp: retry_set_def)
    from s(2) show "v \<in> C"
    proof induction
      case base
      with s(1) assms show ?case by (auto simp: retry_inv_def)
    next
      case (step x y)
      with assms show ?case by (auto simp: retry_inv_def)
    qed
  qed
qed

lemma retry_inv_step:
  assumes wf: "plan_wf p" and cover: "steps_cover steps p" and inv: "retry_inv p C tr fr"
  obtains C' tr' where "retry_level steps (node_status_map p) fr (cleared steps C p) tr [] =
      Inr (cleared steps C' p, tr', concat (map (adj (p_DependantMap p)) fr))"
    "retry_inv p C' tr' (concat (map (adj (p_DependantMap p)) fr))"
proof -
  let ?st = "node_status_map p" and ?A = "adj (p_DependantMap p)"
  let ?nx = "concat (map ?A fr)"
  have roots: "\<forall>u. needs_retry (?st u) \<longrightarrow> u \<in> retry_set p"
    by (auto simp: needs_retry_status_map [OF wf] retry_set_def)
  have closed: "\<forall>u v. u \<in> retry_set p \<longrightarrow> (u, v) \<in> plan_edges p \<longrightarrow> v \<in> retry_set p"
    using retry_set_closed by blast
  have fr: "set fr \<subseteq> set (plan_ids p)" and CR: "C \<subseteq> retry_set p" "{v. tr v} \<subseteq> retry_set p"
    using inv by (auto simp: retry_inv_def)
  from retry_level_spec [OF wf cover fr roots closed CR, where nx = "[]"]
  obtain C' tr' where
    lvl: "retry_level steps ?st fr (cleared steps C p) tr [] = Inr (cleared steps C' p, tr', ?nx)"
    and mono: "C \<subseteq> C'" "C' \<subseteq> retry_set p" "{v. tr' v} \<subseteq> retry_set p"
    and vis: "\<forall>u \<in> set fr. flagged ?st tr u \<longrightarrow> u \<in> C'" "C' - C \<subseteq> set fr"
    and kids: "\<forall>u \<in> C' - C. \<forall>v \<in> set (?A u). tr' v"
    unfolding level_post_def append_Nil by blast
  have "set ?nx \<subseteq> set (plan_ids p)"
    using wf by (auto simp: plan_wf_def mirrored_def edges_def)
  moreover have "v \<in> C' \<or> v \<in> set ?nx \<and> tr' v" if "u \<in> C'" "(u, v) \<in> plan_edges p" for u v
  proof (cases "u \<in> C")
    case True
    then have "v \<in> C \<or> v \<in> set fr \<and> tr v" using inv that by (auto simp: retry_inv_def)
    then show ?thesis using mono(1) vis(1) by (auto simp: flagged_def)
  next
    case False
    then have "u \<in> set fr" "v \<in> set (?A u)"
      using that vis(2) by (auto simp: plan_edges_def edges_def)
    with False that(1) kids show ?thesis by auto
  qed
  moreover have "s \<in> C' \<or> s \<in> (plan_edges p)\<^sup>* `` set ?nx" if "s \<in> retry_roots p" for s
  proof -
    consider "s \<in> C" | f where "f \<in> set fr" "(f, s) \<in> (plan_edges p)\<^sup>*"
      using inv \<open>s \<in> retry_roots p\<close> by (auto simp: retry_inv_def)
    then show ?thesis
    proof cases
      case 2
      from 2(2) show ?thesis
      proof (cases rule: converse_rtranclE)
        case base
        with 2(1) vis(1) that show ?thesis
          by (auto simp: flagged_def needs_retry_status_map [OF wf])
      next
        case (step y)
        with 2(1) have "y \<in> set ?nx" by (auto simp: plan_edges_def edges_def)
        with step show ?thesis by blast
      qed
    qed (use mono in blast)
  qed
  ultimately have "retry_inv p C' tr' ?nx" using mono by (simp add: retry_inv_def)
  with lvl that show ?thesis by blast
qed

lemma retry_loop_spec:
  assumes wf: "plan_wf p" and cover: "steps_cover steps p"
    and topo: "topo_rev (plan_edges p) L" "set L = set (plan_ids p)"
    and "retry_inv p C tr fr" and "\<forall>u \<in> set fr. k \<le> topo_rank L u"
  shows "retry_loop steps (node_status_map p) fr (cleared steps C p) tr =
    Some (Inr (cleared steps (retry_set p) p))"
  using assms(5,6)
proof (induction "Suc (length L) - k" arbitrary: C tr fr k rule: less_induct)
  case less
  show ?case
  proof (cases "fr = []")
    case True
    then show ?thesis using retry_inv_done [of p C tr] less.prems by (subst retry_loop.simps) simp
  next
    case False
    then have k: "k \<le> length L"
      using less.prems(2) topo_rank_le [of L] by (meson le_trans list.set_sel(1))
    let ?nx = "concat (map (adj (p_DependantMap p)) fr)"
    obtain C' tr' where lvl: "retry_level steps (node_status_map p) fr (cleared steps C p) tr [] =
        Inr (cleared steps C' p, tr', ?nx)" and inv: "retry_inv p C' tr' ?nx"
      using retry_inv_step [OF wf cover less.prems(1)] .
    have "Suc k \<le> topo_rank L v" if "v \<in> set ?nx" for v
    proof -
      from that obtain u where u: "u \<in> set fr" "(u, v) \<in> plan_edges p"
        by (auto simp: plan_edges_def edges_def)
      have "v \<in> set L" using that inv topo(2) by (auto simp: retry_inv_def)
      then show ?thesis
        using topo_rank_less [OF topo(1) _ u(2)] less.prems(2) u(1) by fastforce
    qed
    then have "retry_loop steps (node_status_map p) ?nx (cleared steps C' p) tr' =
        Some (Inr (cleared steps (retry_set p) p))"
      using k inv by (intro less.hyps [of "Suc k"]) auto
    with False lvl show ?thesis by (subst retry_loop.simps) simp
  qed
qed

lemma sources_cover:
  assumes wf: "plan_wf p" and topo: "topo_rev (plan_edges p) L" "set L = set (plan_ids p)"
    and "u \<in> set (plan_ids p)"
  shows "u \<in> (plan_edges p)\<^sup>* `` set (filter (\<lambda>u. adj (p_DependencyMap p) u = []) (plan_ids p))"
  using assms(4)
proof (induction "topo_rank L u" arbitrary: u rule: less_induct)
  case less
  show ?case
  proof (cases "adj (p_DependencyMap p) u = []")
    case True
    with less.prems show ?thesis by auto
  next
    case False
    then have "hd (adj (p_DependencyMap p) u) \<in> set (adj (p_DependencyMap p) u)" by simp
    then obtain w where w: "(w, u) \<in> plan_edges p"
      using wf mirrored_edge unfolding plan_wf_def plan_edges_def by blast
    then have "w \<in> set (plan_ids p)"
      using wf by (auto simp: plan_wf_def mirrored_def plan_edges_def)
    moreover have "topo_rank L w < topo_rank L u"
      using topo_rank_less [OF topo(1) _ w] topo(2) less.prems by simp
    ultimately show ?thesis using less.hyps w by (meson Image_iff rtrancl.rtrancl_into_rtrancl)
  qed
qed

lemma setupRetry_spec:
  assumes wf: "plan_wf p" and "\<not> plan_isCyclic p" and cover: "steps_cover steps p"
  shows "setupRetry steps p = Some (Inr (cleared steps (retry_set p) p))"
proof -
  let ?fr = "filter (\<lambda>u. adj (p_DependencyMap p) u = []) (plan_ids p)"
  obtain L where topo: "topo_rev (plan_edges p) L" "set L = set (plan_ids p)"
    unfolding plan_edges_def
    by (rule is_cyclic_topo [of "plan_ids p" "p_DependencyMap p" "p_DependantMap p"])
      (use assms(1,2) in \<open>simp_all add: plan_wf_def plan_isCyclic_def\<close>)
  have "retry_roots p \<subseteq> (plan_edges p)\<^sup>* `` set ?fr"
    using sources_cover [OF wf topo] by (auto simp: retry_roots_def)
  then have "retry_inv p {} (\<lambda>_. False) ?fr" by (auto simp: retry_inv_def)
  from retry_loop_spec [OF wf cover topo this, of 0] show ?thesis
    by (simp add: setupRetry_def)
qed

section \<open>The constructors\<close>

lemma stepsByName_Name: "stepsByName steps k = Some s \<Longrightarrow> sp_Name s = k \<and> s \<in> set steps"
proof -
  have "foldl (\<lambda>m s. m(sp_Name s \<mapsto> s)) m xs k = Some s \<Longrightarrow>
      m k = Some s \<or> sp_Name s = k \<and> s \<in> set xs" for m xs
    by (induction xs arbitrary: m) (fastforce split: if_splits)+
  then show "stepsByName steps k = Some s \<Longrightarrow> sp_Name s = k \<and> s \<in> set steps"
    by (fastforce simp: stepsByName_def)
qed

lemma rebind_Inr:
  "rebindRetryNodesToSteps nodes steps = Inr ns \<Longrightarrow>
   ns = map (map_option (\<lambda>n. SetStep (the (steps (Name n))) n)) nodes
   \<and> (\<forall>n. Some n \<in> set nodes \<longrightarrow> steps (Name n) \<noteq> None)"
proof (induction nodes steps arbitrary: ns rule: rebindRetryNodesToSteps.induct)
  case (2 nodes steps)
  then show ?case by (cases "rebindRetryNodesToSteps nodes steps") auto
next
  case (3 n nodes steps)
  then show ?case
    by (cases "rebindRetryNodesToSteps nodes steps") (auto split: option.splits)
qed simp

lemma rebind_Inl:
  "rebindRetryNodesToSteps nodes steps = Inl e \<longleftrightarrow>
   (\<exists>k rest. filter (\<lambda>k. steps k = None) (map Name (map the (filter (\<lambda>n. n \<noteq> None) nodes)))
      = k # rest \<and> e = ErrMissingNode k)"
proof (induction nodes steps rule: rebindRetryNodesToSteps.induct)
  case (2 nodes steps)
  then show ?case by (cases "rebindRetryNodesToSteps nodes steps") auto
next
  case (3 n nodes steps)
  then show ?case
    by (cases "rebindRetryNodesToSteps nodes steps") (auto split: option.splits)
qed simp

lemma NewPlanFromNodes_wf:
  assumes "fresh_nodes nid ns" "fst (NewPlanFromNodes now nid ns) = Inr p"
  shows "plan_wf p \<and> \<not> plan_isCyclic p \<and> p_nodes p = assign_ids nid ns
    \<and> plan_edges p = declared_edges p (p_nodes p)"
proof -
  let ?p = "fst (init_nodes nid ns (empty_plan now))"
  have b: "buildEdges ?p = Inr p"
    using assms(2) by (simp add: NewPlanFromNodes_def split: prod.splits)
  have wf: "plan_wf ?p" using assms(1) by (rule init_nodes_empty_wf)
  have nodes: "p_nodes ?p = assign_ids nid ns" "p_DependantMap ?p = []"
    by (simp_all add: init_nodes_nodes empty_plan_def)
  have complete: "missing_deps ?p (p_nodes ?p) = []"
    using buildEdges_missing [OF wf] b by (cases "missing_deps ?p (p_nodes ?p)") auto
  from buildEdges_complete [OF wf nodes(2) complete] obtain p' where
    p': "plan_wf p'" "same_nodes ?p p'" "edges (p_DependantMap p') = declared_edges ?p (p_nodes ?p)"
    "buildEdges ?p =
       (if acyclic (declared_edges ?p (p_nodes ?p)) then Inr p' else Inl ErrCyclicPlan)" .
  with b have [simp]: "p' = p" and acyc: "acyclic (edges (p_DependantMap p))"
    by (auto split: if_splits)
  have "\<not> plan_isCyclic p"
    unfolding plan_isCyclic_def using p'(1) acyc by (subst is_cyclic_iff) (auto simp: plan_wf_def)
  moreover have "plan_edges p = declared_edges p (p_nodes p)"
    using p'(2,3) by (simp add: plan_edges_def declared_edges_def same_nodes_def)
  ultimately show ?thesis using p'(1,2) nodes by (simp add: same_nodes_def)
qed

lemma fresh_nodes_cong:
  assumes eq: "map n_id ns = map n_id ms"
  shows "fresh_nodes nid ns \<longleftrightarrow> fresh_nodes nid ms"
proof -
  have "n_id ` set ns = n_id ` set ms" using eq by (metis list.set_map)
  then have "(\<forall>i \<in> n_id ` set ns. i < nid) \<longleftrightarrow> (\<forall>i \<in> n_id ` set ms. i < nid)" by (simp only:)
  with eq show ?thesis unfolding fresh_nodes_def by simp
qed

lemma assign_ids_Name: "map Name (assign_ids nid ns) = map Name ns"
  by (induction nid ns rule: assign_ids.induct) simp_all

lemma retry_base_ok:
  assumes fresh: "fresh_nodes nid ns"
    and base: "retry_base now nid dag_steps (map Some ns) = (Inr p, nid')"
  shows "plan_wf p \<and> \<not> plan_isCyclic p \<and> steps_cover (stepsByName dag_steps) p
    \<and> plan_edges p = declared_edges p (p_nodes p)
    \<and> map Name (p_nodes p) = map Name ns"
proof -
  let ?S = "stepsByName dag_steps"
  let ?ms = "map (\<lambda>n. SetStep (the (?S (Name n))) n) ns"
  obtain xs where r: "rebindRetryNodesToSteps (map Some ns) ?S = Inr xs"
    using base by (auto simp: retry_base_def split: sum.splits)
  from rebind_Inr [OF r] have xs: "xs = map Some ?ms" and
    known: "\<And>n. n \<in> set ns \<Longrightarrow> ?S (Name n) \<noteq> None" by auto
  have "NewPlanFromNodes now nid ?ms = (Inr p, nid')"
    using base unfolding retry_base_def r xs by (simp add: image_iff comp_def split: if_splits)
  moreover have "fresh_nodes nid ?ms"
    using fresh fresh_nodes_cong [of ?ms ns nid] by (simp add: SetStep_def comp_def)
  ultimately have p: "plan_wf p" "\<not> plan_isCyclic p" "p_nodes p = assign_ids nid ?ms"
    "plan_edges p = declared_edges p (p_nodes p)"
    using NewPlanFromNodes_wf [of nid ?ms now p] by simp_all
  have step: "?S (Name n) = Some (the (?S (Name n))) \<and> sp_Name (the (?S (Name n))) = Name n"
    if "n \<in> set ns" for n
    using known [OF that] stepsByName_Name by fastforce
  have names: "map Name (p_nodes p) = map Name ns"
    using step by (auto simp: p(3) assign_ids_Name SetStep_def)
  have "\<exists>s. ?S k = Some s \<and> sp_Name s = k" if "k \<in> Name ` set ns" for k
    using that step by blast
  moreover have "Name ` set (p_nodes p) = Name ` set ns" using names by (metis list.set_map)
  ultimately have "steps_cover ?S p" unfolding steps_cover_def by blast
  with p names show ?thesis by simp
qed

lemma CreateRetryPlan_ok:
  assumes "fresh_nodes nid ns"
    and base: "retry_base now nid dag_steps (map Some ns) = (Inr p, nid')"
  shows "CreateRetryPlan now nid dag_steps (map Some ns) =
    Some (Inr (cleared (stepsByName dag_steps) (retry_set p) p), nid')"
  using retry_base_ok [OF assms] base by (simp add: CreateRetryPlan_def setupRetry_spec)

section \<open>Properties\<close>

text \<open>
  C17: creating a retry plan from recorded nodes always returns. When it succeeds, the plan is the
  one built from the rebound nodes with exactly the nodes cleared that are reachable, along the
  dependency edges, from a node that failed, was aborted or rejected, or awaits a retry; every
  other node keeps its recorded state.
\<close>

theorem CreateRetryPlan_correct:
  assumes "fresh_nodes nid ns"
  shows "\<exists>r nid'. CreateRetryPlan now nid dag_steps (map Some ns) = Some (r, nid') \<and>
    (case r of
       Inl e \<Rightarrow> retry_base now nid dag_steps (map Some ns) = (Inl e, nid')
     | Inr p' \<Rightarrow> \<exists>p. retry_base now nid dag_steps (map Some ns) = (Inr p, nid') \<and> plan_wf p
         \<and> p' = cleared (stepsByName dag_steps)
             ((edges (p_DependantMap p))\<^sup>* `` {n_id n | n. n \<in> set (p_nodes p) \<and> needs_retry (Status n)}) p)"
proof (cases "retry_base now nid dag_steps (map Some ns)")
  case (Pair r nid')
  show ?thesis
  proof (cases r)
    case (Inl e)
    with Pair show ?thesis by (simp add: CreateRetryPlan_def)
  next
    case (Inr p)
    with Pair have base: "retry_base now nid dag_steps (map Some ns) = (Inr p, nid')" by simp
    from retry_base_ok [OF assms base] CreateRetryPlan_ok [OF assms base] base show ?thesis
      by (simp add: retry_set_def retry_roots_def plan_edges_def)
  qed
qed

theorem CreateRetryPlan_correct_witness:
  "fresh_nodes 1 [NewNode (zero_step\<lparr>sp_Name := ''a''\<rparr>) (zero_node_state\<lparr>ns_Status := NodeFailed\<rparr>)]
   \<and> (\<exists>r nid'. CreateRetryPlan 5 1 [zero_step\<lparr>sp_Name := ''a''\<rparr>] (map Some
        [NewNode (zero_step\<lparr>sp_Name := ''a''\<rparr>) (zero_node_state\<lparr>ns_Status := NodeFailed\<rparr>)])
      = Some (r, nid'))"
  using CreateRetryPlan_correct [of 1
      "[NewNode (zero_step\<lparr>sp_Name := ''a''\<rparr>) (zero_node_state\<lparr>ns_Status := NodeFailed\<rparr>)]"
      5 "[zero_step\<lparr>sp_Name := ''a''\<rparr>]"]
  by (auto simp: fresh_nodes_def NewNode_def)

text \<open>
  Retrying one step. When \<open>CreateStepRetryPlan\<close> succeeds it changes one node of the plan
  built from the recorded nodes, the one the name denotes: it is cleared, keeps its retry count,
  and keeps its retry budget only if it was waiting for a retry. All other nodes and the graph
  stay as they were.
\<close>

theorem CreateStepRetryPlan_correct:
  assumes "fresh_nodes nid ns"
    and "CreateStepRetryPlan now nid dag_steps (map Some ns) stepName = (Inr p', nid')"
  shows "\<exists>p i s. retry_base now nid dag_steps (map Some ns) = (Inr p, nid')
    \<and> i < length (p_nodes p) \<and> Name (p_nodes p ! i) = stepName \<and> s \<in> set dag_steps
    \<and> p' = p\<lparr>p_nodes := p_nodes p'\<rparr> \<and> length (p_nodes p') = length (p_nodes p)
    \<and> (\<forall>j < length (p_nodes p). j \<noteq> i \<longrightarrow> p_nodes p' ! j = p_nodes p ! j)
    \<and> n_step (p_nodes p' ! i) = s
    \<and> n_state (p_nodes p' ! i) =
        zero_node_state\<lparr>ns_RetryCount := ns_RetryCount (n_state (p_nodes p ! i))\<rparr>
    \<and> n_retryPolicy (p_nodes p' ! i) =
        (if Status (p_nodes p ! i) = NodeRetrying then n_retryPolicy (p_nodes p ! i)
         else zero_retry_policy)"
proof -
  from assms(2) obtain p where base: "retry_base now nid dag_steps (map Some ns) = (Inr p, nid')"
    by (auto simp: CreateStepRetryPlan_def Let_def split: prod.splits sum.splits option.splits)
  have wf: "plan_wf p" using retry_base_ok [OF assms(1) base] by simp
  from assms(2) base obtain i s where i: "p_nodeByName p stepName = Some i"
    and s: "stepsByName dag_steps (Name (p_nodes p ! i)) = Some s"
    and p': "p' = update_node i (\<lambda>n.
        let n' = SetRetryCount (ns_RetryCount (n_state n)) (ClearState s n)
        in if Status (p_nodes p ! i) = NodeRetrying then n'
           else n'\<lparr>n_retryPolicy := zero_retry_policy\<rparr>) p"
    by (auto simp: CreateStepRetryPlan_def Let_def split: option.splits)
  have il: "i < length (p_nodes p)" "Name (p_nodes p ! i) = stepName"
    using i wf last_pos_SomeD [of "plan_names p" stepName i] by (auto simp: plan_wf_def)
  have sm: "s \<in> set dag_steps" using stepsByName_Name [OF s] by simp
  show ?thesis
    using base il sm p' by (intro exI [of _ p] exI [of _ i] exI [of _ s])
      (simp add: update_node_def Let_def node_simps)
qed

theorem CreateStepRetryPlan_correct_witness:
  "\<exists>p' nid'. CreateStepRetryPlan 5 1 [zero_step\<lparr>sp_Name := ''a''\<rparr>]
      (map Some [NewNode (zero_step\<lparr>sp_Name := ''a''\<rparr>) (zero_node_state\<lparr>ns_RetryCount := 2\<rparr>)]) ''a''
      = (Inr p', nid')
    \<and> n_state (p_nodes p' ! 0) = zero_node_state\<lparr>ns_RetryCount := 2\<rparr>"
proof -
  let ?n = "NewNode (zero_step\<lparr>sp_Name := ''a''\<rparr>) (zero_node_state\<lparr>ns_RetryCount := 2\<rparr>)"
  let ?r = "CreateStepRetryPlan 5 1 [zero_step\<lparr>sp_Name := ''a''\<rparr>] (map Some [?n]) ''a''"
  have fresh: "fresh_nodes 1 [?n]" by (simp add: fresh_nodes_def NewNode_def)
  have dep: "sp_Depends zero_step = []" by (simp add: zero_step_def)
  have ok: "\<exists>p' nid'. ?r = (Inr p', nid')"
    by (simp add: CreateStepRetryPlan_def retry_base_def stepsByName_def NewPlanFromNodes_def
        NewNode_def SetStep_def Init_def addNode_def empty_plan_def buildEdges_def dep
        plan_isCyclic_def is_cyclic_def Let_def)
  then obtain p' nid' where r: "?r = (Inr p', nid')" by blast
  obtain p i where base: "retry_base 5 1 [zero_step\<lparr>sp_Name := ''a''\<rparr>] (map Some [?n]) = (Inr p, nid')"
    and i: "i < length (p_nodes p)" and st: "n_state (p_nodes p' ! i) =
      zero_node_state\<lparr>ns_RetryCount := ns_RetryCount (n_state (p_nodes p ! i))\<rparr>"
    using CreateStepRetryPlan_correct [OF fresh r] by blast
  have "p_nodes p = [(SetStep (zero_step\<lparr>sp_Name := ''a''\<rparr>) ?n)\<lparr>n_id := 1\<rparr>]"
    using base by (simp add: retry_base_def stepsByName_def NewPlanFromNodes_def
        NewNode_def SetStep_def Init_def addNode_def empty_plan_def buildEdges_def dep
        plan_isCyclic_def is_cyclic_def Let_def) auto
  with i st r show ?thesis by (auto simp: NewNode_def SetStep_def)
qed

end
