(* ===== verification/Node_Exec.thy ===== *)
theory Node_Exec
  imports Node_Data
begin

text \<open>
  Package \<open>runtime\<close>, the operations of \<open>node.go\<close> that decide the fate of a node: whether
  its dependents may continue (\<open>ShouldContinue\<close>, with its cache in the output variables),
  the execution of the command (\<open>Execute\<close> and what it calls), preparation of the retry and
  repeat policies, signals and tear-down; and \<open>exitCodeFromError\<close> of \<open>utils.go\<close>.

  What a call outside this package does is an argument: \<open>log_match\<close> for
  \<open>LogContainsPattern\<close>, \<open>eval_int\<close> for \<open>eval.IntString\<close>, \<open>eval_str\<close> for
  \<open>EvalStepString\<close> and the record \<open>exec_outcome\<close> for one run of an executor.
\<close>

section \<open>Exit codes\<close>

definition parseExitCodeFromError :: "string \<Rightarrow> int option" where
  "parseExitCodeFromError s =
     (if \<not> str_contains s ''exit status'' then None
      else let parts = str_split s ''exit status '' in
        if length parts \<le> 1 then None
        else let numStr = takeWhile is_digit (last parts) in
          if numStr = [] then None else atoi_digits numStr)"

definition exitCodeFromError :: "go_error option \<Rightarrow> int option" where
  "exitCodeFromError e =
     (case e of
        None \<Rightarrow> None
      | Some err \<Rightarrow>
          (case as_exit_error err of
             Some c \<Rightarrow> Some c
           | None \<Rightarrow>
               (case parseExitCodeFromError (err_text err) of
                  Some c \<Rightarrow> Some c
                | None \<Rightarrow> if str_contains (err_text err) ''signal:'' then Some (- 1) else None)))"

section \<open>May the dependents continue?\<close>

type_synonym log_matcher = "node \<Rightarrow> string list \<Rightarrow> go_error + bool"

definition systemVarPrefix :: string where
  "systemVarPrefix = ''DAGU_''"

definition continue_cache_key :: "node \<Rightarrow> string" where
  "continue_cache_key n = systemVarPrefix @ ''CONTINUE_ON.'' @ Name n"

definition ShouldContinue :: "log_matcher \<Rightarrow> node \<Rightarrow> bool \<times> node" where
  "ShouldContinue log_match n =
     (let co = sp_ContinueOn (n_step n);
          lookup = (case getBoolVariable (continue_cache_key n) n of
             Some v \<Rightarrow> (v, n)
           | None \<Rightarrow>
               if MatchExitCode (co_ExitCode co) n
               then (True, setBoolVariable (continue_cache_key n) True n)
               else if co_Output co \<noteq> []
               then (case log_match n (co_Output co) of
                       Inl e \<Rightarrow> (False, n)
                     | Inr ok \<Rightarrow>
                         if ok then (True, setBoolVariable (continue_cache_key n) True n)
                         else (False, setBoolVariable (continue_cache_key n) False n))
               else (False, setBoolVariable (continue_cache_key n) False n))
      in case Status n of
           NodeSucceeded \<Rightarrow> (True, n)
         | NodeFailed \<Rightarrow> if co_Failure co then (True, n) else lookup
         | NodeAborted \<Rightarrow> (False, n)
         | NodeSkipped \<Rightarrow> (co_Skipped co, n)
         | NodePartiallySucceeded \<Rightarrow> (True, n)
         | NodeRejected \<Rightarrow> (False, n)
         | NodeNotStarted \<Rightarrow> (False, n)
         | NodeRunning \<Rightarrow> (False, n)
         | NodeRetrying \<Rightarrow> (False, n)
         | NodeWaiting \<Rightarrow> (False, n))"

definition ShouldMarkSuccess :: "log_matcher \<Rightarrow> node \<Rightarrow> bool \<times> node" where
  "ShouldMarkSuccess log_match n =
     (case ShouldContinue log_match n of
        (ok, n') \<Rightarrow> if \<not> ok then (False, n') else (co_MarkSuccess (sp_ContinueOn (n_step n')), n'))"

section \<open>Executing the command\<close>

text \<open>
  One call of an executor, as \<open>Execute\<close> sees it: the errors of setting it up (evaluating the
  step or creating the executor, its output streams, the sub runs), the error of
  \<open>Run\<close> with the time it took and whether the step's context hit its deadline, and what the
  optional interfaces of the executor report (exit code, chat messages, sub runs, tool
  definitions, node status).
\<close>

record exec_outcome =
  xo_setupErr :: "go_error option"
  xo_ioErr :: "go_error option"
  xo_buildRuns :: "go_error + sub_dag_run list"
  xo_configErr :: "go_error option"
  xo_runErr :: "go_error option"
  xo_deadline :: bool
  xo_elapsed :: duration
  xo_alloc :: nat
  xo_exitCoder :: "int option"
  xo_messages :: "string list option"
  xo_subRuns :: "sub_dag_run list option"
  xo_toolDefs :: "string list option"
  xo_stdout :: "go_error + string"
  xo_structured :: "go_error + string"
  xo_status :: "(go_error + node_status) option"

definition resetForExecution :: "node \<Rightarrow> node" where
  "resetForExecution n =
     (ResetError (ClearVariable (continue_cache_key n) n))\<lparr>n_done := False\<rparr>"

definition setupExecutor :: "exec_outcome \<Rightarrow> node \<Rightarrow> node \<times> go_error option" where
  "setupExecutor xo n =
     (let n1 = resetForExecution n in
      case xo_setupErr xo of
        Some e \<Rightarrow> (n1, Some e)
      | None \<Rightarrow>
          (let n2 = n1\<lparr>n_cmd := True\<rparr> in
           case xo_ioErr xo of
             Some e \<Rightarrow> (n2, Some (Wrap (xo_alloc xo) ''failed to set up step output'' e))
           | None \<Rightarrow>
               if \<not> sp_SubDAG (n_step n2) then (n2, None)
               else case xo_buildRuns xo of
                 Inl e \<Rightarrow> (n2, Some e)
               | Inr rs \<Rightarrow> (SetSubRuns rs n2, xo_configErr xo)))"

definition handleTimeout :: "exec_outcome \<Rightarrow> node \<Rightarrow> int \<times> go_error option \<times> node" where
  "handleTimeout xo n =
     (let e = Some (Wrap (xo_alloc xo) ''step timed out'' DeadlineExceeded)
      in (124, e, SetStatus NodeFailed (SetError e n)))"

definition handleCommandError ::
  "exec_outcome \<Rightarrow> go_error \<Rightarrow> node \<Rightarrow> int \<times> go_error option \<times> node" where
  "handleCommandError xo err n =
     (let n' = SetError (Some err) n in
      case xo_exitCoder xo of
        Some c \<Rightarrow> (c, Some err, n')
      | None \<Rightarrow>
          (case exitCodeFromError (Some err) of
             Some c \<Rightarrow> (c, Some err, n')
           | None \<Rightarrow> (1, Some err, n')))"

definition runCommand :: "exec_outcome \<Rightarrow> duration \<Rightarrow> node \<Rightarrow> int \<times> go_error option \<times> node" where
  "runCommand xo stepTimeout n =
     (case xo_runErr xo of
        None \<Rightarrow> (0, None, n)
      | Some err \<Rightarrow>
          if 0 < stepTimeout \<and> (xo_deadline xo \<or> stepTimeout \<le> xo_elapsed xo)
          then handleTimeout xo n
          else handleCommandError xo err n)"

definition captureOutput :: "exec_outcome \<Rightarrow> node \<Rightarrow> node \<times> go_error option" where
  "captureOutput xo n =
     (if sp_Output (n_step n) \<noteq> '''' then
        (case xo_stdout xo of
           Inl e \<Rightarrow> (n, Some (Wrap (xo_alloc xo) ''failed to capture output'' e))
         | Inr v \<Rightarrow> (setOutputValue v (setVariable (sp_Output (n_step n)) v n), None))
      else if \<not> sp_StructuredOutput (n_step n) then (n, None)
      else
        (case xo_structured xo of
           Inl e \<Rightarrow> (n, Some (Wrap (xo_alloc xo) ''failed to evaluate structured output'' e))
         | Inr v \<Rightarrow> (setOutputValue v n, None)))"

definition determineNodeStatus :: "exec_outcome \<Rightarrow> node \<Rightarrow> node \<times> go_error option" where
  "determineNodeStatus xo n =
     (case xo_status xo of
        None \<Rightarrow> (n, None)
      | Some (Inl e) \<Rightarrow> (n, Some e)
      | Some (Inr s) \<Rightarrow> (SetStatus s n, None))"

text \<open>What \<open>Execute\<close> copies back from the executor's optional interfaces.\<close>

definition captureExecutorState :: "exec_outcome \<Rightarrow> node \<Rightarrow> node" where
  "captureExecutorState xo n =
     (let n1 = (case xo_messages xo of None \<Rightarrow> n | Some ms \<Rightarrow> SetChatMessages ms n);
          n2 = (case xo_subRuns xo of
                  None \<Rightarrow> n1
                | Some rs \<Rightarrow>
                    SetSubRuns rs
                      (if ns_Repeated (n_state n1) \<and> ns_SubRuns (n_state n1) \<noteq> []
                       then AddSubRunsRepeated (ns_SubRuns (n_state n1)) n1 else n1))
      in case xo_toolDefs xo of
           None \<Rightarrow> n2
         | Some ts \<Rightarrow> if ts \<noteq> [] then SetToolDefinitions ts n2 else n2)"

text \<open>
  \<open>sg\<close> is what a signal or a cancellation does to the node while the command runs.
\<close>

definition Execute :: "(node \<Rightarrow> node) \<Rightarrow> exec_outcome \<Rightarrow> node \<Rightarrow> node \<times> go_error option" where
  "Execute sg xo n =
     (case setupExecutor xo n of
        (n1, Some err) \<Rightarrow>
          (SetError (Some (Wrap (xo_alloc xo) ''failed to set up step'' err)) n1, Some err)
      | (n1, None) \<Rightarrow>
          (case runCommand xo (if 0 < sp_Timeout (n_step n) then sp_Timeout (n_step n) else 0)
             (sg n1) of
             (code, err, n2) \<Rightarrow>
               (case captureOutput xo (captureExecutorState xo (SetExitCode code (SetError err n2))) of
                  (n3, Some e) \<Rightarrow> (n3, Some e)
                | (n3, None) \<Rightarrow>
                    (case determineNodeStatus xo n3 of
                       (n4, statusErr) \<Rightarrow>
                         (n4, case ns_Error (n_state n4) of
                                Some e \<Rightarrow> Some e
                              | None \<Rightarrow> statusErr)))))"

section \<open>Preparation\<close>

type_synonym int_evaluator = "string \<Rightarrow> go_error + int"

definition ShouldRetry :: "runtime_retry_policy \<Rightarrow> int \<Rightarrow> bool" where
  "ShouldRetry rp exitCode =
     (if rrp_ExitCodes rp \<noteq> [] then exitCode \<in> set (rrp_ExitCodes rp) else exitCode \<noteq> 0)"

definition setupRetryPolicy :: "int_evaluator \<Rightarrow> nat \<Rightarrow> node \<Rightarrow> node \<times> go_error option" where
  "setupRetryPolicy eval_int a n =
     (let p = sp_RetryPolicy (n_step n);
          limit0 = (if 0 < srp_Limit p then srp_Limit p else 0);
          interval0 = (if 0 < srp_Interval p then srp_Interval p else 0);
          exitCodes = (if srp_ExitCodes p \<noteq> [] then srp_ExitCodes p else [])
      in case (if srp_LimitStr p \<noteq> '''' then eval_int (srp_LimitStr p) else Inr limit0) of
           Inl e \<Rightarrow> (n, Some (Wrap a ''failed to substitute retry limit'' e))
         | Inr limit \<Rightarrow>
             (case (if srp_IntervalSecStr p \<noteq> ''''
                    then (case eval_int (srp_IntervalSecStr p) of
                            Inl e \<Rightarrow> Inl e
                          | Inr v \<Rightarrow> Inr (wrap64 (v * second)))
                    else Inr interval0) of
                Inl e \<Rightarrow> (n, Some (Wrap a ''failed to substitute retry interval'' e))
              | Inr interval \<Rightarrow>
                  (SetStep ((n_step n)\<lparr>sp_RetryPolicy := p\<lparr>srp_Limit := limit,
                       srp_Interval := interval, srp_ExitCodes := exitCodes\<rparr>\<rparr>)
                     (n\<lparr>n_retryPolicy := \<lparr> rrp_Limit = limit, rrp_Interval = interval,
                          rrp_ExitCodes = exitCodes \<rparr>\<rparr>), None)))"

definition eval_seconds :: "int_evaluator \<Rightarrow> string \<Rightarrow> duration \<Rightarrow> go_error + duration" where
  "eval_seconds eval_int s d =
     (if s = '''' then Inr d
      else case eval_int s of Inl e \<Rightarrow> Inl e | Inr v \<Rightarrow> Inr (wrap64 (v * second)))"

definition setupRepeatPolicy :: "int_evaluator \<Rightarrow> nat \<Rightarrow> node \<Rightarrow> node \<times> go_error option" where
  "setupRepeatPolicy eval_int a n =
     (let rp = sp_RepeatPolicy (n_step n) in
      case (if rp_LimitStr rp \<noteq> '''' then eval_int (rp_LimitStr rp) else Inr (rp_Limit rp)) of
        Inl e \<Rightarrow> (n, Some (Wrap a ''failed to substitute repeat limit'' e))
      | Inr limit \<Rightarrow>
          (case eval_seconds eval_int (rp_IntervalStr rp) (rp_Interval rp) of
             Inl e \<Rightarrow> (n, Some (Wrap a ''failed to substitute repeat interval'' e))
           | Inr interval \<Rightarrow>
               (case eval_seconds eval_int (rp_MaxIntervalStr rp) (rp_MaxInterval rp) of
                  Inl e \<Rightarrow> (n, Some (Wrap a ''failed to substitute repeat max_interval'' e))
                | Inr maxInterval \<Rightarrow>
                    (SetStep ((n_step n)\<lparr>sp_RepeatPolicy := rp\<lparr>rp_Limit := limit,
                       rp_Interval := interval, rp_MaxInterval := maxInterval\<rparr>\<rparr>) n, None))))"

text \<open>
  \<open>Data.Setup\<close>: log paths, start time and the evaluated redirections. \<open>merged\<close> is the
  effective log-output mode; an evaluation error keeps what was set before it.
\<close>

definition Setup ::
  "(string \<Rightarrow> go_error + string) \<Rightarrow> bool \<Rightarrow> nat \<Rightarrow> string \<Rightarrow> time \<Rightarrow> node \<Rightarrow> node \<times> go_error option" where
  "Setup eval_str merged a logFile startedAt n =
     (let st = n_state n;
          n1 = n\<lparr>n_state :=
                 (if merged then st\<lparr>ns_Stdout := logFile @ ''.log'', ns_Stderr := logFile @ ''.log''\<rparr>
                  else st\<lparr>ns_Stdout := logFile @ ''.out'', ns_Stderr := logFile @ ''.err''\<rparr>)
                 \<lparr>ns_StartedAt := startedAt\<rparr>\<rparr>
      in case eval_str (sp_Stdout (n_step n1)) of
           Inl e \<Rightarrow> (n1, Some (Wrap a ''failed to evaluate stdout field'' e))
         | Inr out \<Rightarrow>
             (let n2 = SetStep ((n_step n1)\<lparr>sp_Stdout := out\<rparr>) n1 in
              case eval_str (sp_Stderr (n_step n2)) of
                Inl e \<Rightarrow> (n2, Some (Wrap a ''failed to evaluate stderr field'' e))
              | Inr err \<Rightarrow> (SetStep ((n_step n2)\<lparr>sp_Stderr := err\<rparr>) n2, None)))"

text \<open>\<open>Prepare\<close>: what its calls outside the node return is the record \<open>prep_env\<close>.\<close>

record prep_env =
  pe_mkdirErr :: "go_error option"
  pe_evalStr :: "string \<Rightarrow> go_error + string"
  pe_merged :: bool
  pe_alloc :: nat
  pe_logFile :: string
  pe_now :: time
  pe_outputsErr :: "go_error option"
  pe_evalInt :: int_evaluator

definition wrap_err :: "nat \<Rightarrow> string \<Rightarrow> go_error option \<Rightarrow> go_error option" where
  "wrap_err a msg e = map_option (Wrap a msg) e"

definition Prepare :: "prep_env \<Rightarrow> node \<Rightarrow> node \<times> go_error option" where
  "Prepare pe n =
     (case pe_mkdirErr pe of
        Some e \<Rightarrow> (n, Some (Wrap (pe_alloc pe) ''failed to create log directory'' e))
      | None \<Rightarrow>
          (case Setup (pe_evalStr pe) (pe_merged pe) (pe_alloc pe) (pe_logFile pe) (pe_now pe) n of
             (n1, Some e) \<Rightarrow> (n1, Some (Wrap (pe_alloc pe) ''failed to setup node data'' e))
           | (n1, None) \<Rightarrow>
               (case pe_outputsErr pe of
                  Some e \<Rightarrow> (n1, Some (Wrap (pe_alloc pe) ''failed to setup outputs'' e))
                | None \<Rightarrow>
                    (case setupRetryPolicy (pe_evalInt pe) (pe_alloc pe) n1 of
                       (n2, Some e) \<Rightarrow> (n2, Some (Wrap (pe_alloc pe) ''failed to setup retry policy'' e))
                     | (n2, None) \<Rightarrow>
                         apsnd (wrap_err (pe_alloc pe) ''failed to setup repeat policy'')
                           (setupRepeatPolicy (pe_evalInt pe) (pe_alloc pe) n2)))))"

section \<open>Signals, cancellation, tear-down\<close>

text \<open>
  \<open>Signal\<close>: \<open>term_sig\<close> is \<open>IsTerminationSignalOS\<close> of the signal passed in, \<open>term_stop\<close>
  of the step's own stop signal. Only the effect on the node is modelled, not the kill.
\<close>

definition signal_is_termination :: "bool \<Rightarrow> (string \<Rightarrow> bool) \<Rightarrow> bool \<Rightarrow> node \<Rightarrow> bool" where
  "signal_is_termination term_sig term_stop allowOverride n =
     (if allowOverride \<and> sp_SignalOnStop (n_step n) \<noteq> ''''
      then term_stop (sp_SignalOnStop (n_step n)) else term_sig)"

definition node_Signal :: "bool \<Rightarrow> (string \<Rightarrow> bool) \<Rightarrow> bool \<Rightarrow> node \<Rightarrow> node" where
  "node_Signal term_sig term_stop allowOverride n =
     (if Status n = NodeRunning \<and> n_cmd n \<and>
         signal_is_termination term_sig term_stop allowOverride n
      then SetStatus NodeAborted n else n)"

definition node_Cancel :: "node \<Rightarrow> node" where
  "node_Cancel n =
     (if Status n = NodeRunning \<or> Status n = NodeWaiting then SetStatus NodeAborted n else n)"

definition Teardown :: "go_error option \<Rightarrow> node \<Rightarrow> node \<times> go_error option" where
  "Teardown closeErr n =
     (if n_done n then (n, None)
      else case closeErr of
        None \<Rightarrow> (n\<lparr>n_done := True\<rparr>, None)
      | Some e \<Rightarrow> (SetError (Some e) (n\<lparr>n_done := True\<rparr>), Some e))"

section \<open>Lemmas\<close>

lemma kv_Bool_roundtrip: "CHR ''='' \<notin> set k \<Longrightarrow> kv_Bool (NewKeyValue k (format_bool b)) = b"
  by (simp add: kv_Bool_def kv_Value_def NewKeyValue_def str_cut_append)

lemma kv_roundtrip:
  "CHR ''='' \<notin> set k \<Longrightarrow> kv_Key (NewKeyValue k v) = k \<and> kv_Value (NewKeyValue k v) = v"
  by (simp add: kv_Key_def kv_Value_def NewKeyValue_def str_cut_append)

lemma get_setBoolVariable:
  "CHR ''='' \<notin> set k \<Longrightarrow> getBoolVariable k (setBoolVariable k b n) = Some b"
  by (simp add: getBoolVariable_def getVariable_def node_simps kv_Bool_roundtrip)

lemma ShouldContinue_frame:
  assumes "ShouldContinue lm n = (b, n')"
  shows "n_id n' = n_id n" "n_step n' = n_step n" "Status n' = Status n"
    "n_retryPolicy n' = n_retryPolicy n"
    "ns_ExitCode (n_state n') = ns_ExitCode (n_state n)"
    "ns_Error (n_state n') = ns_Error (n_state n)"
  using assms
  by (auto simp: ShouldContinue_def Let_def node_simps
      split: node_status.splits option.splits if_splits sum.splits)

end
