(* ===== verification/Conditions.thy ===== *)
theory Conditions
  imports Node_Data
begin

text \<open>
  Package \<open>runtime\<close>, file \<open>condition.go\<close>: preconditions. Comparing an evaluated string
  (\<open>matchCondition\<close>) and running a command (\<open>evalCommand\<close>) are the arguments \<open>match_c\<close> and
  \<open>run_c\<close>. A condition is a pointer in the source and keeps its error message, so evaluation
  returns the updated conditions.
\<close>

definition ErrConditionNotMet :: go_error where
  "ErrConditionNotMet = Sentinel ''condition was not met''"

definition ErrMsgOtherConditionNotMet :: string where
  "ErrMsgOtherConditionNotMet = ''other condition was not met''"

type_synonym evaluator = "condition \<Rightarrow> go_error option"

definition raw_condition :: "evaluator \<Rightarrow> evaluator \<Rightarrow> evaluator" where
  "raw_condition match_c run_c c =
     (if cd_Condition c \<noteq> '''' \<and> cd_Expected c \<noteq> '''' then match_c c else run_c c)"

definition EvalCondition :: "evaluator \<Rightarrow> evaluator \<Rightarrow> nat \<Rightarrow> evaluator" where
  "EvalCondition match_c run_c a c =
     (let err = raw_condition match_c run_c c in
      if cd_Negate c
      then case err of
             None \<Rightarrow> Some (Wrap a ''condition matched but negate is true'' ErrConditionNotMet)
           | Some e \<Rightarrow> if errors_is e ErrConditionNotMet then None else Some e
      else err)"

fun eval_conditions_loop ::
  "evaluator \<Rightarrow> condition list \<Rightarrow> go_error option \<Rightarrow> go_error option \<times> condition list" where
  "eval_conditions_loop ev [] lastErr = (lastErr, [])"
| "eval_conditions_loop ev (c # cs) lastErr =
     (case ev c of
        None \<Rightarrow> apsnd ((#) c) (eval_conditions_loop ev cs lastErr)
      | Some e \<Rightarrow>
          apsnd ((#) (c\<lparr>cd_errorMessage := err_text e\<rparr>)) (eval_conditions_loop ev cs (Some e)))"

definition EvalConditions :: "evaluator \<Rightarrow> condition list \<Rightarrow> go_error option \<times> condition list" where
  "EvalConditions ev cs =
     (case eval_conditions_loop ev cs None of
        (None, cs') \<Rightarrow> (None, cs')
      | (Some e, cs') \<Rightarrow>
          (Some e, map (\<lambda>c. if cd_errorMessage c \<noteq> '''' then c
             else c\<lparr>cd_errorMessage := ErrMsgOtherConditionNotMet\<rparr>) cs'))"

definition evalPreconditions :: "evaluator \<Rightarrow> node \<Rightarrow> go_error option \<times> node" where
  "evalPreconditions ev n =
     (if sp_Preconditions (n_step n) = [] then (None, n)
      else case EvalConditions ev (sp_Preconditions (n_step n)) of
        (e, cs) \<Rightarrow> (e, n\<lparr>n_step := (n_step n)\<lparr>sp_Preconditions := cs\<rparr>\<rparr>))"

section \<open>Lemmas\<close>

lemma eval_conditions_loop_None:
  "fst (eval_conditions_loop ev cs e) = None \<longleftrightarrow> e = None \<and> (\<forall>c \<in> set cs. ev c = None)"
  by (induction ev cs e rule: eval_conditions_loop.induct) (auto split: option.splits)

lemma eval_conditions_loop_last:
  "fst (eval_conditions_loop ev cs e) =
     (case filter (\<lambda>c. ev c \<noteq> None) cs of [] \<Rightarrow> e | fs \<Rightarrow> ev (last fs))"
proof (induction ev cs e rule: eval_conditions_loop.induct)
  case (2 ev c cs e)
  then show ?case by (cases "ev c") (auto split: list.splits)
qed simp

lemma evalPreconditions_frame:
  assumes "evalPreconditions ev n = (e, n')"
  shows "n_id n' = n_id n" "n_state n' = n_state n" "n_retryPolicy n' = n_retryPolicy n"
    "sp_Depends (n_step n') = sp_Depends (n_step n)"
  using assms by (auto simp: evalPreconditions_def split: if_splits prod.splits)

section \<open>Properties\<close>

text \<open>
  C31: a list of preconditions holds exactly when each single one does; otherwise the error is
  the one of the last failing condition. A negated condition passes exactly when the plain one
  is not met, and an evaluation error is never turned into a pass.
\<close>

theorem EvalConditions_correct:
  "(fst (EvalConditions ev cs) = None \<longleftrightarrow> (\<forall>c \<in> set cs. ev c = None))
   \<and> (\<forall>e. fst (EvalConditions ev cs) = Some e \<longrightarrow>
        Some e = ev (last (filter (\<lambda>c. ev c \<noteq> None) cs)))
   \<and> (EvalCondition match_c run_c a c = None \<longleftrightarrow>
        (if cd_Negate c
         then \<exists>e. raw_condition match_c run_c c = Some e \<and> errors_is e ErrConditionNotMet
         else raw_condition match_c run_c c = None))"
proof -
  have eq: "fst (EvalConditions ev cs) = fst (eval_conditions_loop ev cs None)"
    by (cases "eval_conditions_loop ev cs None"; cases "fst (eval_conditions_loop ev cs None)")
      (auto simp: EvalConditions_def)
  have "fst (EvalConditions ev cs) = Some e \<Longrightarrow>
      Some e = ev (last (filter (\<lambda>c. ev c \<noteq> None) cs))" for e
    unfolding eq eval_conditions_loop_last by (auto split: list.splits)
  moreover have "fst (EvalConditions ev cs) = None \<longleftrightarrow> (\<forall>c \<in> set cs. ev c = None)"
    unfolding eq eval_conditions_loop_None by simp
  ultimately show ?thesis
    by (auto simp: EvalCondition_def Let_def split: option.splits)
qed

theorem EvalConditions_correct_witness:
  "EvalCondition (\<lambda>_. Some ErrConditionNotMet) (\<lambda>_. None) 0
     \<lparr> cd_Condition = ''x'', cd_Expected = ''y'', cd_Negate = True, cd_errorMessage = '''' \<rparr> = None"
  using EvalConditions_correct [of "\<lambda>_. None" "[]" "\<lambda>_. Some ErrConditionNotMet" "\<lambda>_. None" 0
    "\<lparr> cd_Condition = ''x'', cd_Expected = ''y'', cd_Negate = True, cd_errorMessage = '''' \<rparr>"]
  by (simp add: raw_condition_def ErrConditionNotMet_def)

end
