(* ===== verification/Backoff.thy ===== *)
theory Backoff
  imports Go_Base
begin

text \<open>
  Package \<open>cmn/backoff\<close> (retry policies, jitter, the retrier and the loop \<open>Retry\<close>) and
  \<open>CalculateBackoffInterval\<close> of \<open>core/retry.go\<close>. A \<open>float64\<close> is a real number; its
  conversion to a duration truncates inside the range of \<open>int64\<close>, and outside it the Go
  specification leaves the result to the implementation, so that result is the argument
  \<open>oor\<close>. The locale \<open>retry_policy\<close> is the interface \<open>RetryPolicy\<close> with what the three
  policies promise; \<open>Retry\<close> is bounded for every policy of that interface.
\<close>

section \<open>Conversion of floats\<close>

definition in_int64 :: "real \<Rightarrow> bool" where
  "in_int64 x \<longleftrightarrow> - (2 ^ 63) \<le> x \<and> x < 2 ^ 63"

definition trunc_real :: "real \<Rightarrow> int" where
  "trunc_real x = (if 0 \<le> x then \<lfloor>x\<rfloor> else \<lceil>x\<rceil>)"

definition to_duration :: "(real \<Rightarrow> duration) \<Rightarrow> real \<Rightarrow> duration" where
  "to_duration oor x = (if in_int64 x then trunc_real x else oor x)"

lemma to_duration_of_int: "min_int64 \<le> d \<Longrightarrow> d \<le> max_int64 \<Longrightarrow> to_duration oor (of_int d) = d"
proof -
  assume "min_int64 \<le> d" "d \<le> max_int64"
  then have "- (2 ^ 63) \<le> d" "d < 2 ^ 63" by (simp_all add: min_int64_def max_int64_def)
  then have "in_int64 (of_int d)" by (simp add: in_int64_def)
  then show ?thesis by (simp add: to_duration_def trunc_real_def)
qed

lemma to_duration_bounds:
  assumes "0 \<le> x" "x < 2 ^ 63"
  shows "0 \<le> to_duration oor x" "of_int (to_duration oor x) \<le> x"
  using assms by (auto simp: to_duration_def in_int64_def trunc_real_def)

section \<open>The interval of a step retry\<close>

definition CalculateBackoffInterval ::
  "(real \<Rightarrow> duration) \<Rightarrow> duration \<Rightarrow> real \<Rightarrow> duration \<Rightarrow> int \<Rightarrow> duration" where
  "CalculateBackoffInterval oor interval backoff maxInterval attemptCount =
     (let attempt = (if attemptCount < 0 then 0 else attemptCount) in
      if 0 < backoff
      then let sleepTime = of_int interval * backoff ^ nat attempt in
        if 0 < maxInterval \<and> maxInterval < to_duration oor sleepTime then maxInterval
        else to_duration oor sleepTime
      else interval)"

section \<open>Retry policies\<close>

record exponential_policy =
  ep_InitialInterval :: duration
  ep_BackoffFactor :: real
  ep_MaxInterval :: duration
  ep_MaxRetries :: int

record constant_policy =
  cp_Interval :: duration
  cp_MaxRetries :: int

record linear_policy =
  lp_InitialInterval :: duration
  lp_Increment :: duration
  lp_MaxInterval :: duration
  lp_MaxRetries :: int

definition defaultMaxInterval :: duration where
  "defaultMaxInterval = 10 * second"

definition NewExponentialBackoffPolicy :: "duration \<Rightarrow> exponential_policy" where
  "NewExponentialBackoffPolicy i = \<lparr> ep_InitialInterval = i, ep_BackoffFactor = 2,
     ep_MaxInterval = defaultMaxInterval, ep_MaxRetries = 0 \<rparr>"

definition NewConstantBackoffPolicy :: "duration \<Rightarrow> constant_policy" where
  "NewConstantBackoffPolicy i = \<lparr> cp_Interval = i, cp_MaxRetries = 0 \<rparr>"

definition NewLinearBackoffPolicy :: "duration \<Rightarrow> duration \<Rightarrow> linear_policy" where
  "NewLinearBackoffPolicy i inc = \<lparr> lp_InitialInterval = i, lp_Increment = inc,
     lp_MaxInterval = defaultMaxInterval, lp_MaxRetries = 0 \<rparr>"

text \<open>\<open>None\<close> is \<open>ErrRetriesExhausted\<close>.\<close>

definition exhausted :: "int \<Rightarrow> nat \<Rightarrow> bool" where
  "exhausted maxRetries k \<longleftrightarrow> 0 < maxRetries \<and> maxRetries \<le> int k"

definition exponential_interval ::
  "(real \<Rightarrow> duration) \<Rightarrow> exponential_policy \<Rightarrow> nat \<Rightarrow> duration option" where
  "exponential_interval oor p k =
     (if exhausted (ep_MaxRetries p) k then None
      else let interval = of_int (ep_InitialInterval p) * ep_BackoffFactor p ^ k
        in Some (to_duration oor
             (if of_int (ep_MaxInterval p) < interval then of_int (ep_MaxInterval p) else interval)))"

definition constant_interval :: "constant_policy \<Rightarrow> nat \<Rightarrow> duration option" where
  "constant_interval p k = (if exhausted (cp_MaxRetries p) k then None else Some (cp_Interval p))"

definition linear_interval :: "linear_policy \<Rightarrow> nat \<Rightarrow> duration option" where
  "linear_interval p k =
     (if exhausted (lp_MaxRetries p) k then None
      else Some (min (wrap64 (lp_InitialInterval p + wrap64 (int k * lp_Increment p)))
             (lp_MaxInterval p)))"

datatype jitter_type = NoJitter | FullJitter | Jitter

text \<open>
  \<open>rand.Int63n n\<close> is a draw of the source modulo \<open>n\<close>; \<open>draw\<close> is the accepted draw.
\<close>

definition Int63n :: "int \<Rightarrow> int \<Rightarrow> int" where
  "Int63n draw n = draw mod n"

definition jitter_Apply :: "jitter_type \<Rightarrow> int \<Rightarrow> duration \<Rightarrow> duration" where
  "jitter_Apply j draw interval =
     (if interval \<le> 0 then 0
      else case j of
        NoJitter \<Rightarrow> interval
      | FullJitter \<Rightarrow> Int63n draw (interval + 1)
      | Jitter \<Rightarrow> wrap64 (interval div 2 + Int63n draw (interval + 1)))"

definition jittered_interval ::
  "jitter_type \<Rightarrow> (nat \<Rightarrow> int) \<Rightarrow> (nat \<Rightarrow> duration option) \<Rightarrow> nat \<Rightarrow> duration option" where
  "jittered_interval j draws base k = map_option (jitter_Apply j (draws k)) (base k)"

section \<open>The retrier and the loop Retry\<close>

definition retrier_Next :: "(nat \<Rightarrow> duration option) \<Rightarrow> nat \<Rightarrow> duration option \<times> nat" where
  "retrier_Next policy retryCount =
     (case policy retryCount of
        None \<Rightarrow> (None, retryCount)
      | Some d \<Rightarrow> (Some d, Suc retryCount))"

text \<open>
  What one iteration of \<open>Retry\<close> meets: the context's error at its head, the result of the
  operation, and the context's error during the wait. A list of iterations that is too short
  leaves the loop still running (\<open>None\<close>); the result carries the waits, last first.
\<close>

record 'e attempt =
  at_ctxErr :: "'e option"
  at_opErr :: "'e option"
  at_waitErr :: "'e option"

definition retry_wait :: "duration \<Rightarrow> duration" where
  "retry_wait interval = (if interval \<le> 0 then 100 * millisecond else interval)"

fun Retry :: "('e \<Rightarrow> bool) \<Rightarrow> (nat \<Rightarrow> duration option) \<Rightarrow> nat \<Rightarrow> duration list \<Rightarrow>
    'e attempt list \<Rightarrow> ('e option \<times> duration list) option" where
  "Retry isRetriable policy retryCount waits [] = None"
| "Retry isRetriable policy retryCount waits (a # as) =
     (case at_ctxErr a of
        Some e \<Rightarrow> Some (Some e, waits)
      | None \<Rightarrow>
          (case at_opErr a of
             None \<Rightarrow> Some (None, waits)
           | Some err \<Rightarrow>
               if \<not> isRetriable err then Some (Some err, waits)
               else case retrier_Next policy retryCount of
                 (None, _) \<Rightarrow> Some (Some err, waits)
               | (Some interval, retryCount') \<Rightarrow>
                   (case at_waitErr a of
                      Some e \<Rightarrow> Some (Some e, retry_wait interval # waits)
                    | None \<Rightarrow> Retry isRetriable policy retryCount'
                        (retry_wait interval # waits) as)))"

text \<open>
  \<open>Retry\<close> on an operation that keeps variables of its caller: \<open>op\<close> maps them and what the
  iteration meets to the error and the new variables.
\<close>

fun retry_op :: "('e \<Rightarrow> bool) \<Rightarrow> (nat \<Rightarrow> duration option) \<Rightarrow> nat \<Rightarrow> ('s \<Rightarrow> 'p \<Rightarrow> 'e option \<times> 's) \<Rightarrow>
    ('p \<Rightarrow> 'e option) \<Rightarrow> ('p \<Rightarrow> 'e option) \<Rightarrow> 's \<Rightarrow> 'p list \<Rightarrow> ('e option \<times> 's) option" where
  "retry_op isRetriable policy retryCount op ctxErr waitErr s [] = None"
| "retry_op isRetriable policy retryCount op ctxErr waitErr s (p # ps) =
     (case ctxErr p of
        Some e \<Rightarrow> Some (Some e, s)
      | None \<Rightarrow>
          (case op s p of
             (None, s') \<Rightarrow> Some (None, s')
           | (Some err, s') \<Rightarrow>
               if \<not> isRetriable err then Some (Some err, s')
               else case retrier_Next policy retryCount of
                 (None, _) \<Rightarrow> Some (Some err, s')
               | (Some interval, retryCount') \<Rightarrow>
                   (case waitErr p of
                      Some e \<Rightarrow> Some (Some e, s')
                    | None \<Rightarrow> retry_op isRetriable policy retryCount' op ctxErr waitErr s' ps)))"

fun op_attempts :: "('s \<Rightarrow> 'p \<Rightarrow> 'e option \<times> 's) \<Rightarrow> ('p \<Rightarrow> 'e option) \<Rightarrow> ('p \<Rightarrow> 'e option) \<Rightarrow> 's \<Rightarrow>
    'p list \<Rightarrow> 'e attempt list" where
  "op_attempts op ctxErr waitErr s [] = []"
| "op_attempts op ctxErr waitErr s (p # ps) =
     \<lparr> at_ctxErr = ctxErr p, at_opErr = fst (op s p), at_waitErr = waitErr p \<rparr>
     # op_attempts op ctxErr waitErr (snd (op s p)) ps"

lemma length_op_attempts [simp]: "length (op_attempts op ctxErr waitErr s ps) = length ps"
  by (induction ps arbitrary: s) simp_all

lemma retry_op_Retry:
  "map_option fst (retry_op R P k op ctxErr waitErr s ps) = map_option fst (Retry R P k ws (op_attempts op ctxErr waitErr s ps))"
proof (induction ps arbitrary: s k ws)
  case (Cons p ps)
  obtain err s' where op: "op s p = (err, s')" by fastforce
  show ?case
    using Cons.IH [of "Suc k" s'] op
    by (auto simp: retrier_Next_def split: option.split)
qed simp

lemma Retry_Cons_cases:
  obtains (stop) r where "Retry R P k ws (a # as) = Some (r, ws)"
  | (wait) d r where "P k = Some d" "Retry R P k ws (a # as) = Some (r, retry_wait d # ws)"
  | (again) d where "P k = Some d"
      "Retry R P k ws (a # as) = Retry R P (Suc k) (retry_wait d # ws) as"
proof (cases "at_ctxErr a")
  case None
  note ctx = None
  show ?thesis
  proof (cases "at_opErr a")
    case None
    with ctx stop show ?thesis by simp
  next
    case (Some err)
    note op = Some
    show ?thesis
    proof (cases "R err")
      case False
      with ctx op stop show ?thesis by simp
    next
      case True
      show ?thesis
      proof (cases "P k")
        case None
        with ctx op True stop show ?thesis by (simp add: retrier_Next_def)
      next
        case (Some d)
        with ctx op True wait again show ?thesis
          by (cases "at_waitErr a") (simp_all add: retrier_Next_def)
      qed
    qed
  qed
qed (use stop in simp)

section \<open>The interface RetryPolicy\<close>

text \<open>
  What a client may rely on: the policy gives up exactly from its retry limit on (zero for no
  limit), and an interval stays below an upper bound.
\<close>

locale retry_policy =
  fixes policy :: "nat \<Rightarrow> duration option"
    and maxRetries :: int
    and upper :: duration
  assumes gives_up: "policy k = None \<longleftrightarrow> exhausted maxRetries k"
    and bounded: "policy k = Some d \<Longrightarrow> d \<le> upper"
begin

lemma wait_bounded: "policy k = Some d \<Longrightarrow> 0 < retry_wait d \<and> retry_wait d \<le> max upper (100 * millisecond)"
  using bounded [of k d] by (auto simp: retry_wait_def)

lemma waits_bounded:
  assumes "Retry isRetriable policy k ws as = Some (r, ws')"
    and "\<forall>w \<in> set ws. 0 < w \<and> w \<le> max upper (100 * millisecond)"
  shows "\<forall>w \<in> set ws'. 0 < w \<and> w \<le> max upper (100 * millisecond)"
  using assms
proof (induction as arbitrary: k ws)
  case (Cons a as)
  show ?case
  proof (cases rule: Retry_Cons_cases [of isRetriable policy k ws a as])
    case (stop r)
    with Cons.prems show ?thesis by simp
  next
    case (wait d r)
    with Cons.prems wait_bounded [OF wait(1)] show ?thesis by simp
  next
    case (again d)
    with Cons.prems wait_bounded [OF again(1)] show ?thesis
      by (intro Cons.IH [of "Suc k" "retry_wait d # ws"]) simp_all
  qed
qed simp

lemma ends_within:
  assumes "0 < maxRetries" and "int k \<le> maxRetries" and "maxRetries < int (k + length as)"
  shows "\<exists>r ws'. Retry isRetriable policy k ws as = Some (r, ws') \<and>
    int (length ws') \<le> int (length ws) + (maxRetries - int k)"
  using assms(2,3)
proof (induction as arbitrary: k ws)
  case (Cons a as)
  have more: "int (Suc k) \<le> maxRetries" if "policy k = Some d" for d
    using gives_up [of k] that assms(1) by (simp add: exhausted_def)
  show ?case
  proof (cases rule: Retry_Cons_cases [of isRetriable policy k ws a as])
    case (stop r)
    with Cons.prems show ?thesis by simp
  next
    case (wait d r)
    with more [OF wait(1)] show ?thesis by (simp del: Retry.simps)
  next
    case (again d)
    with more [OF again(1)] Cons.prems Cons.IH [of "Suc k" "retry_wait d # ws"] show ?thesis
      by (auto simp del: Retry.simps)
  qed
qed simp

end

text \<open>The three policies provide the interface, and so does jitter on top of any of them.\<close>

interpretation const_policy: retry_policy "constant_interval p" "cp_MaxRetries p" "cp_Interval p"
  for p
  by unfold_locales (auto simp: constant_interval_def split: if_splits)

interpretation lin_policy: retry_policy "linear_interval p" "lp_MaxRetries p" "lp_MaxInterval p"
  for p
  by unfold_locales (auto simp: linear_interval_def split: if_splits)

locale exponential_valid =
  fixes oor :: "real \<Rightarrow> duration"
    and p :: exponential_policy
  assumes initial: "0 \<le> ep_InitialInterval p" and factor: "0 \<le> ep_BackoffFactor p"
    and maximum: "0 \<le> ep_MaxInterval p" "ep_MaxInterval p \<le> max_int64"
begin

lemma capped:
  assumes "exponential_interval oor p k = Some d"
  shows "0 \<le> d \<and> d \<le> ep_MaxInterval p"
proof -
  let ?x = "of_int (ep_InitialInterval p) * ep_BackoffFactor p ^ k"
  let ?m = "real_of_int (ep_MaxInterval p)"
  let ?y = "if ?m < ?x then ?m else ?x"
  have d: "d = to_duration oor ?y"
    using assms by (simp add: exponential_interval_def Let_def split: if_splits)
  have le: "?y \<le> ?m" by simp
  have "?m < 2 ^ 63" using maximum by (simp add: max_int64_def)
  with le have lt: "?y < 2 ^ 63" by linarith
  have ge: "0 \<le> ?y" using initial factor maximum by simp
  have "of_int d \<le> ?m" using to_duration_bounds(2) [OF ge lt, of oor] le d by linarith
  then show ?thesis using to_duration_bounds(1) [OF ge lt, of oor] d by simp
qed

end

sublocale exponential_valid \<subseteq> exp_policy: retry_policy
    "exponential_interval oor p" "ep_MaxRetries p" "ep_MaxInterval p"
proof
  fix k d
  show "(exponential_interval oor p k = None) = exhausted (ep_MaxRetries p) k"
    by (simp add: exponential_interval_def Let_def)
  show "d \<le> ep_MaxInterval p" if "exponential_interval oor p k = Some d"
    using capped [OF that] by simp
qed

context exponential_valid
begin

lemmas exponential_ends = exp_policy.ends_within
lemmas exponential_waits = exp_policy.waits_bounded

end

interpretation new_exponential: exponential_valid oor "NewExponentialBackoffPolicy (int i)"
  for oor i
  by unfold_locales
    (simp_all add: NewExponentialBackoffPolicy_def defaultMaxInterval_def max_int64_def)

locale jittered_policy = retry_policy +
  fixes j :: jitter_type
    and draws :: "nat \<Rightarrow> int"
  assumes headroom: "2 * upper \<le> max_int64"

sublocale jittered_policy \<subseteq> jit_policy: retry_policy
    "jittered_interval j draws policy" maxRetries "max 0 (upper + upper div 2)"
proof
  fix k d
  show "(jittered_interval j draws policy k = None) = exhausted maxRetries k"
    using gives_up [of k] by (simp add: jittered_interval_def)
  assume "jittered_interval j draws policy k = Some d"
  then obtain b where b: "policy k = Some b" and d: "d = jitter_Apply j (draws k) b"
    by (auto simp: jittered_interval_def)
  show "d \<le> max 0 (upper + upper div 2)"
  proof (cases "b \<le> 0")
    case False
    have draw: "0 \<le> Int63n (draws k) (b + 1)" "Int63n (draws k) (b + 1) \<le> b"
      using False pos_mod_bound [of "b + 1" "draws k"] by (simp_all add: Int63n_def)
    have bu: "b \<le> upper" using bounded [OF b] .
    have "wrap64 (b div 2 + Int63n (draws k) (b + 1)) = b div 2 + Int63n (draws k) (b + 1)"
      using draw bu headroom False by (intro wrap64_id) (simp_all add: min_int64_def)
    then show ?thesis
      using draw bu False by (cases j) (simp_all add: d jitter_Apply_def)
  qed (simp add: d jitter_Apply_def)
qed

interpretation jittered_exponential: jittered_policy
    "exponential_interval oor (NewExponentialBackoffPolicy (int i))" 0 defaultMaxInterval j draws
  for oor i j draws
  using new_exponential.exp_policy.gives_up [of oor i] new_exponential.exp_policy.bounded [of oor i]
  by unfold_locales
    (simp_all add: NewExponentialBackoffPolicy_def defaultMaxInterval_def max_int64_def)

section \<open>Properties\<close>

text \<open>
  As long as the exponential delay fits a duration, the delay before a step retry is the
  exponential delay cut off at the maximum, so it is never negative and never above the maximum.
\<close>

theorem backoff_interval_capped:
  assumes "0 \<le> interval" "0 < backoff" "0 < maxInterval"
    and "of_int interval * backoff ^ nat (max 0 attemptCount) < 2 ^ 63"
  shows "CalculateBackoffInterval oor interval backoff maxInterval attemptCount =
      min maxInterval \<lfloor>of_int interval * backoff ^ nat (max 0 attemptCount)\<rfloor>
    \<and> 0 \<le> CalculateBackoffInterval oor interval backoff maxInterval attemptCount
    \<and> CalculateBackoffInterval oor interval backoff maxInterval attemptCount \<le> maxInterval"
proof -
  let ?x = "of_int interval * backoff ^ nat (max 0 attemptCount)"
  have x: "0 \<le> ?x" using assms(1,2) by simp
  have "(if attemptCount < 0 then 0 else attemptCount) = max 0 attemptCount" by simp
  moreover have "to_duration oor ?x = \<lfloor>?x\<rfloor>"
    using x assms(4) by (simp add: to_duration_def in_int64_def trunc_real_def)
  ultimately have "CalculateBackoffInterval oor interval backoff maxInterval attemptCount =
      min maxInterval \<lfloor>?x\<rfloor>"
    using assms(2,3) by (simp only: CalculateBackoffInterval_def Let_def) simp
  with x assms(3) show ?thesis by simp
qed

theorem backoff_interval_capped_witness:
  "CalculateBackoffInterval (\<lambda>_. min_int64) second 2 (60 * second) 33 = 60 * second"
  using backoff_interval_capped [of second 2 "60 * second" 33 "\<lambda>_. min_int64"] by simp

text \<open>
  The cap does not hold for every input. When the exponential delay does not fit a duration
  and the conversion yields the least integer, which is what the amd64 instruction returns, the
  comparison with the maximum fails and the delay is negative: a one-second interval with factor
  two and a maximum of one minute, at attempt 34.
\<close>

theorem backoff_interval_overflow:
  "CalculateBackoffInterval (\<lambda>_. min_int64) second 2 (60 * second) 34 = min_int64
   \<and> min_int64 < 0"
  by (simp add: CalculateBackoffInterval_def to_duration_def in_int64_def min_int64_def)

text \<open>
  C30: \<open>Retry\<close> with an exponential policy that has a retry limit returns after at most one more
  attempt than the limit, whatever the operation and the context do, and each wait is positive
  and at most the policy's maximum (or the fixed small delay, when that is larger).
\<close>

theorem retry_exponential_bounded:
  assumes "0 \<le> ep_InitialInterval p" "0 \<le> ep_BackoffFactor p"
    and "0 \<le> ep_MaxInterval p" "ep_MaxInterval p \<le> max_int64"
    and "0 < ep_MaxRetries p" and "ep_MaxRetries p < int (length as)"
  shows "\<exists>r waits. Retry isRetriable (exponential_interval oor p) 0 [] as = Some (r, waits)
    \<and> int (length waits) \<le> ep_MaxRetries p
    \<and> (\<forall>w \<in> set waits. 0 < w \<and> w \<le> max (ep_MaxInterval p) (100 * millisecond))"
proof -
  have valid: "exponential_valid p" using assms(1-4) by unfold_locales
  obtain r waits where r: "Retry isRetriable (exponential_interval oor p) 0 [] as = Some (r, waits)"
    "int (length waits) \<le> ep_MaxRetries p"
    using exponential_valid.exponential_ends [OF valid assms(5), of 0 as isRetriable oor "[]"]
      assms(5,6) by auto
  with exponential_valid.exponential_waits [OF valid r(1)] show ?thesis by auto
qed

theorem retry_exponential_bounded_witness:
  "\<exists>r waits. Retry (\<lambda>_. True) (exponential_interval (\<lambda>_. 0)
      \<lparr> ep_InitialInterval = second, ep_BackoffFactor = 2, ep_MaxInterval = 3 * second,
        ep_MaxRetries = 1 \<rparr>) 0 []
      [\<lparr> at_ctxErr = None, at_opErr = Some ContextCanceled, at_waitErr = None \<rparr>,
       \<lparr> at_ctxErr = None, at_opErr = None, at_waitErr = None \<rparr>] = Some (r, waits)
    \<and> int (length waits) \<le> 1"
  using retry_exponential_bounded [of "\<lparr> ep_InitialInterval = second, ep_BackoffFactor = 2,
      ep_MaxInterval = 3 * second, ep_MaxRetries = 1 \<rparr>"
      "[\<lparr> at_ctxErr = None, at_opErr = Some ContextCanceled, at_waitErr = None \<rparr>,
       \<lparr> at_ctxErr = None, at_opErr = None, at_waitErr = None \<rparr>]" "\<lambda>_. True" "\<lambda>_. 0"]
  unfolding max_int64_def by (simp del: Retry.simps) blast

end
