(* ===== verification/Runner_Node.thy ===== *)
theory Runner_Node
  imports Node_Exec Conditions Plan_Graph Backoff
begin

text \<open>
  Package \<open>runtime\<close>, file \<open>runner.go\<close>: what the runner does with one node. The goroutine of
  a node prepares it, checks its preconditions, and runs it in a loop with inline retries and
  repeats until it settles on a status. One pass of that loop meets an environment
  (\<open>iter_env\<close>): what the executor does, whether the run is seen cancelled at each check, what
  signals do to the node, and how the repeat condition evaluates. A list of passes that is too
  short leaves the loop still running (\<open>None\<close>).
\<close>

section \<open>State of the runner\<close>

datatype handler_type =
  HandlerOnInit | HandlerOnExit | HandlerOnSuccess | HandlerOnFailure | HandlerOnAbort | HandlerOnWait

record runner =
  r_maxActiveRuns :: int
  r_timeout :: duration
  r_dry :: bool
  r_forcedStatus :: "status option"
  r_canceled :: bool
  r_lastError :: "go_error option"
  r_handlers :: "handler_type \<rightharpoonup> node"
  r_completedNodes :: nat
  r_failedNodes :: nat
  r_skippedNodes :: nat
  r_canceledNodes :: nat

definition setLastError :: "go_error option \<Rightarrow> runner \<Rightarrow> runner" where
  "setLastError e r = r\<lparr>r_lastError := e\<rparr>"

definition setCanceled :: "runner \<Rightarrow> runner" where
  "setCanceled r = r\<lparr>r_canceled := True\<rparr>"

definition isTimeout :: "time \<Rightarrow> time \<Rightarrow> runner \<Rightarrow> bool" where
  "isTimeout now startedAt r \<longleftrightarrow> 0 < r_timeout r \<and> r_timeout r < now - startedAt"

section \<open>Retry and repeat decisions\<close>

definition retry_exit_code :: "go_error option \<Rightarrow> int" where
  "retry_exit_code execErr = (case exitCodeFromError execErr of Some c \<Rightarrow> c | None \<Rightarrow> 1)"

definition shouldRetryNode ::
  "bool \<Rightarrow> time \<Rightarrow> go_error option \<Rightarrow> runner \<Rightarrow> node \<Rightarrow> bool \<times> runner \<times> node" where
  "shouldRetryNode external now execErr r n =
     (if \<not> ShouldRetry (n_retryPolicy n) (retry_exit_code execErr)
      then (False, setLastError execErr r, MarkError execErr (SetStatus NodeFailed n))
      else if external
      then (False, r, SetStatus NodeRetrying (IncRetryCount n))
      else (True, r, SetStatus NodeRunning (SetRetriedAt now (IncRetryCount n))))"

text \<open>The delay before the inline retry that follows an increment of the retry count.\<close>

definition retry_delay :: "(real \<Rightarrow> duration) \<Rightarrow> node \<Rightarrow> duration" where
  "retry_delay oor n =
     (let rp = sp_RetryPolicy (n_step n) in
      CalculateBackoffInterval oor (srp_Interval rp) (srp_Backoff rp) (srp_MaxInterval rp)
        (ns_RetryCount (n_state n) - 1))"

definition repeat_delay :: "(real \<Rightarrow> duration) \<Rightarrow> node \<Rightarrow> duration" where
  "repeat_delay oor n =
     (let rp = sp_RepeatPolicy (n_step n) in
      CalculateBackoffInterval oor (rp_Interval rp) (rp_Backoff rp) (rp_MaxInterval rp)
        (ns_DoneCount (n_state n)))"

definition handleNodeExecutionError ::
  "log_matcher \<Rightarrow> bool \<Rightarrow> bool \<Rightarrow> time \<Rightarrow> time \<Rightarrow> go_error option \<Rightarrow> runner \<Rightarrow> node \<Rightarrow>
   bool \<times> runner \<times> node" where
  "handleNodeExecutionError lm external canceled now startedAt execErr r n =
     (case execErr of
        None \<Rightarrow> (False, r, n)
      | Some err \<Rightarrow>
          if Status n = NodeSucceeded \<or> Status n = NodeAborted \<or> Status n = NodePartiallySucceeded
          then (False, r, n)
          else if errors_is err DeadlineExceeded
          then (False, setLastError execErr r,
                SetStatus (if 0 < sp_Timeout (n_step n) then NodeFailed else NodeAborted) n)
          else if isTimeout now startedAt r
          then (False, setLastError execErr r, SetStatus NodeAborted n)
          else if canceled
          then (False, setLastError execErr r, n)
          else if ns_RetryCount (n_state n) < rrp_Limit (n_retryPolicy n)
          then shouldRetryNode external now execErr r n
          else
            (case ShouldMarkSuccess lm (SetStatus NodeFailed n) of
               (True, n') \<Rightarrow> (False, r, SetStatus NodeSucceeded n')
             | (False, n') \<Rightarrow> (False, setLastError execErr r, MarkError execErr n')))"

definition evalWhileCondition :: "evaluator \<Rightarrow> repeat_policy \<Rightarrow> go_error option \<Rightarrow> node \<Rightarrow> bool" where
  "evalWhileCondition ev rp execErr n =
     (case rp_Condition rp of
        Some c \<Rightarrow> ev c = None
      | None \<Rightarrow>
          if rp_ExitCode rp \<noteq> [] then ns_ExitCode (n_state n) \<in> set (rp_ExitCode rp)
          else execErr = None)"

definition evalUntilCondition :: "evaluator \<Rightarrow> repeat_policy \<Rightarrow> go_error option \<Rightarrow> node \<Rightarrow> bool" where
  "evalUntilCondition ev rp execErr n =
     (case rp_Condition rp of
        Some c \<Rightarrow> ev c \<noteq> None
      | None \<Rightarrow>
          if rp_ExitCode rp \<noteq> [] then ns_ExitCode (n_state n) \<notin> set (rp_ExitCode rp)
          else execErr \<noteq> None)"

definition shouldRepeatNode :: "evaluator \<Rightarrow> go_error option \<Rightarrow> node \<Rightarrow> bool" where
  "shouldRepeatNode ev execErr n =
     (let rp = sp_RepeatPolicy (n_step n) in
      if 0 < rp_Limit rp \<and> rp_Limit rp \<le> ns_DoneCount (n_state n) then False
      else if rp_RepeatMode rp = RepeatModeWhile then evalWhileCondition ev rp execErr n
      else if rp_RepeatMode rp = RepeatModeUntil then evalUntilCondition ev rp execErr n
      else False)"

definition prepareNodeForRepeat :: "runner \<Rightarrow> node \<Rightarrow> runner \<times> node" where
  "prepareNodeForRepeat r n =
     (let n1 = SetStatus NodeRunning n;
          r1 = (if r_lastError r = ns_Error (n_state n1) then setLastError None r else r)
      in (r1, SetRepeated True n1))"

section \<open>The execution loop of one node\<close>

record iter_env =
  ie_canceled :: bool
  ie_before :: "node \<Rightarrow> node"
  ie_during :: "node \<Rightarrow> node"
  ie_panic :: bool
  ie_outcome :: exec_outcome
  ie_after :: "node \<Rightarrow> node"
  ie_log :: log_matcher
  ie_external :: bool
  ie_canceledErr :: bool
  ie_now :: time
  ie_cond :: evaluator
  ie_canceledRepeat :: bool

datatype loop_exit = LoopBreak | LoopReturn | LoopPanic

definition execNode :: "bool \<Rightarrow> iter_env \<Rightarrow> node \<Rightarrow> node \<times> go_error option" where
  "execNode dry ie n = (if dry then (n, None) else Execute (ie_during ie) (ie_outcome ie) n)"

text \<open>
  The body of one pass: \<open>Inl\<close> leaves the loop, \<open>Inr\<close> goes on to the next pass.
  \<open>progress\<close> says whether the run has a progress channel.
\<close>

definition loop_pass ::
  "bool \<Rightarrow> time \<Rightarrow> iter_env \<Rightarrow> runner \<Rightarrow> node \<Rightarrow> runner \<times> node \<times> loop_exit + runner \<times> node" where
  "loop_pass progress startedAt ie r n0 =
     (let n = ie_before ie n0 in
      if ie_canceled ie then Inl (r, n, LoopBreak)
      else if ie_panic ie \<and> \<not> r_dry r
      then Inl (r, ie_during ie (fst (setupExecutor (ie_outcome ie) n)), LoopPanic)
      else case execNode (r_dry r) ie n of
        (n1, execErr) \<Rightarrow>
          (case handleNodeExecutionError (ie_log ie) (ie_external ie) (ie_canceledErr ie)
                  (ie_now ie) startedAt execErr r (ie_after ie n1) of
             (True, r2, n2) \<Rightarrow> Inr (r2, n2)
           | (False, r2, n2) \<Rightarrow>
               if Status n2 = NodeRetrying then Inl (r2, n2, LoopReturn)
               else
                 (let n3 = (if Status n2 \<noteq> NodeAborted then IncDoneCount n2 else n2) in
                  if shouldRepeatNode (ie_cond ie) execErr n3 \<and> \<not> ie_canceledRepeat ie
                  then Inr (prepareNodeForRepeat r2 n3)
                  else if execErr \<noteq> None \<and> progress then Inl (r2, n3, LoopReturn)
                  else Inl (r2, n3, LoopBreak))))"

fun exec_loop ::
  "bool \<Rightarrow> time \<Rightarrow> iter_env list \<Rightarrow> runner \<Rightarrow> node \<Rightarrow> (runner \<times> node \<times> loop_exit) option" where
  "exec_loop progress startedAt [] r n = None"
| "exec_loop progress startedAt (ie # ies) r n =
     (case loop_pass progress startedAt ie r n of
        Inl res \<Rightarrow> Some res
      | Inr (r', n') \<Rightarrow> exec_loop progress startedAt ies r' n')"

text \<open>The code after the loop: the final status of a node that is still running, approval,
  tear-down.\<close>

definition settle_node :: "bool \<Rightarrow> go_error option \<Rightarrow> runner \<Rightarrow> node \<Rightarrow> runner \<times> node" where
  "settle_node canceled closeErr r n =
     (let n1 = (if Status n = NodeRunning then
                  if rp_RepeatMode (sp_RepeatPolicy (n_step n)) = '''' \<and> canceled
                  then SetStatus NodeAborted n
                  else if sp_Approval (n_step n) \<noteq> None then SetStatus NodeWaiting n
                  else SetStatus NodeSucceeded n
                else n);
          n2 = (if Status n1 = NodeSucceeded \<and> sp_Approval (n_step n1) \<noteq> None
                then SetStatus NodeWaiting n1 else n1)
      in if r_dry r then (r, n2)
         else case Teardown closeErr n2 of
           (n3, None) \<Rightarrow> (r, n3)
         | (n3, Some e) \<Rightarrow> (setLastError (Some e) r, SetStatus NodeFailed n3))"

definition meetsPreconditions :: "evaluator \<Rightarrow> node \<Rightarrow> bool \<times> node" where
  "meetsPreconditions ev n =
     (case evalPreconditions ev n of
        (None, n1) \<Rightarrow> (True, n1)
      | (Some err, n1) \<Rightarrow>
          (False, (if errors_is err ErrConditionNotMet then SetStatus NodeSkipped n1
                   else SetError (Some err) (SetStatus NodeSkipped n1))))"

record run_env =
  re_prep :: prep_env
  re_pre :: evaluator
  re_inherited :: "string list option"
  re_iters :: "iter_env list"
  re_canceledEnd :: bool
  re_closeErr :: "go_error option"

definition runNodeExecution ::
  "bool \<Rightarrow> time \<Rightarrow> run_env \<Rightarrow> runner \<Rightarrow> node \<Rightarrow> (runner \<times> node \<times> bool) option" where
  "runNodeExecution progress startedAt re r n =
     (case meetsPreconditions (re_pre re) n of
        (False, n1) \<Rightarrow> Some (r, n1, False)
      | (True, n1) \<Rightarrow>
          (let n2 = (case re_inherited re of None \<Rightarrow> n1 | Some ms \<Rightarrow> SetChatMessages ms n1) in
           case exec_loop progress startedAt (re_iters re) r n2 of
             None \<Rightarrow> None
           | Some (r3, n3, LoopPanic) \<Rightarrow> Some (r3, n3, True)
           | Some (r3, n3, LoopReturn) \<Rightarrow> Some (r3, n3, False)
           | Some (r3, n3, LoopBreak) \<Rightarrow>
               (case settle_node (re_canceledEnd re) (re_closeErr re) r3 n3 of
                  (r4, n4) \<Rightarrow> Some (r4, n4, False))))"

text \<open>
  The goroutine up to its first deferred call, which announces the node on \<open>doneCh\<close>; the flag
  says whether it panicked. The other deferred calls are \<open>recoverNodePanic\<close> and
  \<open>finishNode\<close>, which run after the announcement.
\<close>

definition node_goroutine ::
  "bool \<Rightarrow> time \<Rightarrow> run_env \<Rightarrow> runner \<Rightarrow> node \<Rightarrow> (runner \<times> node \<times> bool) option" where
  "node_goroutine progress startedAt re r n =
     (case (if r_dry r then (n, None) else Prepare (re_prep re) n) of
        (n1, Some e) \<Rightarrow> Some (setLastError (Some e) r,
           SetStatus NodeFailed (MarkError (Some e) n1), False)
      | (n1, None) \<Rightarrow> runNodeExecution progress startedAt re r n1)"

definition recoverNodePanic :: "bool \<Rightarrow> nat \<Rightarrow> runner \<Rightarrow> node \<Rightarrow> runner \<times> node" where
  "recoverNodePanic panicked a r n =
     (if \<not> panicked then (r, n)
      else let e = Some (Errorf a ''panic recovered in node'')
        in ((setLastError e r)\<lparr>r_failedNodes := Suc (r_failedNodes r)\<rparr>, MarkError e n))"

definition finishNode :: "time \<Rightarrow> runner \<Rightarrow> node \<Rightarrow> runner \<times> node" where
  "finishNode now r n =
     ((case Status n of
         NodeSucceeded \<Rightarrow> r\<lparr>r_completedNodes := Suc (r_completedNodes r)\<rparr>
       | NodePartiallySucceeded \<Rightarrow> r\<lparr>r_completedNodes := Suc (r_completedNodes r)\<rparr>
       | NodeFailed \<Rightarrow> r\<lparr>r_failedNodes := Suc (r_failedNodes r)\<rparr>
       | NodeRejected \<Rightarrow> r\<lparr>r_failedNodes := Suc (r_failedNodes r)\<rparr>
       | NodeSkipped \<Rightarrow> r\<lparr>r_skippedNodes := Suc (r_skippedNodes r)\<rparr>
       | NodeAborted \<Rightarrow> r\<lparr>r_canceledNodes := Suc (r_canceledNodes r)\<rparr>
       | NodeWaiting \<Rightarrow> r
       | NodeNotStarted \<Rightarrow> r
       | NodeRunning \<Rightarrow> r
       | NodeRetrying \<Rightarrow> r),
      Finish now n)"

section \<open>Event handlers\<close>

record handler_env =
  he_prep :: prep_env
  he_pre :: evaluator
  he_outcome :: exec_outcome
  he_closeErr :: "go_error option"
  he_now :: time

definition runEventHandler :: "handler_env \<Rightarrow> bool \<Rightarrow> node \<Rightarrow> node \<times> go_error option" where
  "runEventHandler he dry n =
     (let fin = Finish (he_now he) in
      if dry then (fin (SetStatus NodeSucceeded n), None)
      else case Prepare (he_prep he) n of
        (n1, Some e) \<Rightarrow> (fin (SetStatus NodeFailed n1), None)
      | (n1, None) \<Rightarrow>
          (let close = (\<lambda>n. fin (fst (Teardown (he_closeErr he) n))) in
           case evalPreconditions (he_pre he) n1 of
             (Some e, n2) \<Rightarrow> (close (SetStatus NodeSkipped n2), None)
           | (None, n2) \<Rightarrow>
               (case Execute id (he_outcome he) (SetStatus NodeRunning n2) of
                  (n3, Some e) \<Rightarrow> (close (SetStatus NodeFailed n3), Some e)
                | (n3, None) \<Rightarrow> (close (SetStatus NodeSucceeded n3), None))))"

section \<open>What the operations leave alone\<close>

text \<open>
  The parts of a node that decide about retries: its step, retry policy and counters. Running
  the command changes none of them.
\<close>

definition same_policy :: "node \<Rightarrow> node \<Rightarrow> bool" where
  "same_policy n n' \<longleftrightarrow> n_id n' = n_id n \<and> n_step n' = n_step n \<and> n_retryPolicy n' = n_retryPolicy n
     \<and> ns_RetryCount (n_state n') = ns_RetryCount (n_state n)
     \<and> ns_DoneCount (n_state n') = ns_DoneCount (n_state n)"

lemma same_policy_refl [simp]: "same_policy n n"
  by (simp add: same_policy_def)

lemma same_policy_trans [trans]: "same_policy n m \<Longrightarrow> same_policy m k \<Longrightarrow> same_policy n k"
  by (simp add: same_policy_def)

text \<open>A signal or a cancellation can only abort a node that runs or waits.\<close>

definition abort_effect :: "(node \<Rightarrow> node) \<Rightarrow> bool" where
  "abort_effect f \<longleftrightarrow> (\<forall>n. f n = n \<or>
     (Status n = NodeRunning \<or> Status n = NodeWaiting) \<and> f n = SetStatus NodeAborted n)"

lemma abort_effect_signal: "abort_effect (node_Signal term_sig term_stop allowOverride)"
  by (auto simp: abort_effect_def node_Signal_def)

lemma abort_effect_cancel: "abort_effect node_Cancel"
  by (auto simp: abort_effect_def node_Cancel_def)

lemma abort_effect_id [simp]: "abort_effect id"
  by (simp add: abort_effect_def)

lemma same_policy_setters [simp]:
  "same_policy n (SetStatus st m) \<longleftrightarrow> same_policy n m"
  "same_policy n (SetError e m) \<longleftrightarrow> same_policy n m"
  "same_policy n (MarkError e m) \<longleftrightarrow> same_policy n m"
  "same_policy n (SetExitCode c m) \<longleftrightarrow> same_policy n m"
  "same_policy n (ResetError m) \<longleftrightarrow> same_policy n m"
  "same_policy n (SetChatMessages ms m) \<longleftrightarrow> same_policy n m"
  "same_policy n (SetSubRuns rs m) \<longleftrightarrow> same_policy n m"
  "same_policy n (AddSubRunsRepeated rs m) \<longleftrightarrow> same_policy n m"
  "same_policy n (SetToolDefinitions ts m) \<longleftrightarrow> same_policy n m"
  "same_policy n (setOutputValue v m) \<longleftrightarrow> same_policy n m"
  "same_policy n (setVariable k v m) \<longleftrightarrow> same_policy n m"
  "same_policy n (setBoolVariable k b m) \<longleftrightarrow> same_policy n m"
  "same_policy n (ClearVariable k m) \<longleftrightarrow> same_policy n m"
  "same_policy n (SetRepeated b m) \<longleftrightarrow> same_policy n m"
  "same_policy n (SetRetriedAt t m) \<longleftrightarrow> same_policy n m"
  "same_policy n (m\<lparr>n_done := d\<rparr>) \<longleftrightarrow> same_policy n m"
  "same_policy n (m\<lparr>n_cmd := d\<rparr>) \<longleftrightarrow> same_policy n m"
  by (simp_all add: same_policy_def node_simps split: option.splits)

lemma abort_effect_same:
  assumes "abort_effect f"
  shows "same_policy n (f m) \<longleftrightarrow> same_policy n m"
proof -
  have "f m = m \<or> f m = SetStatus NodeAborted m" using assms by (auto simp: abort_effect_def)
  then show ?thesis by auto
qed

lemma abort_effect_Status:
  assumes "abort_effect f"
  shows "Status (f m) = Status m \<or> Status (f m) = NodeAborted"
proof -
  have "f m = m \<or> f m = SetStatus NodeAborted m" using assms by (auto simp: abort_effect_def)
  then show ?thesis by (auto simp: SetStatus_def)
qed

lemma setupExecutor_same: "same_policy n (fst (setupExecutor xo n))"
  by (simp add: setupExecutor_def resetForExecution_def Let_def split: option.splits sum.splits)

lemma runCommand_same:
  "runCommand xo t n = (c, e, n') \<Longrightarrow> same_policy m n' \<longleftrightarrow> same_policy m n"
  by (auto simp: runCommand_def handleTimeout_def handleCommandError_def Let_def
      split: option.splits if_splits)

lemma captureOutput_same:
  "captureOutput xo n = (n', e) \<Longrightarrow> same_policy m n' \<longleftrightarrow> same_policy m n"
  by (auto simp: captureOutput_def split: if_splits sum.splits)

lemma captureExecutorState_same: "same_policy m (captureExecutorState xo n) \<longleftrightarrow> same_policy m n"
  by (simp add: captureExecutorState_def Let_def split: option.splits)

lemma determineNodeStatus_same:
  "determineNodeStatus xo n = (n', e) \<Longrightarrow> same_policy m n' \<longleftrightarrow> same_policy m n"
  by (auto simp: determineNodeStatus_def split: option.splits sum.splits)

lemma Execute_same:
  assumes "abort_effect sg"
  shows "same_policy n (fst (Execute sg xo n))"
proof (cases "setupExecutor xo n")
  case (Pair n1 e)
  then have n1: "same_policy n n1" using setupExecutor_same [of n xo] by simp
  show ?thesis
  proof (cases e)
    case (Some err)
    with Pair n1 show ?thesis by (simp add: Execute_def)
  next
    case None
    let ?t = "if 0 < sp_Timeout (n_step n) then sp_Timeout (n_step n) else 0"
    obtain c err n2 where run: "runCommand xo ?t (sg n1) = (c, err, n2)" by (metis prod_cases3)
    have n2: "same_policy n n2"
      using runCommand_same [OF run] abort_effect_same [OF assms] n1 by simp
    obtain n3 e3 where cap: "captureOutput xo
        (captureExecutorState xo (SetExitCode c (SetError err n2))) = (n3, e3)" by fastforce
    have n3: "same_policy n n3"
      using captureOutput_same [OF cap] n2 by (simp add: captureExecutorState_same)
    obtain n4 e4 where det: "determineNodeStatus xo n3 = (n4, e4)" by fastforce
    have "same_policy n n4" using determineNodeStatus_same [OF det] n3 by simp
    with Pair None run cap det n3 show ?thesis
      by (cases e3) (simp_all add: Execute_def)
  qed
qed

lemma ShouldMarkSuccess_same:
  "ShouldMarkSuccess lm n = (b, n') \<Longrightarrow> same_policy m n' \<longleftrightarrow> same_policy m n"
  by (auto simp: ShouldMarkSuccess_def ShouldContinue_def Let_def
      split: prod.splits if_splits node_status.splits option.splits sum.splits)

text \<open>Error handling either asks for one more inline retry, within the limit, or keeps the
  retry count (a retry handed to the parent apart).\<close>

lemma handle_retry:
  assumes "handleNodeExecutionError lm ext canc now st e r n = (True, r', n')"
  shows "ns_RetryCount (n_state n) < rrp_Limit (n_retryPolicy n)
    \<and> ns_RetryCount (n_state n') = ns_RetryCount (n_state n) + 1
    \<and> n_retryPolicy n' = n_retryPolicy n \<and> n_step n' = n_step n
    \<and> ns_DoneCount (n_state n') = ns_DoneCount (n_state n) \<and> r' = r"
  using assms
  by (auto simp: handleNodeExecutionError_def shouldRetryNode_def node_simps
      split: option.splits if_splits prod.splits bool.splits)

lemma handle_no_retry:
  assumes "handleNodeExecutionError lm ext canc now st e r n = (False, r', n')"
    and "Status n' \<noteq> NodeRetrying"
  shows "same_policy n n'"
proof -
  have "same_policy n n'" if "ShouldMarkSuccess lm (SetStatus NodeFailed n) = (b, n1)"
    "n' = SetStatus s n1 \<or> n' = MarkError e n1" for b n1 s
    using ShouldMarkSuccess_same [OF that(1), of n] that(2) by auto
  with assms show ?thesis
    by (auto simp: handleNodeExecutionError_def shouldRetryNode_def
        split: option.splits if_splits prod.splits bool.splits) (simp_all add: node_simps)
qed

section \<open>Termination of the execution loop\<close>

definition signals_only :: "iter_env \<Rightarrow> bool" where
  "signals_only ie \<longleftrightarrow>
     abort_effect (ie_before ie) \<and> abort_effect (ie_during ie) \<and> abort_effect (ie_after ie)"

definition repeats :: "node \<Rightarrow> bool" where
  "repeats n \<longleftrightarrow> rp_RepeatMode (sp_RepeatPolicy (n_step n)) \<in> {RepeatModeWhile, RepeatModeUntil}"

lemma execNode_same:
  "signals_only ie \<Longrightarrow> execNode dry ie n = (n', e) \<Longrightarrow> same_policy n (ie_after ie n')"
  using Execute_same [of "ie_during ie" n "ie_outcome ie"]
  by (auto simp: execNode_def signals_only_def abort_effect_same split: if_splits)

lemma no_repeat_shouldRepeatNode: "\<not> repeats n \<Longrightarrow> \<not> shouldRepeatNode ev e n"
  by (auto simp: repeats_def shouldRepeatNode_def Let_def)

lemma pass_continues:
  assumes sig: "signals_only ie" and norep: "\<not> repeats n"
    and pass: "loop_pass progress startedAt ie r n = Inr (r', n')"
  shows "ns_RetryCount (n_state n) < rrp_Limit (n_retryPolicy n)
    \<and> ns_RetryCount (n_state n') = ns_RetryCount (n_state n) + 1
    \<and> n_retryPolicy n' = n_retryPolicy n \<and> n_step n' = n_step n"
proof -
  let ?m = "ie_before ie n"
  have m: "same_policy n ?m" using sig by (simp add: signals_only_def abort_effect_same)
  obtain n1 e where ex: "execNode (r_dry r) ie ?m = (n1, e)" by fastforce
  have "same_policy ?m (ie_after ie n1)" using execNode_same [OF sig ex] .
  with m have n1: "same_policy n (ie_after ie n1)" by (rule same_policy_trans)
  obtain b r2 n2 where h: "handleNodeExecutionError (ie_log ie) (ie_external ie)
      (ie_canceledErr ie) (ie_now ie) startedAt e r (ie_after ie n1) = (b, r2, n2)"
    by (metis prod_cases3)
  have "b"
  proof (rule ccontr)
    assume "\<not> b"
    then have ret: "Status n2 \<noteq> NodeRetrying"
      using pass ex h by (auto simp: loop_pass_def Let_def split: if_splits)
    have "same_policy (ie_after ie n1) n2"
      by (rule handle_no_retry) (use h \<open>\<not> b\<close> ret in auto)
    with n1 have "same_policy n n2" by (rule same_policy_trans)
    then have "\<not> repeats n2" "\<not> repeats (IncDoneCount n2)"
      using norep by (simp_all add: repeats_def same_policy_def IncDoneCount_def)
    with pass ex h ret \<open>\<not> b\<close> show False
      by (auto simp: loop_pass_def Let_def no_repeat_shouldRepeatNode split: if_splits)
  qed
  with pass ex h have "n' = n2" by (auto simp: loop_pass_def Let_def split: if_splits)
  moreover have "handleNodeExecutionError (ie_log ie) (ie_external ie)
      (ie_canceledErr ie) (ie_now ie) startedAt e r (ie_after ie n1) = (True, r2, n2)"
    using h \<open>b\<close> by simp
  note handle_retry [OF this]
  ultimately show ?thesis using n1 by (simp add: same_policy_def)
qed

lemma exec_loop_returns:
  assumes "\<forall>ie \<in> set ies. signals_only ie" and "\<not> repeats n"
    and "ies \<noteq> []" and "rrp_Limit (n_retryPolicy n) - ns_RetryCount (n_state n) < int (length ies)"
  shows "\<exists>res. exec_loop progress startedAt ies r n = Some res"
  using assms
proof (induction ies arbitrary: r n)
  case (Cons ie ies)
  show ?case
  proof (cases "loop_pass progress startedAt ie r n")
    case (Inl res)
    then show ?thesis by (cases res) simp
  next
    case (Inr rn)
    obtain r' n' where rn: "rn = (r', n')" by fastforce
    from pass_continues [OF _ Cons.prems(2)] Cons.prems(1) Inr rn have
      c: "ns_RetryCount (n_state n) < rrp_Limit (n_retryPolicy n)"
      "ns_RetryCount (n_state n') = ns_RetryCount (n_state n) + 1"
      "n_retryPolicy n' = n_retryPolicy n" "n_step n' = n_step n" by auto
    have "ies \<noteq> []" using c(1) Cons.prems(4) by auto
    moreover have "\<not> repeats n'" using c(4) Cons.prems(2) by (simp add: repeats_def)
    moreover have "rrp_Limit (n_retryPolicy n') - ns_RetryCount (n_state n') < int (length ies)"
      using c Cons.prems(4) by simp
    ultimately have "\<exists>res. exec_loop progress startedAt ies r' n' = Some res"
      using Cons.prems(1) by (intro Cons.IH) simp_all
    with Inr rn show ?thesis by simp
  qed
qed simp

section \<open>The final status\<close>

lemma handle_settles:
  "handleNodeExecutionError lm ext False now st (Some e) r n = (False, r', n') \<Longrightarrow>
   Status n' \<noteq> NodeRunning \<and> Status n' \<noteq> NodeNotStarted"
  by (auto simp: handleNodeExecutionError_def shouldRetryNode_def node_simps
      split: if_splits prod.splits bool.splits)

lemma pass_returns_settled:
  assumes "loop_pass progress startedAt ie r n = Inl (r', n', LoopReturn)"
    and "\<not> ie_canceledErr ie"
  shows "Status n' \<noteq> NodeRunning"
proof -
  obtain n1 e where ex: "execNode (r_dry r) ie (ie_before ie n) = (n1, e)" by fastforce
  obtain b r2 n2 where h: "handleNodeExecutionError (ie_log ie) (ie_external ie)
      (ie_canceledErr ie) (ie_now ie) startedAt e r (ie_after ie n1) = (b, r2, n2)"
    by (metis prod_cases3)
  have b: "\<not> b" using assms(1) ex h by (auto simp: loop_pass_def Let_def split: if_splits)
  show ?thesis
  proof (cases "Status n2 = NodeRetrying")
    case True
    with assms(1) ex h b show ?thesis by (auto simp: loop_pass_def Let_def split: if_splits)
  next
    case False
    with assms(1) ex h b have "e \<noteq> None" and n': "Status n' = Status n2"
      by (auto simp: loop_pass_def Let_def IncDoneCount_def split: if_splits)
    then obtain err where "e = Some err" by blast
    with handle_settles h b assms(2) n' show ?thesis by auto
  qed
qed

lemma exec_loop_return_settled:
  "exec_loop progress startedAt ies r n = Some (r', n', LoopReturn) \<Longrightarrow>
   \<forall>ie \<in> set ies. \<not> ie_canceledErr ie \<Longrightarrow> Status n' \<noteq> NodeRunning"
proof (induction progress startedAt ies r n rule: exec_loop.induct)
  case (2 progress startedAt ie ies r n)
  show ?case
  proof (cases "loop_pass progress startedAt ie r n")
    case (Inl res)
    with 2 show ?thesis using pass_returns_settled by (cases res) auto
  next
    case (Inr rn)
    with 2 show ?thesis by (cases rn) auto
  qed
qed simp

lemma settle_node_settles:
  "settle_node canceled closeErr r n = (r', n') \<Longrightarrow> Status n' \<noteq> NodeRunning"
  by (auto simp: settle_node_def Let_def Teardown_def node_simps
      split: if_splits option.splits prod.splits)

lemma runNodeExecution_settles:
  assumes "runNodeExecution progress startedAt re r n = Some (r', n', False)"
    and "\<forall>ie \<in> set (re_iters re). \<not> ie_canceledErr ie"
  shows "Status n' \<noteq> NodeRunning"
proof -
  obtain ok n1 where pre: "meetsPreconditions (re_pre re) n = (ok, n1)" by fastforce
  show ?thesis
  proof (cases ok)
    case False
    with assms(1) pre show ?thesis
      by (auto simp: runNodeExecution_def meetsPreconditions_def node_simps
          split: prod.splits option.splits if_splits)
  next
    case True
    let ?n2 = "case re_inherited re of None \<Rightarrow> n1 | Some ms \<Rightarrow> SetChatMessages ms n1"
    from assms(1) pre True obtain r3 n3 x where
      loop: "exec_loop progress startedAt (re_iters re) r ?n2 = Some (r3, n3, x)"
      by (auto simp: runNodeExecution_def Let_def split: option.splits)
    show ?thesis
    proof (cases x)
      case LoopBreak
      with assms(1) pre True loop have
        "settle_node (re_canceledEnd re) (re_closeErr re) r3 n3 = (r', n')"
        by (auto simp: runNodeExecution_def Let_def split: prod.splits)
      then show ?thesis by (rule settle_node_settles)
    next
      case LoopReturn
      with exec_loop_return_settled [OF loop [unfolded LoopReturn] assms(2)] assms(1) pre True loop
      show ?thesis by (auto simp: runNodeExecution_def Let_def)
    next
      case LoopPanic
      with assms(1) pre True loop show ?thesis by (auto simp: runNodeExecution_def Let_def)
    qed
  qed
qed

section \<open>Sample environments\<close>

definition ok_outcome :: exec_outcome where
  "ok_outcome = \<lparr> xo_setupErr = None, xo_ioErr = None, xo_buildRuns = Inr [], xo_configErr = None,
     xo_runErr = None, xo_deadline = False, xo_elapsed = 0, xo_alloc = 0, xo_exitCoder = None,
     xo_messages = None, xo_subRuns = None, xo_toolDefs = None, xo_stdout = Inr '''',
     xo_structured = Inr '''', xo_status = None \<rparr>"

text \<open>A command that exits with code 1.\<close>

definition fail_outcome :: exec_outcome where
  "fail_outcome = ok_outcome\<lparr>xo_runErr := Some (ExitError 1 1 ''exit status 1'')\<rparr>"

definition plain_iter :: "exec_outcome \<Rightarrow> iter_env" where
  "plain_iter xo = \<lparr> ie_canceled = False, ie_before = id, ie_during = id, ie_panic = False,
     ie_outcome = xo, ie_after = id, ie_log = (\<lambda>_ _. Inr False), ie_external = False,
     ie_canceledErr = False, ie_now = 0, ie_cond = (\<lambda>_. None), ie_canceledRepeat = False \<rparr>"

definition plain_prep :: prep_env where
  "plain_prep = \<lparr> pe_mkdirErr = None, pe_evalStr = Inr, pe_merged = False, pe_alloc = 0,
     pe_logFile = ''log'', pe_now = 1, pe_outputsErr = None, pe_evalInt = (\<lambda>_. Inr 0) \<rparr>"

definition plain_runner :: runner where
  "plain_runner = \<lparr> r_maxActiveRuns = 0, r_timeout = 0, r_dry = False, r_forcedStatus = None,
     r_canceled = False, r_lastError = None, r_handlers = Map.empty, r_completedNodes = 0,
     r_failedNodes = 0, r_skippedNodes = 0, r_canceledNodes = 0 \<rparr>"

definition running_node :: "step \<Rightarrow> node" where
  "running_node s = NewNode s (zero_node_state\<lparr>ns_Status := NodeRunning\<rparr>)"

definition until_step :: step where
  "until_step = zero_step\<lparr>sp_RepeatPolicy :=
     (sp_RepeatPolicy zero_step)\<lparr>rp_RepeatMode := RepeatModeUntil, rp_Limit := 1\<rparr>\<rparr>"

lemmas sample_simps = plain_prep_def ok_outcome_def fail_outcome_def plain_iter_def plain_runner_def
  running_node_def zero_step_def zero_node_state_def zero_retry_policy_def NewNode_def

lemmas loop_simps = loop_pass_def Let_def execNode_def Execute_def setupExecutor_def
  resetForExecution_def runCommand_def handleTimeout_def handleCommandError_def
  captureOutput_def captureExecutorState_def determineNodeStatus_def
  handleNodeExecutionError_def shouldRetryNode_def ShouldMarkSuccess_def ShouldContinue_def
  shouldRepeatNode_def evalWhileCondition_def evalUntilCondition_def prepareNodeForRepeat_def
  setLastError_def isTimeout_def exitCodeFromError_def retry_exit_code_def ShouldRetry_def
  MatchExitCode_def getBoolVariable_def getVariable_def node_simps

lemma goroutine_not_running:
  assumes "node_goroutine progress startedAt re r n = Some (r', n', False)"
    and "\<forall>ie \<in> set (re_iters re). \<not> ie_canceledErr ie"
  shows "Status n' \<noteq> NodeRunning"
proof -
  obtain n1 e where prep: "(if r_dry r then (n, None) else Prepare (re_prep re) n) = (n1, e)"
    by fastforce
  show ?thesis
  proof (cases e)
    case None
    with assms(1) prep have "runNodeExecution progress startedAt re r n1 = Some (r', n', False)"
      by (simp add: node_goroutine_def)
    then show ?thesis using assms(2) by (rule runNodeExecution_settles)
  next
    case (Some err)
    with assms(1) prep show ?thesis by (auto simp: node_goroutine_def SetStatus_def)
  qed
qed

section \<open>Properties\<close>

text \<open>
  C22: a node without a repeat policy runs its command at most once more than its remaining
  retries: whatever the command, signals and cancellation do, the execution loop has returned
  by then.
\<close>

theorem exec_loop_bounded:
  assumes "\<forall>ie \<in> set ies. signals_only ie"
    and "rp_RepeatMode (sp_RepeatPolicy (n_step n)) \<notin> {RepeatModeWhile, RepeatModeUntil}"
    and "int (length ies) = max 0 (rrp_Limit (n_retryPolicy n) - ns_RetryCount (n_state n)) + 1"
  shows "\<exists>r' n' x. exec_loop progress startedAt ies r n = Some (r', n', x)"
proof -
  have "ies \<noteq> []" using assms(3) by auto
  moreover have "\<not> repeats n" using assms(2) by (simp add: repeats_def)
  ultimately have "\<exists>res. exec_loop progress startedAt ies r n = Some res"
    using assms(1,3) by (intro exec_loop_returns) auto
  then show ?thesis by (auto simp: split_paired_Ex)
qed

theorem exec_loop_bounded_witness:
  "\<exists>r' n' x. exec_loop True 0 [plain_iter fail_outcome, plain_iter fail_outcome] plain_runner
     ((running_node zero_step)\<lparr>n_retryPolicy :=
        \<lparr> rrp_Limit = 1, rrp_Interval = 0, rrp_ExitCodes = [] \<rparr>\<rparr>) = Some (r', n', x)"
  using exec_loop_bounded [of "[plain_iter fail_outcome, plain_iter fail_outcome]"
      "(running_node zero_step)\<lparr>n_retryPolicy :=
        \<lparr> rrp_Limit = 1, rrp_Interval = 0, rrp_ExitCodes = [] \<rparr>\<rparr>" True 0 plain_runner]
  by (simp add: sample_simps signals_only_def del: exec_loop.simps)

text \<open>
  C23: when the goroutine of a node ends without a panic and the run was not cancelled while an
  error was handled, the node is no longer running: it succeeded, failed, was skipped or
  aborted, waits for approval, or awaits a retry by the parent.
\<close>

theorem goroutine_settles:
  assumes "node_goroutine progress startedAt re r n = Some (r', n', False)"
    and "\<forall>ie \<in> set (re_iters re). \<not> ie_canceledErr ie"
  shows "Status n' \<noteq> NodeRunning"
  using assms by (rule goroutine_not_running)

theorem goroutine_settles_witness:
  "\<exists>r' n'. node_goroutine True 0
      \<lparr> re_prep = plain_prep,
        re_pre = (\<lambda>_. None), re_inherited = None, re_iters = [plain_iter fail_outcome],
        re_canceledEnd = False, re_closeErr = None \<rparr>
      plain_runner (running_node zero_step) = Some (r', n', False) \<and> Status n' \<noteq> NodeRunning"
proof -
  let ?re = "\<lparr> re_prep = plain_prep,
        re_pre = (\<lambda>_. None), re_inherited = None, re_iters = [plain_iter fail_outcome],
        re_canceledEnd = False, re_closeErr = None \<rparr>"
  have "\<exists>r' n'. node_goroutine True 0 ?re plain_runner (running_node zero_step) = Some (r', n', False)"
    by (simp add: node_goroutine_def Prepare_def Setup_def setupRetryPolicy_def
        setupRepeatPolicy_def eval_seconds_def runNodeExecution_def meetsPreconditions_def
        evalPreconditions_def wrap_err_def sample_simps loop_simps)
  moreover have "\<forall>ie \<in> set (re_iters ?re). \<not> ie_canceledErr ie" by (simp add: plain_iter_def)
  ultimately show ?thesis using goroutine_settles by blast
qed

text \<open>
  The exception in the previous property is real. A node with a repeat policy whose command
  fails after the run was cancelled leaves its goroutine still marked as running, since signals
  skip such nodes and the error path for a cancelled run returns before the final status is
  set. \<open>Signal\<close> then waits for \<open>HasActiveNodes\<close> to become false, which it never does.
\<close>

theorem cancelled_repeat_stays_running:
  "\<exists>r' n'. runNodeExecution True 0
      \<lparr> re_prep = plain_prep, re_pre = (\<lambda>_. None), re_inherited = None,
        re_iters = [(plain_iter fail_outcome)\<lparr>ie_canceledErr := True, ie_canceledRepeat := True\<rparr>],
        re_canceledEnd = True, re_closeErr = None \<rparr>
      plain_runner
      (running_node (zero_step\<lparr>sp_RepeatPolicy :=
         (sp_RepeatPolicy zero_step)\<lparr>rp_RepeatMode := RepeatModeWhile\<rparr>\<rparr>))
      = Some (r', n', False) \<and> Status n' = NodeRunning"
  by (simp add: runNodeExecution_def meetsPreconditions_def evalPreconditions_def
      sample_simps loop_simps)

lemma Execute_fail:
  assumes "n_step n = until_step" "Status n = NodeRunning"
  shows "\<exists>n1. Execute id fail_outcome n = (n1, Some (ExitError 1 1 ''exit status 1''))
    \<and> same_policy n n1 \<and> Status n1 = NodeRunning"
proof -
  have step: "sp_Output until_step = []" "\<not> sp_StructuredOutput until_step"
    "\<not> sp_SubDAG until_step" "sp_Timeout until_step = 0"
    by (simp_all add: until_step_def zero_step_def)
  have "\<exists>n1. setupExecutor fail_outcome n = (n1, None) \<and> n_step n1 = until_step
      \<and> Status n1 = NodeRunning"
    using assms step by (simp add: setupExecutor_def resetForExecution_def Let_def
        fail_outcome_def ok_outcome_def node_simps split: option.splits)
  then obtain n1 where n1: "setupExecutor fail_outcome n = (n1, None)" "n_step n1 = until_step"
    "Status n1 = NodeRunning" by blast
  then have "\<exists>n2. Execute id fail_outcome n = (n2, Some (ExitError 1 1 ''exit status 1''))
      \<and> Status n2 = NodeRunning"
    using assms(1) step by (simp add: Execute_def runCommand_def handleCommandError_def Let_def
        exitCodeFromError_def fail_outcome_def ok_outcome_def captureExecutorState_def
        captureOutput_def determineNodeStatus_def node_simps)
  then show ?thesis using Execute_same [OF abort_effect_id, of n fail_outcome] by auto
qed

lemma until_pass:
  assumes "n_step n = until_step" "ns_DoneCount (n_state n) = 0" "Status n = NodeRunning"
    and "r_timeout r = second" "\<not> r_dry r"
  shows "\<exists>r' n'. loop_pass progress 0
      ((plain_iter fail_outcome)\<lparr>ie_now := 2 * second\<rparr>) r n = Inr (r', n')
    \<and> n_step n' = until_step \<and> ns_DoneCount (n_state n') = 0 \<and> Status n' = NodeRunning
    \<and> r_timeout r' = second \<and> \<not> r_dry r'"
proof -
  let ?e = "ExitError 1 1 ''exit status 1''"
  obtain n1 where n1: "Execute id fail_outcome n = (n1, Some ?e)" "same_policy n n1"
    "Status n1 = NodeRunning" using Execute_fail [OF assms(1,3)] by blast
  have step: "n_step n1 = until_step" "ns_DoneCount (n_state n1) = 0"
    using n1(2) assms(1,2) by (simp_all add: same_policy_def)
  have handle: "handleNodeExecutionError lm ext False (2 * second) 0 (Some ?e) r n1 =
      (False, setLastError (Some ?e) r, SetStatus NodeAborted n1)" for lm ext
    using n1(3) assms(4) by (simp add: handleNodeExecutionError_def isTimeout_def)
  have rep: "shouldRepeatNode ev (Some ?e) (SetStatus NodeAborted n1)" for ev
    using step by (simp add: shouldRepeatNode_def evalUntilCondition_def until_step_def
        zero_step_def Let_def SetStatus_def)
  show ?thesis
    using assms(5) n1(1) handle rep step assms(4)
    by (simp add: loop_pass_def Let_def plain_iter_def execNode_def prepareNodeForRepeat_def
        setLastError_def SetStatus_def SetRepeated_def)
qed

lemma until_loop:
  assumes "n_step n = until_step" "ns_DoneCount (n_state n) = 0" "Status n = NodeRunning"
    and "r_timeout r = second" "\<not> r_dry r"
  shows "exec_loop progress 0
    (replicate k ((plain_iter fail_outcome)\<lparr>ie_now := 2 * second\<rparr>)) r n = None"
  using assms
proof (induction k arbitrary: r n)
  case (Suc k)
  with until_pass [of n r progress] show ?case by auto
qed simp

text \<open>
  A DAG timeout does not stop a step that repeats until it succeeds. The timeout marks each
  failed pass as aborted without cancelling the run, an aborted pass does not count towards the
  repeat limit, and the failure asks for another pass: no number of passes makes the loop
  return, even with a repeat limit of one.
\<close>

theorem until_repeat_ignores_timeout:
  "exec_loop progress 0 (replicate k ((plain_iter fail_outcome)\<lparr>ie_now := 2 * second\<rparr>))
     (plain_runner\<lparr>r_timeout := second\<rparr>) (running_node until_step) = None"
  by (rule until_loop) (simp_all add: sample_simps)

text \<open>
  \<open>continueOn.markSuccess\<close> depends on the retry policy. A step that may be marked successful
  on exit code 1 ends as succeeded when it has no retries, but as failed when it has a retry
  left whose exit codes exclude 1.
\<close>

theorem mark_success_needs_no_retries:
  "let s = zero_step\<lparr>sp_ContinueOn := (sp_ContinueOn zero_step)\<lparr>co_ExitCode := [1],
         co_MarkSuccess := True\<rparr>\<rparr>;
       result = (\<lambda>n. map_option (\<lambda>(r', n', x). Status n')
         (exec_loop True 0 [plain_iter fail_outcome] plain_runner n))
   in result (running_node s) = Some NodeSucceeded
    \<and> result ((running_node s)\<lparr>n_retryPolicy :=
         \<lparr> rrp_Limit = 1, rrp_Interval = 0, rrp_ExitCodes = [2] \<rparr>\<rparr>) = Some NodeFailed"
  by (simp add: sample_simps loop_simps)

text \<open>
  A step with a repeat policy that is cancelled before its first pass is reported as
  succeeded although its command never ran.
\<close>

theorem repeat_cancelled_before_start:
  "\<exists>r' n'. runNodeExecution True 0
      \<lparr> re_prep = plain_prep, re_pre = (\<lambda>_. None), re_inherited = None,
        re_iters = [(plain_iter ok_outcome)\<lparr>ie_canceled := True\<rparr>],
        re_canceledEnd = True, re_closeErr = None \<rparr>
      plain_runner
      (running_node (zero_step\<lparr>sp_RepeatPolicy :=
         (sp_RepeatPolicy zero_step)\<lparr>rp_RepeatMode := RepeatModeWhile\<rparr>\<rparr>))
      = Some (r', n', False) \<and> Status n' = NodeSucceeded \<and> ns_DoneCount (n_state n') = 0
      \<and> \<not> n_cmd n'"
  by (simp add: runNodeExecution_def meetsPreconditions_def evalPreconditions_def
      settle_node_def Teardown_def sample_simps loop_simps)

end
