(* ===== verification/Runner_Status.thy ===== *)
theory Runner_Status
  imports Runner_Node
begin

text \<open>
  Package \<open>runtime\<close>, file \<open>runner.go\<close>: the decisions over a whole plan. \<open>isReady\<close> says
  whether the dependencies of a node allow it to start and marks it when they rule it out,
  \<open>processCompletedNode\<close> hands the dependents of a finished node on, \<open>Status\<close> computes the
  status of the run, \<open>Signal\<close> and \<open>Cancel\<close> stop it. A node is its position in the plan.
  Asking \<open>ShouldContinue\<close> fills a cache in the node, so these operations return the plan.
\<close>

section \<open>Readiness\<close>

definition ErrUpstreamFailed :: go_error where
  "ErrUpstreamFailed = Sentinel ''upstream failed''"

definition ErrUpstreamSkipped :: go_error where
  "ErrUpstreamSkipped = Sentinel ''upstream skipped''"

definition ErrUpstreamRejected :: go_error where
  "ErrUpstreamRejected = Sentinel ''upstream rejected''"

definition ErrDeadlockDetected :: go_error where
  "ErrDeadlockDetected = Sentinel ''deadlock detected: no runnable nodes but DAG not finished''"

abbreviation status_at :: "plan \<Rightarrow> nat \<Rightarrow> node_status" where
  "status_at p i \<equiv> Status (p_nodes p ! i)"

text \<open>\<open>ShouldContinue\<close> of the node at a position, with the cache written back.\<close>

definition continue_at :: "log_matcher \<Rightarrow> nat \<Rightarrow> plan \<Rightarrow> bool \<times> plan" where
  "continue_at lm j p =
     (case ShouldContinue lm (p_nodes p ! j) of (ok, n) \<Rightarrow> (ok, update_node j (\<lambda>_. n) p))"

definition rule_out :: "node_status \<Rightarrow> go_error \<Rightarrow> node \<Rightarrow> node" where
  "rule_out s e n = SetError (Some e) (SetStatus s n)"

text \<open>
  The loop over the dependency ids of the node at position \<open>i\<close>. An id that no node has makes
  the source panic; well-formed plans have none, and the model then answers that the node is
  not ready.
\<close>

fun ready_deps :: "log_matcher \<Rightarrow> nat \<Rightarrow> nat list \<Rightarrow> plan \<Rightarrow> bool \<times> plan" where
  "ready_deps lm i [] p = (True, p)"
| "ready_deps lm i (depID # ds) p =
     (case p_nodeByID p depID of
        None \<Rightarrow> (False, p)
      | Some j \<Rightarrow>
          (case status_at p j of
             NodeSucceeded \<Rightarrow> ready_deps lm i ds p
           | NodePartiallySucceeded \<Rightarrow> ready_deps lm i ds p
           | NodeFailed \<Rightarrow>
               (case continue_at lm j p of
                  (True, p') \<Rightarrow> ready_deps lm i ds p'
                | (False, p') \<Rightarrow> (False, update_node i (rule_out NodeAborted ErrUpstreamFailed) p'))
           | NodeSkipped \<Rightarrow>
               if ns_SkippedByRetry (n_state (p_nodes p ! j)) then ready_deps lm i ds p
               else (case continue_at lm j p of
                  (True, p') \<Rightarrow> ready_deps lm i ds p'
                | (False, p') \<Rightarrow> (False, update_node i (rule_out NodeSkipped ErrUpstreamSkipped) p'))
           | NodeAborted \<Rightarrow> (False, update_node i (SetStatus NodeAborted) p)
           | NodeRejected \<Rightarrow> (False, update_node i (rule_out NodeAborted ErrUpstreamRejected) p)
           | NodeNotStarted \<Rightarrow> (False, p)
           | NodeRunning \<Rightarrow> (False, p)
           | NodeRetrying \<Rightarrow> (False, p)
           | NodeWaiting \<Rightarrow> (False, p)))"

definition isReady :: "log_matcher \<Rightarrow> nat \<Rightarrow> plan \<Rightarrow> bool \<times> plan" where
  "isReady lm i p = ready_deps lm i (Dependencies p (n_id (p_nodes p ! i))) p"

section \<open>Handing on the dependents\<close>

text \<open>
  \<open>readyCh\<close> is a buffered channel that only the event loop receives from. A send to the full
  channel from the event loop therefore blocks for ever: the result is \<open>None\<close>.
\<close>

definition send :: "nat \<Rightarrow> nat list \<Rightarrow> nat \<Rightarrow> nat list option" where
  "send cap ch i = (if length ch < cap then Some (ch @ [i]) else None)"

fun process_children ::
  "log_matcher \<Rightarrow> nat \<Rightarrow> nat list \<Rightarrow> plan \<Rightarrow> nat list \<Rightarrow> nat list \<Rightarrow>
   (plan \<times> nat list \<times> nat list) option" where
  "process_children lm cap [] p readyCh queue = Some (p, readyCh, queue)"
| "process_children lm cap (childID # cs) p readyCh queue =
     (case p_nodeByID p childID of
        None \<Rightarrow> process_children lm cap cs p readyCh queue
      | Some c \<Rightarrow>
          if status_at p c = NodeNotStarted
          then case isReady lm c p of
                 (True, p') \<Rightarrow>
                   (case send cap readyCh c of
                      None \<Rightarrow> None
                    | Some ch \<Rightarrow> process_children lm cap cs p' ch queue)
               | (False, p') \<Rightarrow>
                   process_children lm cap cs p' readyCh
                     (if status_at p' c \<noteq> NodeNotStarted then queue @ [c] else queue)
          else process_children lm cap cs p readyCh queue)"

definition not_started :: "plan \<Rightarrow> nat" where
  "not_started p = length (filter (\<lambda>n. Status n = NodeNotStarted) (p_nodes p))"

section \<open>Status of the run\<close>

definition isSucceed :: "plan \<Rightarrow> bool" where
  "isSucceed p = list_all (\<lambda>n. Status n = NodeSucceeded \<or> Status n = NodeSkipped
     \<or> Status n = NodePartiallySucceeded) (p_nodes p)"

text \<open>The first pass of \<open>isPartialSuccess\<close>: may every failed node continue?\<close>

fun failures_allowed :: "log_matcher \<Rightarrow> nat list \<Rightarrow> plan \<Rightarrow> bool \<times> plan" where
  "failures_allowed lm [] p = (True, p)"
| "failures_allowed lm (i # is) p =
     (if status_at p i = NodeFailed
      then case continue_at lm i p of
             (True, p') \<Rightarrow> failures_allowed lm is p'
           | (False, p') \<Rightarrow> (False, p')
      else failures_allowed lm is p)"

definition mark_success_at :: "log_matcher \<Rightarrow> nat \<Rightarrow> plan \<Rightarrow> bool \<times> plan" where
  "mark_success_at lm j p =
     (case ShouldMarkSuccess lm (p_nodes p ! j) of (ok, n) \<Rightarrow> (ok, update_node j (\<lambda>_. n) p))"

text \<open>The second pass: (failures with \<open>continueOn\<close>, successful nodes).\<close>

fun partial_flags :: "log_matcher \<Rightarrow> nat list \<Rightarrow> bool \<times> bool \<Rightarrow> plan \<Rightarrow> (bool \<times> bool) \<times> plan" where
  "partial_flags lm [] fl p = (fl, p)"
| "partial_flags lm (i # is) (hasFailures, hasSuccess) p =
     (case status_at p i of
        NodeSucceeded \<Rightarrow> partial_flags lm is (hasFailures, True) p
      | NodeFailed \<Rightarrow>
          (case continue_at lm i p of
             (False, p') \<Rightarrow> partial_flags lm is (hasFailures, hasSuccess) p'
           | (True, p') \<Rightarrow>
               (case mark_success_at lm i p' of
                  (ms, p'') \<Rightarrow> partial_flags lm is (hasFailures \<or> \<not> ms, hasSuccess) p''))
      | NodePartiallySucceeded \<Rightarrow> partial_flags lm is (True, True) p
      | NodeNotStarted \<Rightarrow> partial_flags lm is (hasFailures, hasSuccess) p
      | NodeRunning \<Rightarrow> partial_flags lm is (hasFailures, hasSuccess) p
      | NodeRetrying \<Rightarrow> partial_flags lm is (hasFailures, hasSuccess) p
      | NodeAborted \<Rightarrow> partial_flags lm is (hasFailures, hasSuccess) p
      | NodeSkipped \<Rightarrow> partial_flags lm is (hasFailures, hasSuccess) p
      | NodeWaiting \<Rightarrow> partial_flags lm is (hasFailures, hasSuccess) p
      | NodeRejected \<Rightarrow> partial_flags lm is (hasFailures, hasSuccess) p)"

definition isPartialSuccess :: "log_matcher \<Rightarrow> plan \<Rightarrow> bool \<times> plan" where
  "isPartialSuccess lm p =
     (let is = [0..<length (p_nodes p)] in
      case failures_allowed lm is p of
        (False, p') \<Rightarrow> (False, p')
      | (True, p') \<Rightarrow>
          (case partial_flags lm is (False, False) p' of
             ((hasFailures, hasSuccess), p'') \<Rightarrow> (hasSuccess \<and> hasFailures, p'')))"

definition run_Status :: "log_matcher \<Rightarrow> runner \<Rightarrow> plan \<Rightarrow> status \<times> plan" where
  "run_Status lm r p =
     (if r_canceled r \<and> \<not> isSucceed p then (Aborted, p)
      else if \<not> plan_IsStarted p then (NotStarted, p)
      else let states = NodeStates p in
        if HasRunning states then (Running, p)
        else if HasRetrying states then (Queued, p)
        else if HasRejected states then (Rejected, p)
        else if HasWaiting states then (Waiting, p)
        else if HasNotStarted states \<and> \<not> plan_IsFinished p then (Running, p)
        else case r_forcedStatus r of
          Some s \<Rightarrow> (s, p)
        | None \<Rightarrow>
            (case isPartialSuccess lm p of
               (True, p') \<Rightarrow> (PartiallySucceeded, p')
             | (False, p') \<Rightarrow> (if r_lastError r \<noteq> None then Failed else Succeeded, p')))"

section \<open>Stopping a run\<close>

definition runner_Cancel :: "runner \<Rightarrow> plan \<Rightarrow> runner \<times> plan" where
  "runner_Cancel r p = (setCanceled r, p\<lparr>p_nodes := map node_Cancel (p_nodes p)\<rparr>)"

definition runner_Signal ::
  "bool \<Rightarrow> (string \<Rightarrow> bool) \<Rightarrow> bool \<Rightarrow> runner \<Rightarrow> plan \<Rightarrow> runner \<times> plan" where
  "runner_Signal term_sig term_stop allowOverride r p =
     (if \<not> r_canceled r \<and> term_sig then setCanceled r else r,
      p\<lparr>p_nodes := map (\<lambda>n. if rp_RepeatMode (sp_RepeatPolicy (n_step n)) \<noteq> '''' then n
         else node_Signal term_sig term_stop allowOverride n) (p_nodes p)\<rparr>)"

section \<open>What readiness checks change\<close>

lemma update_node_frame [simp]:
  "p_nodeByID (update_node i f p) = p_nodeByID p"
  "p_nodeByName (update_node i f p) = p_nodeByName p"
  "p_DependencyMap (update_node i f p) = p_DependencyMap p"
  "p_DependantMap (update_node i f p) = p_DependantMap p"
  "p_startedAt (update_node i f p) = p_startedAt p"
  "p_finishedAt (update_node i f p) = p_finishedAt p"
  "length (p_nodes (update_node i f p)) = length (p_nodes p)"
  by (simp_all add: update_node_def)

lemma update_node_nth:
  "i < length (p_nodes p) \<Longrightarrow>
   p_nodes (update_node i f p) ! j = (if j = i then f (p_nodes p ! i) else p_nodes p ! j)"
  by (simp add: update_node_def nth_list_update)

definition statuses :: "plan \<Rightarrow> node_status list" where
  "statuses p = map Status (p_nodes p)"

lemma statuses_update:
  "statuses (update_node i f p) = (statuses p)[i := Status (f (p_nodes p ! i))]"
  by (simp add: statuses_def update_node_def map_update)

lemma continue_at_frame:
  assumes "continue_at lm j p = (b, p')"
  shows "statuses p' = statuses p" "p_nodeByID p' = p_nodeByID p" "p_nodeByName p' = p_nodeByName p"
    "p_DependantMap p' = p_DependantMap p" "p_DependencyMap p' = p_DependencyMap p"
    "p_startedAt p' = p_startedAt p" "p_finishedAt p' = p_finishedAt p"
    "length (p_nodes p') = length (p_nodes p)"
proof -
  obtain ok n where c: "ShouldContinue lm (p_nodes p ! j) = (ok, n)" by fastforce
  then have p': "p' = update_node j (\<lambda>_. n) p" using assms by (simp add: continue_at_def)
  have "Status n = Status (p_nodes p ! j)" using ShouldContinue_frame(3) [OF c] .
  then show "statuses p' = statuses p"
    unfolding p' statuses_update
    by (cases "j < length (p_nodes p)")
      (simp_all add: statuses_def list_update_same_conv list_update_beyond)
qed (use assms in \<open>auto simp: continue_at_def split: prod.splits\<close>)

lemma ready_deps_statuses:
  "ready_deps lm i ds p = (b, p') \<Longrightarrow>
   (statuses p' = statuses p \<or>
     \<not> b \<and> (\<exists>s. (s = NodeAborted \<or> s = NodeSkipped) \<and> statuses p' = (statuses p)[i := s]))
   \<and> p_nodeByID p' = p_nodeByID p \<and> p_DependantMap p' = p_DependantMap p
   \<and> p_DependencyMap p' = p_DependencyMap p \<and> length (p_nodes p') = length (p_nodes p)"
proof (induction ds arbitrary: p)
  case (Cons d ds)
  show ?case
  proof (cases "p_nodeByID p d")
    case None
    with Cons.prems show ?thesis by simp
  next
    case (Some j)
    obtain ok p1 where c: "continue_at lm j p = (ok, p1)" by fastforce
    note frame = continue_at_frame [OF c]
    show ?thesis
    proof (cases "status_at p j")
      case NodeFailed
      then show ?thesis
        using Cons.IH [of p1] Cons.prems Some c frame
        by (cases ok) (auto simp: statuses_update rule_out_def node_simps)
    next
      case NodeSkipped
      then show ?thesis
        using Cons.IH [of p1] Cons.IH [of p] Cons.prems Some c frame
        by (cases ok; cases "ns_SkippedByRetry (n_state (p_nodes p ! j))")
          (auto simp: statuses_update rule_out_def node_simps)
    qed (use Cons.IH [of p] Cons.prems Some in
        \<open>auto simp: statuses_update rule_out_def node_simps\<close>)
  qed
qed simp

lemma isReady_statuses:
  assumes "isReady lm i p = (b, p')"
  shows "statuses p' = statuses p \<or>
      \<not> b \<and> (\<exists>s. (s = NodeAborted \<or> s = NodeSkipped) \<and> statuses p' = (statuses p)[i := s])"
    and "p_nodeByID p' = p_nodeByID p" "p_DependantMap p' = p_DependantMap p"
    "p_DependencyMap p' = p_DependencyMap p" "length (p_nodes p') = length (p_nodes p)"
  using ready_deps_statuses [OF assms [unfolded isReady_def]] by simp_all

lemma isReady_True_statuses: "isReady lm i p = (True, p') \<Longrightarrow> statuses p' = statuses p"
  using isReady_statuses(1) by blast

lemma status_at_statuses: "i < length (p_nodes p) \<Longrightarrow> status_at p i = statuses p ! i"
  by (simp add: statuses_def)

lemma not_started_statuses: "not_started p = length (filter (\<lambda>s. s = NodeNotStarted) (statuses p))"
  by (simp add: not_started_def statuses_def filter_map comp_def)

lemma count_update_less:
  "i < length xs \<Longrightarrow> P (xs ! i) \<Longrightarrow> \<not> P y \<Longrightarrow>
   Suc (length (filter P (xs[i := y]))) = length (filter P xs)"
proof (induction xs arbitrary: i)
  case (Cons x xs)
  then show ?case by (cases i) auto
qed simp

lemma count_update_le: "\<not> P y \<Longrightarrow> length (filter P (xs[i := y])) \<le> length (filter P xs)"
proof (induction xs arbitrary: i)
  case (Cons x xs)
  then show ?case by (cases i) (auto simp: le_SucI)
qed simp

lemma nth_beyond:
  assumes "length xs = length ys" "length xs \<le> n"
  shows "xs ! n = ys ! n"
proof -
  have "xs ! n = drop (length xs) xs ! (n - length xs)" if "length xs \<le> n" for xs :: "'a list"
    using that by (subst nth_drop) simp_all
  from this [of xs] this [of ys] assms show ?thesis by simp
qed

lemma isReady_measure:
  assumes "isReady lm c p = (b, p')"
  shows "not_started p' \<le> not_started p"
    and "status_at p c = NodeNotStarted \<Longrightarrow> status_at p' c \<noteq> NodeNotStarted \<Longrightarrow>
      Suc (not_started p') \<le> not_started p"
proof -
  let ?P = "\<lambda>s. s = NodeNotStarted"
  show "not_started p' \<le> not_started p"
    using isReady_statuses(1) [OF assms] count_update_le [of ?P _ "statuses p" c]
    by (auto simp: not_started_statuses)
  assume st: "status_at p c = NodeNotStarted" "status_at p' c \<noteq> NodeNotStarted"
  show "Suc (not_started p') \<le> not_started p"
  proof (cases "c < length (p_nodes p)")
    case True
    then have "statuses p' \<noteq> statuses p"
      using st isReady_statuses(5) [OF assms] by (metis status_at_statuses)
    then obtain s where s: "s \<noteq> NodeNotStarted" "statuses p' = (statuses p)[c := s]"
      using isReady_statuses(1) [OF assms] by auto
    have "Suc (length (filter ?P ((statuses p)[c := s]))) = length (filter ?P (statuses p))"
      using True st(1) s(1) by (intro count_update_less) (simp_all add: statuses_def)
    then show ?thesis using s(2) by (simp add: not_started_statuses)
  next
    case False
    then have "p_nodes p' ! c = p_nodes p ! c"
      using isReady_statuses(5) [OF assms] by (intro nth_beyond) simp_all
    with st show ?thesis by simp
  qed
qed

lemma process_children_measure:
  "process_children lm cap cs p ch q = Some (p', ch', q') \<Longrightarrow>
   not_started p' + length q' \<le> not_started p + length q"
proof (induction cs arbitrary: p ch q)
  case (Cons cid cs)
  show ?case
  proof (cases "p_nodeByID p cid")
    case None
    with Cons show ?thesis by simp
  next
    case (Some c)
    show ?thesis
    proof (cases "status_at p c = NodeNotStarted")
      case False
      with Cons Some show ?thesis by simp
    next
      case ns: True
      obtain b p1 where r: "isReady lm c p = (b, p1)" by fastforce
      note le = isReady_measure [OF r]
      show ?thesis
      proof (cases b)
        case True
        with Cons.prems Some r ns obtain ch1 where
          "process_children lm cap cs p1 ch1 q = Some (p', ch', q')"
          by (auto split: option.splits)
        from Cons.IH [OF this] le(1) show ?thesis by simp
      next
        case False
        with Cons.prems Some r ns have "process_children lm cap cs p1 ch
            (if status_at p1 c \<noteq> NodeNotStarted then q @ [c] else q) = Some (p', ch', q')"
          by simp
        from Cons.IH [OF this] le ns show ?thesis by (auto split: if_splits)
      qed
    qed
  qed
qed simp

text \<open>
  \<open>processCompletedNode\<close>: a breadth-first walk that also visits the dependents of nodes that
  \<open>isReady\<close> has just ruled out. Each visited node was counted as not started before it entered
  the queue, so the walk ends.
\<close>

function process_queue ::
  "log_matcher \<Rightarrow> nat \<Rightarrow> nat list \<Rightarrow> plan \<Rightarrow> nat list \<Rightarrow> (plan \<times> nat list) option" where
  "process_queue lm cap [] p readyCh = Some (p, readyCh)"
| "process_queue lm cap (cur # queue) p readyCh =
     (case process_children lm cap (Dependents p (n_id (p_nodes p ! cur))) p readyCh queue of
        None \<Rightarrow> None
      | Some (p', readyCh', queue') \<Rightarrow> process_queue lm cap queue' p' readyCh')"
  by pat_completeness auto
termination
  by (relation "measure (\<lambda>(lm, cap, q, p, ch). not_started p + length q)")
    (auto dest: process_children_measure)

definition processCompletedNode ::
  "log_matcher \<Rightarrow> nat \<Rightarrow> bool \<Rightarrow> nat \<Rightarrow> plan \<Rightarrow> nat list \<Rightarrow> (plan \<times> nat list) option" where
  "processCompletedNode lm cap canceled i p readyCh =
     (if canceled then Some (p, readyCh) else process_queue lm cap [i] p readyCh)"

section \<open>When a node is ready\<close>

text \<open>What the status of a dependency must be for its dependents to start.\<close>

definition dep_allows :: "log_matcher \<Rightarrow> node \<Rightarrow> bool" where
  "dep_allows lm n \<longleftrightarrow> Status n = NodeSucceeded \<or> Status n = NodePartiallySucceeded
     \<or> Status n = NodeFailed \<and> fst (ShouldContinue lm n)
     \<or> Status n = NodeSkipped \<and> (ns_SkippedByRetry (n_state n) \<or> fst (ShouldContinue lm n))"

definition pending :: "node_status \<Rightarrow> bool" where
  "pending s \<longleftrightarrow> s = NodeNotStarted \<or> s = NodeRunning \<or> s = NodeRetrying \<or> s = NodeWaiting"

definition plain_names :: "plan \<Rightarrow> bool" where
  "plain_names p \<longleftrightarrow> (\<forall>n \<in> set (p_nodes p). CHR ''='' \<notin> set (Name n))"

definition refresh :: "log_matcher \<Rightarrow> node \<Rightarrow> node" where
  "refresh lm n = snd (ShouldContinue lm n)"

lemma ShouldContinue_refresh:
  "refresh lm n = n \<or>
   refresh lm n = setBoolVariable (continue_cache_key n) (fst (ShouldContinue lm n)) n
     \<and> Status n = NodeFailed \<and> \<not> co_Failure (sp_ContinueOn (n_step n))"
proof (cases "Status n = NodeFailed \<and> \<not> co_Failure (sp_ContinueOn (n_step n))")
  case False
  then show ?thesis by (cases "Status n") (auto simp: refresh_def ShouldContinue_def Let_def)
next
  case True
  then show ?thesis
    by (cases "getBoolVariable (continue_cache_key n) n";
        cases "lm n (co_Output (sp_ContinueOn (n_step n)))")
      (simp_all add: refresh_def ShouldContinue_def Let_def)
qed

text \<open>The answer of \<open>ShouldContinue\<close> is the same when it is asked again.\<close>

lemma ShouldContinue_again:
  assumes "CHR ''='' \<notin> set (Name n)"
  shows "ShouldContinue lm (refresh lm n) = (fst (ShouldContinue lm n), refresh lm n)"
proof -
  let ?k = "continue_cache_key n"
  have key: "CHR ''='' \<notin> set ?k"
    using assms by (simp add: continue_cache_key_def systemVarPrefix_def)
  have set: "ShouldContinue lm (setBoolVariable ?k b n) = (b, setBoolVariable ?k b n)"
    if "Status n = NodeFailed" "\<not> co_Failure (sp_ContinueOn (n_step n))" for b
  proof -
    have "continue_cache_key (setBoolVariable ?k b n) = ?k"
      by (simp add: continue_cache_key_def node_simps)
    moreover have "Status (setBoolVariable ?k b n) = NodeFailed"
      "n_step (setBoolVariable ?k b n) = n_step n"
      using that by (simp_all add: node_simps)
    ultimately show ?thesis
      using that get_setBoolVariable [OF key, of b n] by (simp add: ShouldContinue_def)
  qed
  consider "refresh lm n = n"
    | b where "refresh lm n = setBoolVariable ?k b n" "fst (ShouldContinue lm n) = b"
        "Status n = NodeFailed" "\<not> co_Failure (sp_ContinueOn (n_step n))"
    using ShouldContinue_refresh [of lm n] by blast
  then show ?thesis
  proof cases
    case 1
    then show ?thesis by (metis refresh_def prod.collapse)
  next
    case 2
    then show ?thesis using set by simp
  qed
qed

lemma refresh_frame [simp]:
  "Status (refresh lm n) = Status n" "n_step (refresh lm n) = n_step n"
  "n_id (refresh lm n) = n_id n"
  using ShouldContinue_frame [of lm n "fst (ShouldContinue lm n)" "refresh lm n"]
  by (simp_all add: refresh_def)

lemma refresh_SkippedByRetry [simp]:
  "ns_SkippedByRetry (n_state (refresh lm n)) = ns_SkippedByRetry (n_state n)"
  by (simp add: refresh_def ShouldContinue_def Let_def node_simps
      split: node_status.splits if_splits option.splits sum.splits)

definition refreshed :: "log_matcher \<Rightarrow> plan \<Rightarrow> plan \<Rightarrow> bool" where
  "refreshed lm p q \<longleftrightarrow> p_nodeByID q = p_nodeByID p \<and> length (p_nodes q) = length (p_nodes p)
     \<and> (\<forall>j < length (p_nodes p).
          p_nodes q ! j = p_nodes p ! j \<or> p_nodes q ! j = refresh lm (p_nodes p ! j))"

lemma refreshed_refl: "refreshed lm p p"
  by (simp add: refreshed_def)

lemma refreshed_nth:
  assumes "refreshed lm p q" "j < length (p_nodes p)"
  shows "status_at q j = status_at p j"
    and "ns_SkippedByRetry (n_state (p_nodes q ! j)) = ns_SkippedByRetry (n_state (p_nodes p ! j))"
  using assms by (auto simp: refreshed_def)

lemma refreshed_continue_at:
  assumes "refreshed lm p q" "j < length (p_nodes p)" "plain_names p"
  obtains q' where "continue_at lm j q = (fst (ShouldContinue lm (p_nodes p ! j)), q')"
    "refreshed lm p q'"
proof -
  let ?n = "p_nodes p ! j"
  have plain: "CHR ''='' \<notin> set (Name ?n)" using assms(2,3) by (simp add: plain_names_def)
  have q: "p_nodes q ! j = ?n \<or> p_nodes q ! j = refresh lm ?n"
    using assms(1,2) by (simp add: refreshed_def)
  have "ShouldContinue lm (p_nodes q ! j) = (fst (ShouldContinue lm ?n), refresh lm ?n)"
    using q ShouldContinue_again [OF plain, of lm] by (auto simp: refresh_def)
  then have "continue_at lm j q =
      (fst (ShouldContinue lm ?n), update_node j (\<lambda>_. refresh lm ?n) q)"
    by (simp add: continue_at_def)
  moreover have "refreshed lm p (update_node j (\<lambda>_. refresh lm ?n) q)"
    using assms(1,2) by (simp add: refreshed_def update_node_def nth_list_update)
  ultimately show ?thesis using that by blast
qed

lemma plan_wf_position:
  "plan_wf p \<Longrightarrow> p_nodeByID p d = Some j \<Longrightarrow> j < length (p_nodes p)"
  using last_pos_SomeD [of "plan_ids p" d j] by (simp add: plan_wf_def)

text \<open>The effect of one dependency on the loop, over the statuses of the original plan.\<close>

lemma ready_deps_Cons:
  assumes "plan_wf p" "refreshed lm p q" "plain_names p"
    and j: "p_nodeByID p d = Some j"
  obtains (allowed) q' where "dep_allows lm (p_nodes p ! j)"
      "ready_deps lm i (d # ds) q = ready_deps lm i ds q'" "refreshed lm p q'"
  | (pending) "\<not> dep_allows lm (p_nodes p ! j)" "pending (status_at p j)"
      "ready_deps lm i (d # ds) q = (False, q)"
  | (ruled_out) q' f s where "\<not> dep_allows lm (p_nodes p ! j)" "\<not> pending (status_at p j)"
      "ready_deps lm i (d # ds) q = (False, update_node i f q')" "refreshed lm p q'"
      "s = NodeAborted \<or> s = NodeSkipped" "\<And>n. Status (f n) = s"
proof -
  have jl: "j < length (p_nodes p)" using plan_wf_position [OF assms(1) j] .
  note nth = refreshed_nth [OF assms(2) jl]
  have jq: "p_nodeByID q d = Some j" using assms(2) j by (simp add: refreshed_def)
  obtain q1 where c: "continue_at lm j q = (fst (ShouldContinue lm (p_nodes p ! j)), q1)"
    "refreshed lm p q1" using refreshed_continue_at [OF assms(2) jl assms(3)] .
  show ?thesis
  proof (cases "dep_allows lm (p_nodes p ! j)")
    case True
    then show ?thesis
      using allowed [OF True, of q1] allowed [OF True, of q] c nth jq assms(2)
      by (cases "status_at p j") (auto simp: dep_allows_def)
  next
    case False
    show ?thesis
    proof (cases "status_at p j")
      case NodeFailed
      with False c nth jq ruled_out [where q' = q1 and f = "rule_out NodeAborted ErrUpstreamFailed" and s = NodeAborted]
      show ?thesis by (auto simp: dep_allows_def pending_def rule_out_def node_simps)
    next
      case NodeSkipped
      with False c nth jq ruled_out [where q' = q1 and f = "rule_out NodeSkipped ErrUpstreamSkipped" and s = NodeSkipped]
      show ?thesis by (auto simp: dep_allows_def pending_def rule_out_def node_simps)
    next
      case NodeAborted
      with False nth jq assms(2) ruled_out [where q' = q and f = "SetStatus NodeAborted" and s = NodeAborted]
      show ?thesis by (auto simp: pending_def node_simps)
    next
      case NodeRejected
      with False nth jq assms(2) ruled_out [where q' = q and f = "rule_out NodeAborted ErrUpstreamRejected" and s = NodeAborted]
      show ?thesis by (auto simp: pending_def rule_out_def node_simps)
    qed (use False nth jq pending in \<open>auto simp: pending_def dep_allows_def\<close>)
  qed
qed

lemma ready_deps_iff:
  assumes "plan_wf p" "plain_names p" "refreshed lm p q"
  shows "fst (ready_deps lm i ds q) \<longleftrightarrow> (\<forall>d \<in> set ds. \<exists>n. GetNode p d = Some n \<and> dep_allows lm n)"
  using assms(3)
proof (induction ds arbitrary: q)
  case (Cons d ds)
  show ?case
  proof (cases "p_nodeByID p d")
    case None
    then show ?thesis using Cons.prems by (simp add: refreshed_def GetNode_def)
  next
    case (Some j)
    show ?thesis
    proof (cases rule: ready_deps_Cons [OF assms(1) Cons.prems assms(2) Some, of i ds,
        case_names allowed pending ruled_out])
      case (allowed q')
      with Cons.IH [OF allowed(3)] Some show ?thesis by (simp add: GetNode_def del: ready_deps.simps)
    qed (use Some in \<open>auto simp: GetNode_def simp del: ready_deps.simps\<close>)
  qed
qed simp

lemma ready_deps_ruled_out:
  assumes "plan_wf p" "plain_names p" "refreshed lm p q" "i < length (p_nodes p)"
    and "\<forall>d \<in> set ds. \<exists>n. GetNode p d = Some n \<and> \<not> pending (Status n)"
    and "ready_deps lm i ds q = (False, p')"
  shows "status_at p' i = NodeAborted \<or> status_at p' i = NodeSkipped"
  using assms(3,5,6)
proof (induction ds arbitrary: q)
  case (Cons d ds)
  then obtain j where j: "p_nodeByID p d = Some j" and np: "\<not> pending (status_at p j)"
    by (auto simp: GetNode_def)
  show ?case
  proof (cases rule: ready_deps_Cons [OF assms(1) Cons.prems(1) assms(2) j, of i ds,
        case_names allowed pending ruled_out])
    case (allowed q')
    with Cons show ?thesis by (auto simp del: ready_deps.simps)
  next
    case pending
    with np show ?thesis by simp
  next
    case (ruled_out q' f s)
    have "i < length (p_nodes q')" using ruled_out(4) assms(4) by (simp add: refreshed_def)
    with ruled_out Cons.prems(3) show ?thesis
      by (auto simp: update_node_nth simp del: ready_deps.simps)
  qed
qed simp

section \<open>Partial success\<close>

lemma failures_allowed_iff:
  assumes "plain_names p" "refreshed lm p q" "set is \<subseteq> {..<length (p_nodes p)}"
  shows "(fst (failures_allowed lm is q) \<longleftrightarrow>
      (\<forall>i \<in> set is. status_at p i = NodeFailed \<longrightarrow> fst (ShouldContinue lm (p_nodes p ! i))))
    \<and> refreshed lm p (snd (failures_allowed lm is q))"
  using assms(2,3)
proof (induction "is" arbitrary: q)
  case (Cons i "is")
  then have il: "i < length (p_nodes p)" and sub: "set is \<subseteq> {..<length (p_nodes p)}" by auto
  obtain q' where c: "continue_at lm i q = (fst (ShouldContinue lm (p_nodes p ! i)), q')"
    "refreshed lm p q'" using refreshed_continue_at [OF Cons.prems(1) il assms(1)] .
  show ?case
    using Cons.IH [OF c(2) sub] Cons.IH [OF Cons.prems(1) sub] c refreshed_nth(1) [OF Cons.prems(1) il]
    by (cases "fst (ShouldContinue lm (p_nodes p ! i))") auto
qed simp

lemma refreshed_mark_success_at:
  assumes "refreshed lm p q" "j < length (p_nodes p)" "plain_names p"
    and "fst (ShouldContinue lm (p_nodes p ! j))"
  obtains q' where "mark_success_at lm j q =
      (co_MarkSuccess (sp_ContinueOn (n_step (p_nodes p ! j))), q')" "refreshed lm p q'"
proof -
  let ?n = "p_nodes p ! j"
  obtain q' where c: "continue_at lm j q = (fst (ShouldContinue lm ?n), q')" "refreshed lm p q'"
    using refreshed_continue_at [OF assms(1-3)] .
  obtain b n where s: "ShouldContinue lm (p_nodes q ! j) = (b, n)" by fastforce
  have "n_step n = n_step (p_nodes q ! j)" using ShouldContinue_frame(2) [OF s] .
  also have "\<dots> = n_step ?n"
    using assms(1,2) by (auto simp: refreshed_def)
  finally have "mark_success_at lm j q = (co_MarkSuccess (sp_ContinueOn (n_step ?n)), q')"
    using c s assms(4) by (simp add: continue_at_def mark_success_at_def ShouldMarkSuccess_def)
  with c(2) that show ?thesis by blast
qed

definition counts_as_failure :: "log_matcher \<Rightarrow> node \<Rightarrow> bool" where
  "counts_as_failure lm n \<longleftrightarrow> Status n = NodePartiallySucceeded
     \<or> Status n = NodeFailed \<and> fst (ShouldContinue lm n)
        \<and> \<not> co_MarkSuccess (sp_ContinueOn (n_step n))"

lemma partial_flags_iff:
  assumes "plain_names p" "refreshed lm p q" "set is \<subseteq> {..<length (p_nodes p)}"
  shows "fst (partial_flags lm is (a, b) q) =
     (a \<or> (\<exists>i \<in> set is. counts_as_failure lm (p_nodes p ! i)),
      b \<or> (\<exists>i \<in> set is. node_IsSuccess (status_at p i)))"
  using assms(2,3)
proof (induction "is" arbitrary: q a b)
  case (Cons i "is")
  then have il: "i < length (p_nodes p)" and sub: "set is \<subseteq> {..<length (p_nodes p)}" by auto
  note nth = refreshed_nth(1) [OF Cons.prems(1) il]
  show ?case
  proof (cases "status_at p i = NodeFailed")
    case True
    obtain q' where c: "continue_at lm i q = (fst (ShouldContinue lm (p_nodes p ! i)), q')"
      "refreshed lm p q'" using refreshed_continue_at [OF Cons.prems(1) il assms(1)] .
    show ?thesis
    proof (cases "fst (ShouldContinue lm (p_nodes p ! i))")
      case cont: True
      obtain q'' where m: "mark_success_at lm i q' =
          (co_MarkSuccess (sp_ContinueOn (n_step (p_nodes p ! i))), q'')" "refreshed lm p q''"
        using refreshed_mark_success_at [OF c(2) il assms(1) cont] .
      show ?thesis
        using True cont c m nth Cons.IH [OF m(2) sub]
        by (auto simp: counts_as_failure_def node_IsSuccess_def)
    next
      case False
      then show ?thesis
        using True c nth Cons.IH [OF c(2) sub] by (auto simp: counts_as_failure_def node_IsSuccess_def)
    qed
  next
    case False
    then show ?thesis
      using nth Cons.IH [OF Cons.prems(1) sub]
      by (cases "status_at p i") (auto simp: counts_as_failure_def node_IsSuccess_def)
  qed
qed simp

section \<open>Sample plans\<close>

definition pair_plan :: "node_status \<Rightarrow> plan" where
  "pair_plan s = \<lparr> p_startedAt = 1, p_finishedAt = zero_time,
     p_nodes = [(NewNode (zero_step\<lparr>sp_Name := ''a''\<rparr>) (zero_node_state\<lparr>ns_Status := s\<rparr>))\<lparr>n_id := 1\<rparr>,
       (NewNode (zero_step\<lparr>sp_Name := ''b'', sp_Depends := [''a'']\<rparr>) zero_node_state)\<lparr>n_id := 2\<rparr>],
     p_nodeByID = [1 \<mapsto> 0, 2 \<mapsto> 1], p_nodeByName = [''a'' \<mapsto> 0, ''b'' \<mapsto> 1],
     p_DependencyMap = [(2, [1])], p_DependantMap = [(1, [2])] \<rparr>"

definition overflow_plan :: plan where
  "overflow_plan =
     (let nd = (\<lambda>i s. (NewNode zero_step (zero_node_state\<lparr>ns_Status := s\<rparr>))\<lparr>n_id := i\<rparr>)
      in \<lparr> p_startedAt = 1, p_finishedAt = zero_time,
        p_nodes = [nd 1 NodeSucceeded, nd 2 NodeSucceeded, nd 3 NodeNotStarted,
          nd 4 NodeNotStarted, nd 5 NodeNotStarted],
        p_nodeByID = [1 \<mapsto> 0, 2 \<mapsto> 1, 3 \<mapsto> 2, 4 \<mapsto> 3, 5 \<mapsto> 4], p_nodeByName = Map.empty,
        p_DependencyMap = [(3, [1, 2]), (4, [1, 2]), (5, [1, 2])],
        p_DependantMap = [(1, [3, 4, 5]), (2, [3, 4, 5])] \<rparr>)"

section \<open>Properties\<close>

text \<open>
  C21: readiness. In a well-formed plan whose step names contain no equals sign, \<open>isReady\<close>
  answers yes exactly when every dependency succeeded (fully or partly), or failed or was
  skipped in a way that lets dependents continue. A yes changes no status; a no changes at most
  the node itself, which becomes aborted or skipped; and if no dependency is pending, a no does
  mark it, so a node with finished dependencies is either started or ruled out.
\<close>

theorem isReady_correct:
  assumes "plan_wf p" "plain_names p" "i < length (p_nodes p)"
  shows "let deps = set (Dependencies p (n_id (p_nodes p ! i))); (b, p') = isReady lm i p in
      (b \<longleftrightarrow> (\<forall>d \<in> deps. \<exists>n. GetNode p d = Some n \<and> dep_allows lm n))
    \<and> (\<forall>j < length (p_nodes p). b \<or> j \<noteq> i \<longrightarrow> status_at p' j = status_at p j)
    \<and> (\<not> b \<and> (\<forall>d \<in> deps. \<exists>n. GetNode p d = Some n \<and> \<not> pending (Status n)) \<longrightarrow>
         status_at p' i = NodeAborted \<or> status_at p' i = NodeSkipped)"
proof -
  let ?ds = "Dependencies p (n_id (p_nodes p ! i))"
  obtain b p' where r: "isReady lm i p = (b, p')" by fastforce
  then have rd: "ready_deps lm i ?ds p = (b, p')" by (simp add: isReady_def)
  have "b \<longleftrightarrow> (\<forall>d \<in> set ?ds. \<exists>n. GetNode p d = Some n \<and> dep_allows lm n)"
    using ready_deps_iff [OF assms(1,2) refreshed_refl, of lm i ?ds] rd by simp
  moreover have "status_at p' j = status_at p j" if "j < length (p_nodes p)" "b \<or> j \<noteq> i" for j
    using isReady_statuses(1,5) [OF r] that by (auto simp: status_at_statuses)
  moreover have "status_at p' i = NodeAborted \<or> status_at p' i = NodeSkipped"
    if "\<not> b" "\<forall>d \<in> set ?ds. \<exists>n. GetNode p d = Some n \<and> \<not> pending (Status n)"
    using ready_deps_ruled_out [OF assms(1,2) refreshed_refl assms(3) that(2)] rd that(1) by simp
  ultimately show ?thesis using r by simp
qed

lemma pair_plan_wf: "plan_wf (pair_plan s)" "plain_names (pair_plan s)"
  by (auto simp: pair_plan_def plan_wf_def plain_names_def NewNode_def zero_step_def mirrored_def
      last_pos_def adj_def edges_def upt_rec split: if_splits)

theorem isReady_correct_witness:
  "plan_wf (pair_plan NodeFailed) \<and> plain_names (pair_plan NodeFailed)
   \<and> (let p' = snd (isReady (\<lambda>_ _. Inr False) 1 (pair_plan NodeFailed))
      in status_at p' 1 = NodeAborted \<or> status_at p' 1 = NodeSkipped)"
proof -
  have "1 < length (p_nodes (pair_plan NodeFailed))" by (simp add: pair_plan_def)
  from isReady_correct [OF pair_plan_wf this, of "\<lambda>_ _. Inr False"] pair_plan_wf show ?thesis
    by (simp add: Let_def pair_plan_def Dependencies_def adj_def GetNode_def NewNode_def
        zero_step_def zero_node_state_def dep_allows_def pending_def ShouldContinue_def
        getBoolVariable_def getVariable_def MatchExitCode_def split: prod.splits)
qed

text \<open>
  Partial success. The run counts as partially successful exactly when every failed step may
  continue, some step succeeded, and some step either succeeded partly or failed without being
  marked as successful; the caching of \<open>ShouldContinue\<close> between the two passes does not
  matter.
\<close>

theorem isPartialSuccess_correct:
  assumes "plain_names p"
  shows "fst (isPartialSuccess lm p) \<longleftrightarrow>
      (\<forall>n \<in> set (p_nodes p). Status n = NodeFailed \<longrightarrow> fst (ShouldContinue lm n))
    \<and> (\<exists>n \<in> set (p_nodes p). node_IsSuccess (Status n))
    \<and> (\<exists>n \<in> set (p_nodes p). counts_as_failure lm n)"
proof -
  let ?is = "[0..<length (p_nodes p)]"
  have sub: "set ?is \<subseteq> {..<length (p_nodes p)}" by auto
  have all: "(\<forall>i \<in> set ?is. P (p_nodes p ! i)) \<longleftrightarrow> (\<forall>n \<in> set (p_nodes p). P n)" for P
    by (auto simp: all_set_conv_all_nth)
  have ex: "(\<exists>i \<in> set ?is. P (p_nodes p ! i)) \<longleftrightarrow> (\<exists>n \<in> set (p_nodes p). P n)" for P
    using all [of "\<lambda>n. \<not> P n"] by blast
  obtain ok q where f: "failures_allowed lm ?is p = (ok, q)" by fastforce
  have ok: "ok \<longleftrightarrow> (\<forall>n \<in> set (p_nodes p). Status n = NodeFailed \<longrightarrow> fst (ShouldContinue lm n))"
    "refreshed lm p q"
    using failures_allowed_iff [OF assms refreshed_refl sub, of lm]
    unfolding f all [of "\<lambda>n. Status n = NodeFailed \<longrightarrow> fst (ShouldContinue lm n)"]
    by (simp_all only: fst_conv snd_conv)
  obtain a b q' where fl: "partial_flags lm ?is (False, False) q = ((a, b), q')"
    by (metis prod.collapse)
  have "(a, b) = ((\<exists>n \<in> set (p_nodes p). counts_as_failure lm n),
      (\<exists>n \<in> set (p_nodes p). node_IsSuccess (Status n)))"
    using partial_flags_iff [OF assms ok(2) sub, of False False] fl
    by (simp add: ex [of "counts_as_failure lm"] ex [of "\<lambda>n. node_IsSuccess (Status n)"]
        del: set_upt)
  with f fl ok(1) show ?thesis by (simp add: isPartialSuccess_def del: upt_Suc split: bool.splits)
qed

theorem isPartialSuccess_correct_witness:
  "plain_names (pair_plan NodePartiallySucceeded)
   \<and> fst (isPartialSuccess (\<lambda>_ _. Inr False) (pair_plan NodePartiallySucceeded))"
  using isPartialSuccess_correct [OF pair_plan_wf(2), of "\<lambda>_ _. Inr False" NodePartiallySucceeded]
    pair_plan_wf(2)
  by (simp add: pair_plan_def NewNode_def zero_node_state_def node_IsSuccess_def
      counts_as_failure_def)

text \<open>
  The hypothesis on step names is needed. For a failed step with an equals sign in its name
  whose exit code lets dependents continue, \<open>ShouldContinue\<close> answers yes the first time and no
  when it is asked again, because the cached pair is cut at the first equals sign.
\<close>

theorem ShouldContinue_cache_broken:
  "let n = NewNode (zero_step\<lparr>sp_Name := ''a=b'',
         sp_ContinueOn := (sp_ContinueOn zero_step)\<lparr>co_ExitCode := [1]\<rparr>\<rparr>)
         (zero_node_state\<lparr>ns_Status := NodeFailed, ns_ExitCode := 1\<rparr>);
       (first, n') = ShouldContinue (\<lambda>_ _. Inr False) n
   in first \<and> \<not> fst (ShouldContinue (\<lambda>_ _. Inr False) n')"
  by (simp add: Let_def NewNode_def zero_step_def zero_node_state_def ShouldContinue_def
      getBoolVariable_def getVariable_def MatchExitCode_def continue_cache_key_def
      systemVarPrefix_def setBoolVariable_def setVariable_def NewKeyValue_def kv_Bool_def
      kv_Value_def format_bool_def parse_bool_def)


end
