(* ===== verification/Runner_Loop.thy ===== *)
theory Runner_Loop
  imports Runner_Status
begin

text \<open>
  Package \<open>runtime\<close>, file \<open>runner.go\<close>: the event loop of \<open>Run\<close> together with the
  goroutines of the nodes, as a labelled transition system. The loop alternates between its
  checks and its \<open>select\<close>; the goroutine of a node is one step for its body, which ends with the
  announcement on \<open>doneCh\<close>, and one for the deferred calls after it. Signals and cancellation
  may come at any time. \<open>l_started\<close> records the nodes started so far and is read by nothing.
\<close>

section \<open>States\<close>

text \<open>
  The loop is about to check its conditions, waits in \<open>select\<close> (the flag says whether the ready
  channel is enabled), has been left, or is blocked for ever on a full channel.
\<close>

datatype loop_pc = AtCheck | AtSelect bool | AtExit | AtBlocked

record loop_state =
  l_plan :: plan
  l_runner :: runner
  l_readyCh :: "nat list"
  l_doneCh :: "nat list"
  l_running :: int
  l_pc :: loop_pc
  l_ctxOpen :: bool
  l_exec :: "nat list"
  l_finish :: "(nat \<times> bool) list"
  l_started :: "nat list"

abbreviation l_cap :: "loop_state \<Rightarrow> nat" where
  "l_cap s \<equiv> length (p_nodes (l_plan s))"

section \<open>The initial state\<close>

fun initial_ready :: "log_matcher \<Rightarrow> nat \<Rightarrow> nat list \<Rightarrow> plan \<Rightarrow> nat list \<Rightarrow> (plan \<times> nat list) option" where
  "initial_ready lm cap [] p ch = Some (p, ch)"
| "initial_ready lm cap (i # is) p ch =
     (if status_at p i = NodeNotStarted
      then case isReady lm i p of
             (True, p') \<Rightarrow>
               (case send cap ch i of None \<Rightarrow> None | Some ch' \<Rightarrow> initial_ready lm cap is p' ch')
           | (False, p') \<Rightarrow> initial_ready lm cap is p' ch
      else initial_ready lm cap is p ch)"

definition loop_init :: "log_matcher \<Rightarrow> runner \<Rightarrow> plan \<Rightarrow> loop_state option" where
  "loop_init lm r p =
     (case initial_ready lm (length (p_nodes p)) [0..<length (p_nodes p)] p [] of
        None \<Rightarrow> None
      | Some (p', ch) \<Rightarrow> Some \<lparr> l_plan = p', l_runner = r, l_readyCh = ch, l_doneCh = [],
          l_running = 0, l_pc = AtCheck, l_ctxOpen = True, l_exec = [], l_finish = [],
          l_started = [] \<rparr>)"

section \<open>The loop\<close>

definition ready_enabled :: "loop_state \<Rightarrow> bool" where
  "ready_enabled s \<longleftrightarrow> \<not> r_canceled (l_runner s)
     \<and> (r_maxActiveRuns (l_runner s) = 0 \<or> l_running s < r_maxActiveRuns (l_runner s))"

text \<open>The conditions at the head of the loop; the length of a nil channel is zero.\<close>

definition loop_check :: "loop_state \<Rightarrow> loop_state" where
  "loop_check s =
     (let states = NodeStates (l_plan s) in
      if CheckFinished (l_plan s) then s\<lparr>l_pc := AtExit\<rparr>
      else if r_canceled (l_runner s) \<and> l_running s = 0 then s\<lparr>l_pc := AtExit\<rparr>
      else if l_running s = 0 \<and> l_readyCh s = [] \<and> HasWaiting states then s\<lparr>l_pc := AtExit\<rparr>
      else if l_running s = 0 \<and> l_readyCh s = [] \<and> HasRetrying states then s\<lparr>l_pc := AtExit\<rparr>
      else if l_running s = 0 \<and> (\<not> ready_enabled s \<or> l_readyCh s = [])
      then s\<lparr>l_runner := setLastError (Some ErrDeadlockDetected) (l_runner s), l_pc := AtExit\<rparr>
      else s\<lparr>l_pc := AtSelect (ready_enabled s)\<rparr>)"

definition start_node :: "nat \<Rightarrow> loop_state \<Rightarrow> loop_state" where
  "start_node i s =
     (if status_at (l_plan s) i \<noteq> NodeNotStarted then s\<lparr>l_pc := AtCheck\<rparr>
      else s\<lparr>l_plan := update_node i (SetStatus NodeRunning) (l_plan s),
             l_running := l_running s + 1, l_exec := l_exec s @ [i],
             l_started := l_started s @ [i], l_pc := AtCheck\<rparr>)"

definition complete_node :: "log_matcher \<Rightarrow> nat \<Rightarrow> loop_state \<Rightarrow> loop_state" where
  "complete_node lm i s =
     (case processCompletedNode lm (l_cap s) (r_canceled (l_runner s)) i (l_plan s) (l_readyCh s) of
        None \<Rightarrow> s\<lparr>l_running := l_running s - 1, l_pc := AtBlocked\<rparr>
      | Some (p, ch) \<Rightarrow>
          s\<lparr>l_running := l_running s - 1, l_plan := p, l_readyCh := ch, l_pc := AtCheck\<rparr>)"

definition context_done :: "go_error \<Rightarrow> loop_state \<Rightarrow> loop_state" where
  "context_done e s =
     (let r = l_runner s in
      s\<lparr>l_runner := (if r_lastError r = None \<and> errors_is e DeadlineExceeded
           then setLastError (Some e) r else r),
        l_ctxOpen := False, l_pc := AtCheck\<rparr>)"

section \<open>Steps\<close>

datatype event =
    EvCheck
  | EvReady
  | EvDone log_matcher
  | EvContext go_error
  | EvBody nat run_env
  | EvFinish nat bool nat time
  | EvCancel
  | EvSignal bool "string \<Rightarrow> bool" bool

text \<open>\<open>progress\<close>: the run has a progress channel, as in every agent run.\<close>

inductive lstep :: "loop_state \<Rightarrow> event \<Rightarrow> loop_state \<Rightarrow> bool" where
  check: "l_pc s = AtCheck \<Longrightarrow> lstep s EvCheck (loop_check s)"
| ready: "l_pc s = AtSelect True \<Longrightarrow> l_readyCh s = i # ch \<Longrightarrow>
    lstep s EvReady (start_node i (s\<lparr>l_readyCh := ch\<rparr>))"
| completed: "l_pc s = AtSelect b \<Longrightarrow> l_doneCh s = i # ch \<Longrightarrow>
    lstep s (EvDone lm) (complete_node lm i (s\<lparr>l_doneCh := ch\<rparr>))"
| ctx_done: "l_pc s = AtSelect b \<Longrightarrow> l_ctxOpen s \<Longrightarrow>
    lstep s (EvContext e) (context_done e s)"
| body: "i \<in> set (l_exec s) \<Longrightarrow>
    node_goroutine True (p_startedAt (l_plan s)) re (l_runner s) (p_nodes (l_plan s) ! i) =
      Some (r, n, panicked) \<Longrightarrow>
    send (l_cap s) (l_doneCh s) i = Some ch \<Longrightarrow>
    lstep s (EvBody i re)
      (s\<lparr>l_plan := update_node i (\<lambda>_. n) (l_plan s), l_runner := r, l_doneCh := ch,
         l_exec := remove1 i (l_exec s), l_finish := l_finish s @ [(i, panicked)]\<rparr>)"
| finish: "(i, panicked) \<in> set (l_finish s) \<Longrightarrow>
    recoverNodePanic panicked a (l_runner s) (p_nodes (l_plan s) ! i) = (r1, n1) \<Longrightarrow>
    finishNode now r1 n1 = (r2, n2) \<Longrightarrow>
    lstep s (EvFinish i panicked a now)
      (s\<lparr>l_plan := update_node i (\<lambda>_. n2) (l_plan s), l_runner := r2,
         l_finish := remove1 (i, panicked) (l_finish s)\<rparr>)"
| cancel: "runner_Cancel (l_runner s) (l_plan s) = (r, p) \<Longrightarrow>
    lstep s EvCancel (s\<lparr>l_runner := r, l_plan := p\<rparr>)"
| signal: "runner_Signal ts tst ov (l_runner s) (l_plan s) = (r, p) \<Longrightarrow>
    lstep s (EvSignal ts tst ov) (s\<lparr>l_runner := r, l_plan := p\<rparr>)"

inductive lsteps :: "(event \<Rightarrow> bool) \<Rightarrow> loop_state \<Rightarrow> loop_state \<Rightarrow> bool" for A where
  none: "lsteps A s s"
| more: "lsteps A s t \<Longrightarrow> lstep t e u \<Longrightarrow> A e \<Longrightarrow> lsteps A s u"

inductive_cases lstep_checkE: "lstep s EvCheck t"
inductive_cases lstep_readyE: "lstep s EvReady t"
inductive_cases lstep_doneE: "lstep s (EvDone lm) t"
inductive_cases lstep_bodyE: "lstep s (EvBody i re) t"
inductive_cases lstep_finishE: "lstep s (EvFinish i b a now) t"

section \<open>What the loop's operations on the plan keep\<close>

text \<open>
  What a node must have come to for its dependents to start: success, or a failure or a skip
  that its \<open>continueOn\<close> settings allow for. For a failure the decision may rest on the exit
  code, the log, or the cached answer of an earlier check.
\<close>

definition policy_allows :: "node \<Rightarrow> bool" where
  "policy_allows n \<longleftrightarrow>
     (let co = sp_ContinueOn (n_step n) in
      Status n = NodeSucceeded \<or> Status n = NodePartiallySucceeded
      \<or> Status n = NodeFailed \<and> (co_Failure co \<or> co_ExitCode co \<noteq> [] \<or> co_Output co \<noteq> []
          \<or> getBoolVariable (continue_cache_key n) n = Some True)
      \<or> Status n = NodeSkipped \<and> (ns_SkippedByRetry (n_state n) \<or> co_Skipped co))"

lemma policy_allows_continue:
  assumes "ShouldContinue lm n = (b, n')"
  shows "policy_allows n \<Longrightarrow> policy_allows n'"
    and "b \<Longrightarrow> Status n = NodeFailed \<or> Status n = NodeSkipped \<Longrightarrow> policy_allows n"
proof -
  show "policy_allows n'" if ok: "policy_allows n"
  proof (cases "Status n = NodeFailed \<and> getBoolVariable (continue_cache_key n) n \<noteq> Some True
      \<and> \<not> co_Failure (sp_ContinueOn (n_step n))")
    case True
    then have "co_ExitCode (sp_ContinueOn (n_step n)) \<noteq> [] \<or> co_Output (sp_ContinueOn (n_step n)) \<noteq> []"
      using ok by (simp add: policy_allows_def Let_def)
    then show ?thesis using True ShouldContinue_frame(2,3) [OF assms]
      by (auto simp: policy_allows_def Let_def)
  next
    case False
    then have "n' = n" using assms
      by (cases "Status n") (auto simp: ShouldContinue_def Let_def split: if_splits)
    with ok show ?thesis by simp
  qed
  show "policy_allows n" if "b" "Status n = NodeFailed \<or> Status n = NodeSkipped"
    using assms that
    by (auto simp: policy_allows_def ShouldContinue_def Let_def MatchExitCode_def
        split: option.splits if_splits sum.splits)
qed

text \<open>
  Readiness checks keep the structure of the plan, the status of every node that has left
  the not-started state, and what allows the dependents of a node to start.
\<close>

definition idle :: "node_status \<Rightarrow> bool" where
  "idle s \<longleftrightarrow> s = NodeNotStarted \<or> s = NodeAborted \<or> s = NodeSkipped"

lemma idle_simps [simp]: "idle NodeNotStarted" "idle NodeAborted" "idle NodeSkipped"
  by (simp_all add: idle_def)

definition pframe :: "plan \<Rightarrow> plan \<Rightarrow> bool" where
  "pframe p p' \<longleftrightarrow> map n_id (p_nodes p') = map n_id (p_nodes p)
     \<and> map n_step (p_nodes p') = map n_step (p_nodes p)
     \<and> p_nodeByID p' = p_nodeByID p \<and> p_nodeByName p' = p_nodeByName p
     \<and> p_DependencyMap p' = p_DependencyMap p \<and> p_DependantMap p' = p_DependantMap p
     \<and> p_startedAt p' = p_startedAt p
     \<and> (\<forall>i < length (p_nodes p). status_at p i \<noteq> NodeNotStarted \<longrightarrow> status_at p' i = status_at p i)
     \<and> (\<forall>i < length (p_nodes p). status_at p i = NodeNotStarted \<longrightarrow> idle (status_at p' i))
     \<and> (\<forall>i < length (p_nodes p). policy_allows (p_nodes p ! i) \<longrightarrow> policy_allows (p_nodes p' ! i))"

lemma pframe_length: "pframe p p' \<Longrightarrow> length (p_nodes p') = length (p_nodes p)"
  unfolding pframe_def by (metis length_map)

lemma pframe_refl [simp]: "pframe p p"
  by (simp add: pframe_def)

lemma pframe_trans [trans]:
  assumes "pframe p q" "pframe q r"
  shows "pframe p r"
proof -
  have "length (p_nodes q) = length (p_nodes p)" using assms(1) by (rule pframe_length)
  moreover have "idle (status_at r i)" if "i < length (p_nodes p)" "status_at p i = NodeNotStarted" for i
    using that assms calculation unfolding pframe_def
    by (cases "status_at q i = NodeNotStarted") auto
  ultimately show ?thesis using assms unfolding pframe_def by auto
qed

lemma pframe_replace:
  assumes "n_id m = n_id (p_nodes p ! i)" "n_step m = n_step (p_nodes p ! i)"
    and "status_at p i = NodeNotStarted \<and> idle (Status m) \<or>
      Status m = status_at p i \<and> (policy_allows (p_nodes p ! i) \<longrightarrow> policy_allows m)"
  shows "pframe p (update_node i (\<lambda>_. m) p)"
proof -
  have "map n_id (p_nodes (update_node i (\<lambda>_. m) p)) = map n_id (p_nodes p)"
    "map n_step (p_nodes (update_node i (\<lambda>_. m) p)) = map n_step (p_nodes p)"
    using assms(1,2) by (simp_all add: update_node_def map_update)
      (metis length_map list_update_beyond list_update_id not_le nth_map)+
  moreover have "status_at (update_node i (\<lambda>_. m) p) j = status_at p j"
    if "j < length (p_nodes p)" "status_at p j \<noteq> NodeNotStarted" for j
    using assms(3) that by (cases "j = i") (auto simp: update_node_def)
  moreover have "policy_allows (p_nodes (update_node i (\<lambda>_. m) p) ! j)"
    if "j < length (p_nodes p)" "policy_allows (p_nodes p ! j)" for j
    using assms(3) that by (cases "j = i") (auto simp: update_node_def policy_allows_def Let_def)
  moreover have "idle (status_at (update_node i (\<lambda>_. m) p) j)"
    if "j < length (p_nodes p)" "status_at p j = NodeNotStarted" for j
    using assms(3) that by (cases "j = i") (auto simp: update_node_def)
  ultimately show ?thesis by (simp add: pframe_def)
qed

lemma pframe_update:
  assumes "\<And>n. n_id (f n) = n_id n" "\<And>n. n_step (f n) = n_step n"
    and "status_at p i = NodeNotStarted" "idle (Status (f (p_nodes p ! i)))"
  shows "pframe p (update_node i f p)"
  using pframe_replace [of "f (p_nodes p ! i)" p i] assms by (simp add: update_node_def)

lemma pframe_continue_at: "continue_at lm j p = (b, p') \<Longrightarrow> pframe p p'"
proof -
  assume "continue_at lm j p = (b, p')"
  then obtain n where c: "ShouldContinue lm (p_nodes p ! j) = (b, n)"
    and p': "p' = update_node j (\<lambda>_. n) p" by (auto simp: continue_at_def split: prod.splits)
  show ?thesis unfolding p' using ShouldContinue_frame [OF c] policy_allows_continue(1) [OF c]
    by (intro pframe_replace) simp_all
qed

lemma pframe_ready_deps:
  "status_at p i = NodeNotStarted \<Longrightarrow> i < length (p_nodes p) \<Longrightarrow>
   ready_deps lm i ds p = (b, p') \<Longrightarrow> pframe p p'"
proof (induction ds arbitrary: p)
  case (Cons d ds)
  have upd: "pframe q (update_node i (rule_out s e) q)" "pframe q (update_node i (SetStatus s) q)"
    if "status_at q i = NodeNotStarted" "idle s" for q s e
    using that by (intro pframe_update; simp add: rule_out_def node_simps)+
  show ?case
  proof (cases "p_nodeByID p d")
    case None
    with Cons.prems show ?thesis by simp
  next
    case (Some j)
    obtain ok p1 where c: "continue_at lm j p = (ok, p1)" by fastforce
    have p1: "pframe p p1" using pframe_continue_at [OF c] .
    have len: "length (p_nodes p1) = length (p_nodes p)" using p1 by (rule pframe_length)
    have st: "status_at p1 i = NodeNotStarted"
      using continue_at_frame(1) [OF c] Cons.prems(1,2) len status_at_statuses by metis
    have rec: "pframe p p'" if "ready_deps lm i ds p1 = (b, p')"
      using Cons.IH [OF st _ that] len Cons.prems(2) p1 pframe_trans by auto
    have cont: "pframe p p'" if "(case continue_at lm j p of
          (True, q) \<Rightarrow> ready_deps lm i ds q
        | (False, q) \<Rightarrow> (False, update_node i (rule_out s e) q)) = (b, p')" "idle s" for s e
      using that c rec pframe_trans [OF p1 upd(1) [OF st]] by (cases ok) auto
    show ?thesis
      using Cons.IH [OF Cons.prems(1,2)] Cons.prems(3) Some upd [OF Cons.prems(1)] cont
      by (cases "status_at p j") (auto split: if_splits)
  qed
qed simp

lemma pframe_isReady:
  "status_at p i = NodeNotStarted \<Longrightarrow> i < length (p_nodes p) \<Longrightarrow> isReady lm i p = (b, p') \<Longrightarrow>
   pframe p p'"
  unfolding isReady_def by (rule pframe_ready_deps)

definition positions_ok :: "plan \<Rightarrow> bool" where
  "positions_ok p \<longleftrightarrow> (\<forall>d j. p_nodeByID p d = Some j \<longrightarrow> j < length (p_nodes p))"

lemma positions_ok_pframe: "pframe p p' \<Longrightarrow> positions_ok p' \<longleftrightarrow> positions_ok p"
  using pframe_length [of p p'] by (simp add: positions_ok_def pframe_def)

section \<open>What the goroutine of a node keeps\<close>

text \<open>
  A goroutine changes neither the cancel flag nor the limit of active steps, keeps the id of its
  node, and never puts the node back to not started, provided no executor reports that status.
\<close>

definition env_ok :: "run_env \<Rightarrow> bool" where
  "env_ok re \<longleftrightarrow> (\<forall>ie \<in> set (re_iters re).
     signals_only ie \<and> xo_status (ie_outcome ie) \<noteq> Some (Inr NodeNotStarted))"

definition nframe :: "runner \<times> node \<Rightarrow> runner \<times> node \<Rightarrow> bool" where
  "nframe a b \<longleftrightarrow> r_canceled (fst b) = r_canceled (fst a)
     \<and> r_maxActiveRuns (fst b) = r_maxActiveRuns (fst a) \<and> r_dry (fst b) = r_dry (fst a)
     \<and> n_id (snd b) = n_id (snd a) \<and> sp_Depends (n_step (snd b)) = sp_Depends (n_step (snd a))
     \<and> (Status (snd a) \<noteq> NodeNotStarted \<longrightarrow> Status (snd b) \<noteq> NodeNotStarted)"

lemma nframe_refl [simp]: "nframe a a"
  by (simp add: nframe_def)

lemma nframe_trans [trans]: "nframe a b \<Longrightarrow> nframe b c \<Longrightarrow> nframe a c"
  by (simp add: nframe_def)

lemma nframe_abort: "abort_effect f \<Longrightarrow> nframe (r, n) (r, f n)"
  using abort_effect_Status [of f n] abort_effect_same [of f n n]
  by (auto simp: nframe_def same_policy_def)

lemma Execute_Status:
  assumes "abort_effect sg" "xo_status xo \<noteq> Some (Inr NodeNotStarted)" "Status n \<noteq> NodeNotStarted"
  shows "Status (fst (Execute sg xo n)) \<noteq> NodeNotStarted"
proof -
  obtain n1 e where s: "setupExecutor xo n = (n1, e)" by fastforce
  have n1: "Status n1 = Status n"
    using s by (auto simp: setupExecutor_def resetForExecution_def Let_def node_simps
        split: option.splits if_splits sum.splits)
  show ?thesis
  proof (cases e)
    case (Some err)
    with s n1 assms(3) show ?thesis by (simp add: Execute_def node_simps)
  next
    case None
    let ?t = "if 0 < sp_Timeout (n_step n) then sp_Timeout (n_step n) else 0"
    obtain c err n2 where run: "runCommand xo ?t (sg n1) = (c, err, n2)" by (metis prod_cases3)
    have "Status (sg n1) \<noteq> NodeNotStarted" using abort_effect_Status [OF assms(1), of n1] n1 assms(3) by auto
    then have n2: "Status n2 \<noteq> NodeNotStarted"
      using run by (auto simp: runCommand_def handleTimeout_def handleCommandError_def Let_def
          node_simps split: option.splits if_splits)
    obtain n3 e3 where cap: "captureOutput xo
        (captureExecutorState xo (SetExitCode c (SetError err n2))) = (n3, e3)" by fastforce
    have "Status (captureExecutorState xo m) = Status m" for m
      by (simp add: captureExecutorState_def Let_def node_simps split: option.splits)
    moreover have "Status n3 = Status m" if "captureOutput xo m = (n3, e3)" for m
      using that by (auto simp: captureOutput_def node_simps split: if_splits sum.splits)
    ultimately have n3: "Status n3 = Status n2" using cap by (simp add: node_simps)
    obtain n4 e4 where det: "determineNodeStatus xo n3 = (n4, e4)" by fastforce
    have "Status n4 \<noteq> NodeNotStarted"
      using det n2 n3 assms(2)
      by (auto simp: determineNodeStatus_def node_simps split: option.splits sum.splits)
    with s None run cap det n2 n3 show ?thesis by (cases e3) (simp_all add: Execute_def)
  qed
qed

lemma nframe_execNode:
  assumes "signals_only ie" "xo_status (ie_outcome ie) \<noteq> Some (Inr NodeNotStarted)"
    and "execNode dry ie n = (n', e)"
  shows "nframe (r, n) (r, n')"
proof (cases dry)
  case False
  then have "n' = fst (Execute (ie_during ie) (ie_outcome ie) n)"
    using assms(3) by (simp add: execNode_def)
  then show ?thesis
    using Execute_same [of "ie_during ie" n "ie_outcome ie"] assms(1)
      Execute_Status [of "ie_during ie" "ie_outcome ie" n] assms(2)
    by (auto simp: nframe_def same_policy_def signals_only_def)
qed (use assms in \<open>auto simp: execNode_def\<close>)

lemma nframe_handle:
  assumes "handleNodeExecutionError lm ext canc now st e r n = (b, r', n')"
  shows "nframe (r, n) (r', n')"
proof -
  have same: "same_policy n m" if "ShouldMarkSuccess lm (SetStatus s n) = (ok, m)" for ok m s
    using ShouldMarkSuccess_same [OF that, of n] by simp
  have "n_id m = n_id n" "n_step m = n_step n"
    if "ShouldMarkSuccess lm (SetStatus s n) = (ok, m)" for ok m s
    using same [OF that] by (simp_all add: same_policy_def)
  then show ?thesis
    using assms
    by (auto simp: handleNodeExecutionError_def shouldRetryNode_def nframe_def setLastError_def
        node_simps split: option.splits if_splits prod.splits bool.splits)
qed

lemma nframe_pass:
  assumes sig: "signals_only ie" and xo: "xo_status (ie_outcome ie) \<noteq> Some (Inr NodeNotStarted)"
  shows "case loop_pass progress st ie r n of
      Inl (r', n', x) \<Rightarrow> nframe (r, n) (r', n') | Inr (r', n') \<Rightarrow> nframe (r, n) (r', n')"
proof -
  let ?m = "ie_before ie n"
  have m: "nframe (r, n) (r, ?m)" using sig by (simp add: nframe_abort signals_only_def)
  have panic: "nframe (r, n) (r, ie_during ie (fst (setupExecutor (ie_outcome ie) ?m)))"
  proof -
    have "Status (fst (setupExecutor (ie_outcome ie) ?m)) = Status ?m"
      by (auto simp: setupExecutor_def resetForExecution_def Let_def node_simps
          split: option.splits sum.splits)
    then have "nframe (r, ?m) (r, fst (setupExecutor (ie_outcome ie) ?m))"
      using setupExecutor_same [of ?m "ie_outcome ie"] by (simp add: nframe_def same_policy_def)
    also have "nframe \<dots> (r, ie_during ie (fst (setupExecutor (ie_outcome ie) ?m)))"
      using sig by (simp add: nframe_abort signals_only_def)
    finally show ?thesis using m nframe_trans by blast
  qed
  obtain n1 e where ex: "execNode (r_dry r) ie ?m = (n1, e)" by fastforce
  obtain b r2 n2 where h: "handleNodeExecutionError (ie_log ie) (ie_external ie)
      (ie_canceledErr ie) (ie_now ie) st e r (ie_after ie n1) = (b, r2, n2)" by (metis prod_cases3)
  have "nframe (r, n1) (r, ie_after ie n1)" using sig by (simp add: nframe_abort signals_only_def)
  then have n2: "nframe (r, n) (r2, n2)"
    using m nframe_execNode [OF sig xo ex] nframe_handle [OF h] nframe_trans by blast
  have n3: "nframe (r, n) (r2, IncDoneCount n2)"
    "nframe (r, n) (prepareNodeForRepeat r2 n2)" "nframe (r, n) (prepareNodeForRepeat r2 (IncDoneCount n2))"
    using n2 by (auto simp: nframe_def prepareNodeForRepeat_def setLastError_def Let_def node_simps)
  show ?thesis
    using m panic n2 n3 ex h by (cases b) (auto simp: loop_pass_def Let_def split: if_splits)
qed

lemma nframe_exec_loop:
  "exec_loop progress st ies r n = Some (r', n', x) \<Longrightarrow>
   \<forall>ie \<in> set ies. signals_only ie \<and> xo_status (ie_outcome ie) \<noteq> Some (Inr NodeNotStarted) \<Longrightarrow>
   nframe (r, n) (r', n')"
proof (induction ies arbitrary: r n)
  case (Cons ie ies)
  then have f: "case loop_pass progress st ie r n of
      Inl (r', n', x) \<Rightarrow> nframe (r, n) (r', n') | Inr (r', n') \<Rightarrow> nframe (r, n) (r', n')"
    by (intro nframe_pass) simp_all
  show ?case
  proof (cases "loop_pass progress st ie r n")
    case (Inl res)
    with f Cons.prems(1) show ?thesis by auto
  next
    case (Inr rn)
    obtain r1 n1 where rn: "rn = (r1, n1)" by fastforce
    with Inr f have "nframe (r, n) (r1, n1)" by simp
    moreover have "nframe (r1, n1) (r', n')" using Cons Inr rn by auto
    ultimately show ?thesis by (rule nframe_trans)
  qed
qed simp

lemma nframe_settle: "settle_node canc ce r n = (r', n') \<Longrightarrow> nframe (r, n) (r', n')"
  by (auto simp: settle_node_def Let_def Teardown_def nframe_def setLastError_def node_simps
      split: if_splits option.splits prod.splits)

lemma nframe_preconditions:
  "meetsPreconditions ev n = (ok, n') \<Longrightarrow> nframe (r, n) (r, n')"
  using evalPreconditions_frame [of ev n]
  by (auto simp: meetsPreconditions_def nframe_def node_simps
      split: prod.splits option.splits if_splits)

lemma nframe_runNodeExecution:
  assumes "runNodeExecution progress st re r n = Some (r', n', panicked)" "env_ok re"
  shows "nframe (r, n) (r', n')"
proof -
  obtain ok n1 where pre: "meetsPreconditions (re_pre re) n = (ok, n1)" by fastforce
  note n1 = nframe_preconditions [OF pre, of r]
  show ?thesis
  proof (cases ok)
    case False
    with assms(1) pre n1 show ?thesis by (auto simp: runNodeExecution_def)
  next
    case True
    let ?n2 = "case re_inherited re of None \<Rightarrow> n1 | Some ms \<Rightarrow> SetChatMessages ms n1"
    have "nframe (r, n1) (r, ?n2)" by (auto simp: nframe_def node_simps split: option.splits)
    with n1 have n2: "nframe (r, n) (r, ?n2)" by (rule nframe_trans)
    from assms(1) pre True obtain r3 n3 x where
      loop: "exec_loop progress st (re_iters re) r ?n2 = Some (r3, n3, x)"
      by (auto simp: runNodeExecution_def Let_def split: option.splits)
    have n3: "nframe (r, n) (r3, n3)"
      using nframe_exec_loop [OF loop] assms(2) n2 by (auto simp: env_ok_def intro: nframe_trans)
    obtain r4 n4 where s: "settle_node (re_canceledEnd re) (re_closeErr re) r3 n3 = (r4, n4)"
      by fastforce
    have "nframe (r, n) (r4, n4)" using n3 nframe_settle [OF s] by (rule nframe_trans)
    with assms(1) pre True loop s n3 show ?thesis
      by (cases x) (auto simp: runNodeExecution_def Let_def)
  qed
qed

lemma nframe_Prepare: "Prepare pe n = (n', e) \<Longrightarrow> nframe (r, n) (r, n')"
proof -
  assume p: "Prepare pe n = (n', e)"
  have fs: "nframe (r, m) (r, m')" if "Setup es mg a lf t m = (m', e')" for es mg a lf t m m' e'
    using that by (auto simp: Setup_def Let_def nframe_def node_simps split: sum.splits if_splits)
  have fr: "nframe (r, m) (r, m')" if "setupRetryPolicy ei a m = (m', e')" for ei a m m' e'
    using that by (auto simp: setupRetryPolicy_def Let_def nframe_def node_simps
        split: sum.splits if_splits)
  have fp: "nframe (r, m) (r, m')" if "setupRepeatPolicy ei a m = (m', e')" for ei a m m' e'
    using that by (auto simp: setupRepeatPolicy_def Let_def nframe_def node_simps
        split: sum.splits if_splits)
  obtain n1 e1 where s: "Setup (pe_evalStr pe) (pe_merged pe) (pe_alloc pe) (pe_logFile pe)
      (pe_now pe) n = (n1, e1)" by fastforce
  obtain n2 e2 where t: "setupRetryPolicy (pe_evalInt pe) (pe_alloc pe) n1 = (n2, e2)" by fastforce
  obtain n3 e3 where u: "setupRepeatPolicy (pe_evalInt pe) (pe_alloc pe) n2 = (n3, e3)" by fastforce
  have "n' = n \<or> n' = n1 \<or> n' = n2 \<or> n' = n3"
    using p s t u
    by (cases "pe_mkdirErr pe"; cases e1; cases "pe_outputsErr pe"; cases e2)
      (simp_all add: Prepare_def)
  moreover have n1: "nframe (r, n) (r, n1)" using fs [OF s] .
  moreover have n2: "nframe (r, n) (r, n2)" using n1 fr [OF t] by (rule nframe_trans)
  moreover have "nframe (r, n) (r, n3)" using n2 fp [OF u] by (rule nframe_trans)
  ultimately show ?thesis by auto
qed

lemma nframe_goroutine:
  assumes "node_goroutine progress st re r n = Some (r', n', panicked)" "env_ok re"
  shows "nframe (r, n) (r', n')"
proof -
  obtain n1 e where prep: "(if r_dry r then (n, None) else Prepare (re_prep re) n) = (n1, e)"
    by fastforce
  have n1: "nframe (r, n) (r, n1)" using prep nframe_Prepare by (auto split: if_splits)
  show ?thesis
  proof (cases e)
    case None
    with assms(1) prep have "runNodeExecution progress st re r n1 = Some (r', n', panicked)"
      by (simp add: node_goroutine_def)
    from n1 nframe_runNodeExecution [OF this assms(2)] show ?thesis by (rule nframe_trans)
  next
    case (Some err)
    with assms(1) prep n1 show ?thesis
      by (auto simp: node_goroutine_def nframe_def setLastError_def node_simps)
  qed
qed

lemma nframe_deferred:
  assumes "recoverNodePanic panicked a r n = (r1, n1)" "finishNode now r1 n1 = (r2, n2)"
  shows "nframe (r, n) (r2, n2)"
proof -
  have "nframe (r, n) (r1, n1)"
    using assms(1) by (cases panicked)
      (auto simp: recoverNodePanic_def nframe_def setLastError_def Let_def node_simps)
  moreover have "nframe (r1, n1) (r2, n2)"
    using assms(2) by (cases "Status n1") (auto simp: finishNode_def nframe_def node_simps)
  ultimately show ?thesis by (rule nframe_trans)
qed

section \<open>What a ready node can rely on\<close>

definition deps_met :: "plan \<Rightarrow> nat \<Rightarrow> bool" where
  "deps_met p i \<longleftrightarrow> (\<forall>d \<in> set (Dependencies p (n_id (p_nodes p ! i))).
     \<exists>j. p_nodeByID p d = Some j \<and> policy_allows (p_nodes p ! j))"

text \<open>The steps of the loop and of the goroutines only ever add to what has been reached.\<close>

definition grows :: "plan \<Rightarrow> plan \<Rightarrow> bool" where
  "grows p p' \<longleftrightarrow> map n_id (p_nodes p') = map n_id (p_nodes p)
     \<and> p_nodeByID p' = p_nodeByID p \<and> p_DependencyMap p' = p_DependencyMap p
     \<and> p_DependantMap p' = p_DependantMap p
     \<and> (\<forall>i < length (p_nodes p). status_at p i \<noteq> NodeNotStarted \<longrightarrow> status_at p' i \<noteq> NodeNotStarted)
     \<and> (\<forall>i < length (p_nodes p). policy_allows (p_nodes p ! i) \<longrightarrow> policy_allows (p_nodes p' ! i))"

lemma grows_refl [simp]: "grows p p"
  by (simp add: grows_def)

lemma grows_length: "grows p p' \<Longrightarrow> length (p_nodes p') = length (p_nodes p)"
  unfolding grows_def by (metis length_map)

lemma grows_pframe: "pframe p p' \<Longrightarrow> grows p p'"
  by (auto simp: grows_def pframe_def)

lemma grows_positions: "grows p p' \<Longrightarrow> positions_ok p \<Longrightarrow> positions_ok p'"
  using grows_length [of p p'] by (simp add: positions_ok_def grows_def)

lemma deps_met_grows:
  assumes "grows p p'" "positions_ok p" "i < length (p_nodes p)" "deps_met p i"
  shows "deps_met p' i"
proof -
  have "n_id (p_nodes p' ! i) = n_id (p_nodes p ! i)"
    using assms(1,3) grows_length [OF assms(1)] unfolding grows_def by (metis nth_map)
  then show ?thesis
    using assms unfolding deps_met_def positions_ok_def grows_def Dependencies_def by fastforce
qed

lemma grows_replace:
  assumes "n_id m = n_id (p_nodes p ! i)"
    and "status_at p i \<noteq> NodeNotStarted \<longrightarrow> Status m \<noteq> NodeNotStarted"
    and "policy_allows (p_nodes p ! i) \<longrightarrow> policy_allows m"
  shows "grows p (update_node i (\<lambda>_. m) p)"
proof -
  have "map n_id (p_nodes (update_node i (\<lambda>_. m) p)) = map n_id (p_nodes p)"
    using assms(1) by (simp add: update_node_def map_update)
      (metis length_map list_update_beyond list_update_id not_le nth_map)
  moreover have "policy_allows (p_nodes (update_node i (\<lambda>_. m) p) ! j)"
    if "j < length (p_nodes p)" "policy_allows (p_nodes p ! j)" for j
    using assms(3) that by (cases "j = i") (auto simp: update_node_def)
  moreover have "status_at (update_node i (\<lambda>_. m) p) j \<noteq> NodeNotStarted"
    if "j < length (p_nodes p)" "status_at p j \<noteq> NodeNotStarted" for j
    using assms(2) that by (cases "j = i") (auto simp: update_node_def)
  ultimately show ?thesis by (simp add: grows_def)
qed

lemma grows_abort:
  assumes "\<And>n. abort_effect (f n)"
  shows "grows p (p\<lparr>p_nodes := map (\<lambda>n. f n n) (p_nodes p)\<rparr>)"
proof -
  have "n_id (f n n) = n_id n" for n
    using abort_effect_same [OF assms, of n n n] by (simp add: same_policy_def)
  moreover have "Status (f n n) \<noteq> NodeNotStarted" if "Status n \<noteq> NodeNotStarted" for n
    using abort_effect_Status [OF assms, of n n] that by auto
  moreover have "policy_allows (f n n)" if "policy_allows n" for n
  proof -
    have "f n n = n" using assms [of n] that
      unfolding abort_effect_def policy_allows_def Let_def by auto
    with that show ?thesis by simp
  qed
  ultimately show ?thesis by (simp add: grows_def)
qed

lemma ready_deps_met:
  "ready_deps lm i ds p = (True, p') \<Longrightarrow> status_at p i = NodeNotStarted \<Longrightarrow>
   i < length (p_nodes p) \<Longrightarrow> positions_ok p \<Longrightarrow> d \<in> set ds \<Longrightarrow>
   \<exists>j. p_nodeByID p d = Some j \<and> policy_allows (p_nodes p' ! j)"
proof (induction ds arbitrary: p)
  case (Cons c ds)
  from Cons.prems(1) obtain j where j: "p_nodeByID p c = Some j" by (auto split: option.splits)
  then have jl: "j < length (p_nodes p)" using Cons.prems(4) by (simp add: positions_ok_def)
  obtain ok p1 where c: "continue_at lm j p = (ok, p1)" by fastforce
  obtain n where sc: "ShouldContinue lm (p_nodes p ! j) = (ok, n)"
    using c by (auto simp: continue_at_def split: prod.splits)
  have p1: "pframe p p1" using pframe_continue_at [OF c] .
  obtain q where q: "q = p \<or> q = p1" and rest: "ready_deps lm i ds q = (True, p')"
    and al: "policy_allows (p_nodes p ! j)"
  proof (cases "status_at p j")
    case NodeFailed
    with Cons.prems(1) j c that show thesis
      using policy_allows_continue(2) [OF sc] by (auto split: bool.splits)
  next
    case NodeSkipped
    with Cons.prems(1) j c that show thesis
      using policy_allows_continue(2) [OF sc]
      by (cases "ns_SkippedByRetry (n_state (p_nodes p ! j))")
        (auto simp: policy_allows_def Let_def split: bool.splits)
  qed (use Cons.prems(1) j that in \<open>auto simp: policy_allows_def Let_def\<close>)
  have fr: "pframe p q" using q p1 by auto
  then have len: "length (p_nodes q) = length (p_nodes p)" by (rule pframe_length)
  have st: "status_at q i = NodeNotStarted"
    using q Cons.prems(2,3) continue_at_frame(1,8) [OF c] by (metis status_at_statuses)
  have ok: "positions_ok q" using positions_ok_pframe [OF fr] Cons.prems(4) by simp
  have "pframe q p'" using pframe_ready_deps [OF st _ rest] len Cons.prems(3) by simp
  then have "policy_allows (p_nodes p' ! j)"
    using al fr len jl unfolding pframe_def by auto
  moreover have "p_nodeByID q = p_nodeByID p" using fr by (simp add: pframe_def)
  ultimately show ?case using j Cons.IH [OF rest st _ ok] len Cons.prems(3,5) by auto
qed simp

lemma isReady_met:
  assumes "isReady lm i p = (True, p')" "status_at p i = NodeNotStarted" "i < length (p_nodes p)"
    "positions_ok p"
  shows "deps_met p' i"
proof -
  have fr: "pframe p p'" using pframe_isReady [OF assms(2,3,1)] .
  then have "n_id (p_nodes p' ! i) = n_id (p_nodes p ! i)"
    using assms(3) pframe_length [OF fr] unfolding pframe_def by (metis nth_map)
  then show ?thesis
    using fr ready_deps_met [OF assms(1) [unfolded isReady_def] assms(2-4)]
    by (auto simp: deps_met_def Dependencies_def pframe_def)
qed

text \<open>Every node on the ready channel has its dependencies met.\<close>

definition all_met :: "plan \<Rightarrow> nat list \<Rightarrow> bool" where
  "all_met p is \<longleftrightarrow> (\<forall>i \<in> set is. i < length (p_nodes p) \<and> deps_met p i)"

lemma all_met_grows: "grows p p' \<Longrightarrow> positions_ok p \<Longrightarrow> all_met p is \<Longrightarrow> all_met p' is"
  using deps_met_grows grows_length by (simp add: all_met_def)

definition ready_inv :: "plan \<Rightarrow> nat list \<Rightarrow> bool" where
  "ready_inv p ch \<longleftrightarrow> positions_ok p \<and> all_met p ch"

lemma ready_inv_check:
  assumes "isReady lm i p = (b, p')" "status_at p i = NodeNotStarted" "i < length (p_nodes p)"
    "ready_inv p ch"
  shows "pframe p p'" "ready_inv p' ch" "b \<Longrightarrow> send cap ch i = Some ch' \<Longrightarrow> ready_inv p' ch'"
proof -
  show fr: "pframe p p'" using pframe_isReady [OF assms(2,3,1)] .
  have ok: "positions_ok p" "positions_ok p'"
    using assms(4) positions_ok_pframe [OF fr] by (simp_all add: ready_inv_def)
  have ch: "all_met p' ch"
    using all_met_grows [OF grows_pframe [OF fr] ok(1)] assms(4) by (simp add: ready_inv_def)
  then show "ready_inv p' ch" using ok(2) by (simp add: ready_inv_def)
  assume b and s: "send cap ch i = Some ch'"
  then have "deps_met p' i" using isReady_met assms(1-3) ok(1) by simp
  with s ok(2) ch assms(3) pframe_length [OF fr] show "ready_inv p' ch'"
    by (auto simp: ready_inv_def all_met_def send_def split: if_splits)
qed

lemma process_children_frame:
  "process_children lm cap cs p ch q = Some (p', ch', q') \<Longrightarrow> ready_inv p ch \<Longrightarrow>
   pframe p p' \<and> ready_inv p' ch'"
proof (induction cs arbitrary: p ch q)
  case (Cons cid cs)
  show ?case
  proof (cases "p_nodeByID p cid")
    case None
    with Cons show ?thesis by simp
  next
    case (Some c)
    have cl: "c < length (p_nodes p)"
      using Some Cons.prems(2) by (simp add: ready_inv_def positions_ok_def)
    show ?thesis
    proof (cases "status_at p c = NodeNotStarted")
      case False
      with Cons Some show ?thesis by simp
    next
      case ns: True
      obtain b p1 where r: "isReady lm c p = (b, p1)" by fastforce
      note inv = ready_inv_check [OF r ns cl Cons.prems(2)]
      show ?thesis
      proof (cases b)
        case True
        with Cons.prems(1) Some r ns obtain ch1 where s: "send cap ch c = Some ch1"
          and "process_children lm cap cs p1 ch1 q = Some (p', ch', q')"
          by (auto split: option.splits)
        from Cons.IH [OF this(2) inv(3) [OF True s]] inv(1) show ?thesis by (auto intro: pframe_trans)
      next
        case False
        with Cons.prems(1) Some r ns have "process_children lm cap cs p1 ch
            (if status_at p1 c \<noteq> NodeNotStarted then q @ [c] else q) = Some (p', ch', q')"
          by simp
        from Cons.IH [OF this inv(2)] inv(1) show ?thesis by (auto intro: pframe_trans)
      qed
    qed
  qed
qed simp

lemma process_queue_frame:
  "process_queue lm cap q p ch = Some (p', ch') \<Longrightarrow> ready_inv p ch \<Longrightarrow>
   pframe p p' \<and> ready_inv p' ch'"
proof (induction lm cap q p ch rule: process_queue.induct)
  case (2 lm cap cur q p ch)
  from 2(2) obtain p1 ch1 q1 where
    c: "process_children lm cap (Dependents p (n_id (p_nodes p ! cur))) p ch q = Some (p1, ch1, q1)"
    and rest: "process_queue lm cap q1 p1 ch1 = Some (p', ch')" by (auto split: option.splits)
  from process_children_frame [OF c 2(3)] have p1: "pframe p p1" and ch1: "ready_inv p1 ch1" by auto
  from 2(1) [OF c refl refl rest ch1] p1 show ?case by (auto intro: pframe_trans)
qed simp

lemma processCompletedNode_frame:
  "processCompletedNode lm cap canceled i p ch = Some (p', ch') \<Longrightarrow> ready_inv p ch \<Longrightarrow>
   pframe p p' \<and> ready_inv p' ch'"
  using process_queue_frame [of lm cap "[i]" p ch p' ch']
  by (auto simp: processCompletedNode_def simp del: process_queue.simps split: if_splits)

lemma initial_ready_frame:
  "initial_ready lm cap is p ch = Some (p', ch') \<Longrightarrow> ready_inv p ch \<Longrightarrow>
   \<forall>i \<in> set is. i < length (p_nodes p) \<Longrightarrow> pframe p p' \<and> ready_inv p' ch'"
proof (induction "is" arbitrary: p ch)
  case (Cons i "is")
  show ?case
  proof (cases "status_at p i = NodeNotStarted")
    case False
    with Cons show ?thesis by simp
  next
    case ns: True
    obtain b p1 where r: "isReady lm i p = (b, p1)" by fastforce
    have il: "i < length (p_nodes p)" using Cons.prems(3) by simp
    note inv = ready_inv_check [OF r ns il Cons.prems(2)]
    have bd: "\<forall>i \<in> set is. i < length (p_nodes p1)"
      using Cons.prems(3) pframe_length [OF inv(1)] by simp
    show ?thesis
    proof (cases b)
      case True
      with Cons.prems(1) r ns obtain ch1 where s: "send cap ch i = Some ch1"
        and "initial_ready lm cap is p1 ch1 = Some (p', ch')" by (auto split: option.splits)
      from Cons.IH [OF this(2) inv(3) [OF True s] bd] inv(1) show ?thesis
        by (auto intro: pframe_trans)
    next
      case False
      with Cons.prems(1) r ns have "initial_ready lm cap is p1 ch = Some (p', ch')" by simp
      from Cons.IH [OF this inv(2) bd] inv(1) show ?thesis by (auto intro: pframe_trans)
    qed
  qed
qed simp

section \<open>Nodes that panic\<close>

text \<open>
  A goroutine that panics leaves its node running or aborted: what it announces on \<open>doneCh\<close>
  is not yet the failure that \<open>recoverNodePanic\<close> records afterwards.
\<close>

definition active :: "node \<Rightarrow> bool" where
  "active n \<longleftrightarrow> Status n = NodeRunning \<or> Status n = NodeAborted"

lemma active_abort: "abort_effect f \<Longrightarrow> active n \<Longrightarrow> active (f n)"
  using abort_effect_Status [of f n] by (auto simp: active_def)

lemma handle_retry_Status:
  "handleNodeExecutionError lm ext canc now st e r n = (True, r', n') \<Longrightarrow> Status n' = NodeRunning"
  by (auto simp: handleNodeExecutionError_def shouldRetryNode_def node_simps
      split: option.splits if_splits prod.splits bool.splits)

lemma pass_active:
  assumes "signals_only ie" "active n"
  shows "case loop_pass progress st ie r n of
      Inl (r', n', x) \<Rightarrow> x = LoopPanic \<longrightarrow> active n' | Inr (r', n') \<Rightarrow> active n'"
proof -
  let ?m = "ie_before ie n"
  have "active ?m" using assms by (simp add: active_abort signals_only_def)
  moreover have "Status (fst (setupExecutor (ie_outcome ie) ?m)) = Status ?m"
    by (auto simp: setupExecutor_def resetForExecution_def Let_def node_simps
        split: option.splits sum.splits)
  ultimately have "active (fst (setupExecutor (ie_outcome ie) ?m))" by (simp add: active_def)
  then have panic: "active (ie_during ie (fst (setupExecutor (ie_outcome ie) ?m)))"
    using assms(1) by (simp add: active_abort signals_only_def)
  have rep: "active (snd (prepareNodeForRepeat r m))" for r m
    by (simp add: prepareNodeForRepeat_def active_def Let_def node_simps)
  obtain n1 e where ex: "execNode (r_dry r) ie ?m = (n1, e)" by fastforce
  obtain b r2 n2 where h: "handleNodeExecutionError (ie_log ie) (ie_external ie)
      (ie_canceledErr ie) (ie_now ie) st e r (ie_after ie n1) = (b, r2, n2)" by (metis prod_cases3)
  have "b \<Longrightarrow> active n2" using handle_retry_Status h by (auto simp: active_def)
  then show ?thesis
    using panic rep [of r2 n2] rep [of r2 "IncDoneCount n2"] ex h
    by (cases b) (auto simp: loop_pass_def Let_def split: prod.splits)
qed

lemma exec_loop_active:
  "exec_loop progress st ies r n = Some (r', n', LoopPanic) \<Longrightarrow>
   \<forall>ie \<in> set ies. signals_only ie \<Longrightarrow> active n \<Longrightarrow> active n'"
proof (induction ies arbitrary: r n)
  case (Cons ie ies)
  then have "case loop_pass progress st ie r n of
      Inl (r', n', x) \<Rightarrow> x = LoopPanic \<longrightarrow> active n' | Inr (r', n') \<Rightarrow> active n'"
    by (intro pass_active) simp_all
  with Cons show ?case by (auto split: sum.splits prod.splits)
qed simp

lemma Prepare_Status: "Prepare pe n = (n', e) \<Longrightarrow> Status n' = Status n"
proof -
  assume p: "Prepare pe n = (n', e)"
  have fs: "Status m' = Status m" if "Setup es mg a lf t m = (m', e')" for es mg a lf t m m' e'
    using that by (auto simp: Setup_def Let_def node_simps split: sum.splits if_splits)
  have fr: "Status m' = Status m" if "setupRetryPolicy ei a m = (m', e')" for ei a m m' e'
    using that by (auto simp: setupRetryPolicy_def Let_def node_simps split: sum.splits if_splits)
  have fp: "Status m' = Status m" if "setupRepeatPolicy ei a m = (m', e')" for ei a m m' e'
    using that by (auto simp: setupRepeatPolicy_def Let_def node_simps split: sum.splits if_splits)
  obtain n1 e1 where s: "Setup (pe_evalStr pe) (pe_merged pe) (pe_alloc pe) (pe_logFile pe)
      (pe_now pe) n = (n1, e1)" by fastforce
  obtain n2 e2 where t: "setupRetryPolicy (pe_evalInt pe) (pe_alloc pe) n1 = (n2, e2)" by fastforce
  obtain n3 e3 where u: "setupRepeatPolicy (pe_evalInt pe) (pe_alloc pe) n2 = (n3, e3)" by fastforce
  have "n' = n \<or> n' = n1 \<or> n' = n2 \<or> n' = n3"
    using p s t u
    by (cases "pe_mkdirErr pe"; cases e1; cases "pe_outputsErr pe"; cases e2)
      (simp_all add: Prepare_def)
  with fs [OF s] fr [OF t] fp [OF u] show ?thesis by auto
qed

lemma meets_Status:
  assumes "meetsPreconditions ev n = (True, n')"
  shows "Status n' = Status n"
proof -
  obtain e m where p: "evalPreconditions ev n = (e, m)" by fastforce
  with assms have "n' = m" by (cases e) (simp_all add: meetsPreconditions_def)
  with evalPreconditions_frame(2) [OF p] show ?thesis by simp
qed

lemma goroutine_panic_active:
  assumes "node_goroutine progress st re r n = Some (r', n', True)" "env_ok re" "active n"
  shows "active n'"
proof -
  obtain n1 e where prep: "(if r_dry r then (n, None) else Prepare (re_prep re) n) = (n1, e)"
    by fastforce
  have n1: "active n1"
    using prep assms(3) Prepare_Status by (auto simp: active_def split: if_splits)
  from assms(1) prep have run: "runNodeExecution progress st re r n1 = Some (r', n', True)"
    by (cases e) (simp_all add: node_goroutine_def)
  obtain ok n2 where pre: "meetsPreconditions (re_pre re) n1 = (ok, n2)" by fastforce
  have ok: ok using run pre by (cases ok) (simp_all add: runNodeExecution_def)
  have n2: "active n2" using meets_Status [of "re_pre re" n1 n2] pre ok n1 by (simp add: active_def)
  let ?n3 = "case re_inherited re of None \<Rightarrow> n2 | Some ms \<Rightarrow> SetChatMessages ms n2"
  have n3: "active ?n3" using n2 by (auto simp: active_def node_simps split: option.splits)
  have "exec_loop progress st (re_iters re) r ?n3 = Some (r', n', LoopPanic)"
    using run pre ok
    by (auto simp: runNodeExecution_def Let_def split: option.splits loop_exit.splits prod.splits)
  from exec_loop_active [OF this _ n3] assms(2) show ?thesis by (simp add: env_ok_def)
qed

end
