(* ===== verification/Runner_Safety.thy ===== *)
theory Runner_Safety
  imports Runner_Loop
begin

text \<open>
  Invariants of the event loop of \<open>Run\<close>, by rule induction over its steps: the counter of
  running nodes, the limit of active steps, that no node is started twice, that the channel of
  finished nodes never fills up, and that a started node has its dependencies met.
\<close>

section \<open>The invariant\<close>

definition lists_inv :: "loop_state \<Rightarrow> bool" where
  "lists_inv s \<longleftrightarrow> distinct (l_started s) \<and> distinct (l_exec s @ l_doneCh s)
     \<and> set (l_exec s) \<union> set (l_doneCh s) \<union> fst ` set (l_finish s) \<subseteq> set (l_started s)
     \<and> set (l_exec s) \<inter> fst ` set (l_finish s) = {} \<and> distinct (map fst (l_finish s))
     \<and> l_running s = int (length (l_exec s) + length (l_doneCh s))"

definition limit_inv :: "loop_state \<Rightarrow> bool" where
  "limit_inv s \<longleftrightarrow> (0 < r_maxActiveRuns (l_runner s) \<longrightarrow>
     l_running s \<le> r_maxActiveRuns (l_runner s)
     \<and> (l_pc s = AtSelect True \<longrightarrow> l_running s < r_maxActiveRuns (l_runner s)))"

definition may_panic :: "loop_state \<Rightarrow> nat set" where
  "may_panic s = set (l_exec s) \<union> {i. (i, True) \<in> set (l_finish s)}"

definition plan_inv :: "loop_state \<Rightarrow> bool" where
  "plan_inv s \<longleftrightarrow> ready_inv (l_plan s) (l_readyCh s @ l_started s)
     \<and> (\<forall>i \<in> set (l_started s). status_at (l_plan s) i \<noteq> NodeNotStarted)
     \<and> (\<forall>i \<in> may_panic s. active (p_nodes (l_plan s) ! i))"

definition linv :: "loop_state \<Rightarrow> bool" where
  "linv s \<longleftrightarrow> lists_inv s \<and> limit_inv s \<and> plan_inv s"

text \<open>What the bodies of nodes meet: signals only abort, executors never report not started.\<close>

definition event_ok :: "event \<Rightarrow> bool" where
  "event_ok e = (case e of EvBody i re \<Rightarrow> env_ok re | _ \<Rightarrow> True)"

lemma ready_inv_sub: "ready_inv p is \<Longrightarrow> set js \<subseteq> set is \<Longrightarrow> ready_inv p js"
  by (auto simp: ready_inv_def all_met_def)

lemma ready_inv_grows: "grows p p' \<Longrightarrow> ready_inv p is \<Longrightarrow> ready_inv p' is"
  using all_met_grows grows_positions by (auto simp: ready_inv_def)

lemma plan_inv_step:
  assumes "plan_inv s" "grows (l_plan s) (l_plan t)" "l_started t = l_started s"
    and "set (l_readyCh t) \<subseteq> set (l_readyCh s)"
    and "\<And>i. i \<in> may_panic t \<Longrightarrow> active (p_nodes (l_plan t) ! i)"
  shows "plan_inv t"
proof -
  have r: "ready_inv (l_plan s) (l_readyCh s @ l_started s)"
    using assms(1) by (simp add: plan_inv_def)
  then have b: "i < l_cap s" if "i \<in> set (l_started s)" for i
    using that by (simp add: ready_inv_def all_met_def)
  have "ready_inv (l_plan t) (l_readyCh t @ l_started t)"
    by (rule ready_inv_sub [OF ready_inv_grows [OF assms(2) r]]) (use assms(3,4) in auto)
  moreover have "status_at (l_plan t) i \<noteq> NodeNotStarted" if "i \<in> set (l_started t)" for i
    using that b [of i] assms(1-3) by (auto simp: plan_inv_def grows_def)
  ultimately show ?thesis using assms(5) by (simp add: plan_inv_def)
qed

lemma linv_bounds:
  assumes "linv s"
  shows "i \<in> set (l_started s) \<Longrightarrow> i < l_cap s" "i \<in> set (l_readyCh s) \<Longrightarrow> i < l_cap s"
    "positions_ok (l_plan s)" "i \<in> may_panic s \<Longrightarrow> i < l_cap s"
proof -
  have r: "ready_inv (l_plan s) (l_readyCh s @ l_started s)" and l: "lists_inv s"
    using assms by (simp_all add: linv_def plan_inv_def)
  show st: "i < l_cap s" if "i \<in> set (l_started s)" for i
    using r that by (simp add: ready_inv_def all_met_def)
  show "i \<in> set (l_readyCh s) \<Longrightarrow> i < l_cap s" using r by (simp add: ready_inv_def all_met_def)
  show "positions_ok (l_plan s)" using r by (simp add: ready_inv_def)
  assume "i \<in> may_panic s"
  then have "i \<in> set (l_started s)" using l by (force simp: may_panic_def lists_inv_def)
  then show "i < l_cap s" by (rule st)
qed

lemma active_not_allowed: "active n \<Longrightarrow> \<not> policy_allows n"
  by (auto simp: active_def policy_allows_def Let_def)

section \<open>Every step keeps it\<close>

lemma linv_check: "linv s \<Longrightarrow> l_pc s = AtCheck \<Longrightarrow> linv (loop_check s)"
proof -
  assume inv: "linv s" and pc: "l_pc s = AtCheck"
  let ?t = "loop_check s"
  have same: "l_plan ?t = l_plan s" "l_readyCh ?t = l_readyCh s" "l_doneCh ?t = l_doneCh s"
    "l_running ?t = l_running s" "l_exec ?t = l_exec s" "l_finish ?t = l_finish s"
    "l_started ?t = l_started s" "r_maxActiveRuns (l_runner ?t) = r_maxActiveRuns (l_runner s)"
    by (simp_all add: loop_check_def Let_def setLastError_def)
  have "l_pc ?t = AtSelect True \<Longrightarrow> ready_enabled s"
    by (auto simp: loop_check_def Let_def split: if_splits)
  with inv same show "linv ?t"
    by (auto simp: linv_def lists_inv_def limit_inv_def plan_inv_def may_panic_def ready_enabled_def)
qed

lemma linv_start:
  assumes inv: "linv s" and pc: "l_pc s = AtSelect True" and ch: "l_readyCh s = i # ch"
  shows "linv (start_node i (s\<lparr>l_readyCh := ch\<rparr>))" (is "linv ?t")
proof (cases "status_at (l_plan s) i = NodeNotStarted")
  case False
  then have t: "?t = s\<lparr>l_readyCh := ch, l_pc := AtCheck\<rparr>" by (simp add: start_node_def)
  have "plan_inv ?t" unfolding t
    by (rule plan_inv_step [of s]) (use inv ch in \<open>auto simp: linv_def plan_inv_def may_panic_def\<close>)
  moreover have "lists_inv ?t" "limit_inv ?t"
    using inv unfolding t by (auto simp: linv_def lists_inv_def limit_inv_def)
  ultimately show ?thesis by (simp add: linv_def)
next
  case True
  let ?p = "update_node i (SetStatus NodeRunning) (l_plan s)"
  have t: "?t = s\<lparr>l_readyCh := ch, l_plan := ?p, l_running := l_running s + 1,
      l_exec := l_exec s @ [i], l_started := l_started s @ [i], l_pc := AtCheck\<rparr>"
    using True by (simp add: start_node_def)
  have il: "i < l_cap s" using linv_bounds(2) [OF inv] ch by simp
  have p: "?p = update_node i (\<lambda>_. SetStatus NodeRunning (p_nodes (l_plan s) ! i)) (l_plan s)"
    by (simp add: update_node_def)
  have g: "grows (l_plan s) ?p" unfolding p
    using True by (intro grows_replace) (simp_all add: node_simps policy_allows_def)
  have new: "i \<notin> set (l_started s)" using True inv by (auto simp: linv_def plan_inv_def)
  have r: "ready_inv (l_plan s) (i # ch @ l_started s)" using inv ch by (simp add: linv_def plan_inv_def)
  have "ready_inv ?p (i # ch @ l_started s)" using ready_inv_grows [OF g r] .
  then have "ready_inv ?p (ch @ l_started s @ [i])" by (rule ready_inv_sub) auto
  moreover have "status_at ?p j \<noteq> NodeNotStarted" if "j \<in> set (l_started s @ [i])" for j
    using that il inv by (auto simp: update_node_nth node_simps linv_def plan_inv_def)
  moreover have "active (p_nodes ?p ! j)" if "j \<in> may_panic ?t" for j
    using that il inv
    by (auto simp: t may_panic_def update_node_nth node_simps active_def linv_def plan_inv_def)
  ultimately have "plan_inv ?t" by (simp add: plan_inv_def t)
  moreover have "lists_inv ?t" unfolding t using inv new by (auto simp: linv_def lists_inv_def)
  moreover have "limit_inv ?t" unfolding t using inv pc by (auto simp: linv_def limit_inv_def)
  ultimately show ?thesis by (simp add: linv_def)
qed

lemma linv_complete:
  assumes inv: "linv s" and pc: "l_pc s = AtSelect b" and ch: "l_doneCh s = i # ch"
  shows "linv (complete_node lm i (s\<lparr>l_doneCh := ch\<rparr>))" (is "linv ?t")
proof -
  have lists: "lists_inv ?t"
    using inv ch by (auto simp: complete_node_def linv_def lists_inv_def split: option.splits)
  have limit: "limit_inv ?t"
    using inv by (auto simp: complete_node_def linv_def limit_inv_def split: option.splits)
  have "plan_inv ?t"
  proof (cases "processCompletedNode lm (l_cap s) (r_canceled (l_runner s)) i (l_plan s) (l_readyCh s)")
    case None
    show ?thesis
      by (rule plan_inv_step [of s])
        (use inv None in \<open>auto simp: complete_node_def linv_def plan_inv_def may_panic_def\<close>)
  next
    case (Some res)
    obtain p rch where res: "res = (p, rch)" by fastforce
    have "ready_inv (l_plan s) (l_readyCh s)"
      using inv by (auto simp: linv_def plan_inv_def intro: ready_inv_sub)
    with processCompletedNode_frame [of lm _ _ i "l_plan s" "l_readyCh s" p rch] Some res
    have fr: "pframe (l_plan s) p" and rp: "ready_inv p rch" by auto
    have t: "?t = s\<lparr>l_doneCh := ch, l_running := l_running s - 1, l_plan := p, l_readyCh := rch,
        l_pc := AtCheck\<rparr>" using Some res by (simp add: complete_node_def)
    have "ready_inv (l_plan s) (l_started s)"
      using inv by (auto simp: linv_def plan_inv_def intro: ready_inv_sub)
    then have "ready_inv p (l_started s)" using ready_inv_grows grows_pframe [OF fr] by blast
    with rp have "ready_inv p (rch @ l_started s)" by (auto simp: ready_inv_def all_met_def)
    moreover have keep: "status_at p j = status_at (l_plan s) j" if "j \<in> set (l_started s)" for j
      using that inv fr linv_bounds(1) [OF inv that] by (auto simp: linv_def plan_inv_def pframe_def)
    moreover have "may_panic ?t = may_panic s" by (simp add: t may_panic_def)
    moreover have "may_panic s \<subseteq> set (l_started s)"
      using inv by (force simp: may_panic_def linv_def lists_inv_def)
    ultimately have "active (p_nodes p ! j)" if "j \<in> may_panic ?t" for j
      using that inv by (auto simp: linv_def plan_inv_def active_def subset_iff)
    with \<open>ready_inv p (rch @ l_started s)\<close> keep inv show ?thesis
      by (simp add: t plan_inv_def linv_def)
  qed
  with lists limit show ?thesis by (simp add: linv_def)
qed

lemma linv_context: "linv s \<Longrightarrow> linv (context_done e s)"
  by (auto simp: context_done_def Let_def linv_def lists_inv_def limit_inv_def plan_inv_def
      may_panic_def setLastError_def)

lemma lists_inv_body:
  assumes inv: "lists_inv s" and i: "i \<in> set (l_exec s)"
    and t: "l_started t = l_started s" "l_doneCh t = l_doneCh s @ [i]"
      "l_exec t = remove1 i (l_exec s)" "l_finish t = l_finish s @ [(i, b)]" "l_running t = l_running s"
  shows "lists_inv t" "i \<notin> set (l_exec t)" "i \<notin> fst ` set (l_finish s)"
proof -
  have d: "distinct (l_exec s)" and ed: "i \<notin> set (l_doneCh s)" and fin: "i \<notin> fst ` set (l_finish s)"
    using inv i by (auto simp: lists_inv_def)
  have ex: "set (l_exec t) = set (l_exec s) - {i}" "distinct (l_exec t)"
    using d by (simp_all add: t)
  have "length (l_exec s) = Suc (length (l_exec t))"
    using i by (simp add: t length_remove1) (metis Suc_pred length_pos_if_in_set)
  then show "lists_inv t" using inv ex ed i unfolding lists_inv_def t(1,2,4,5) by auto
  show "i \<notin> set (l_exec t)" using ex by simp
  show "i \<notin> fst ` set (l_finish s)" by (rule fin)
qed

lemma linv_body:
  assumes inv: "linv s" and i: "i \<in> set (l_exec s)" and re: "env_ok re"
    and go: "node_goroutine True (p_startedAt (l_plan s)) re (l_runner s) (p_nodes (l_plan s) ! i) =
      Some (r, n, panicked)"
    and snd: "send (l_cap s) (l_doneCh s) i = Some ch"
    and t: "t = s\<lparr>l_plan := update_node i (\<lambda>_. n) (l_plan s), l_runner := r, l_doneCh := ch,
      l_exec := remove1 i (l_exec s), l_finish := l_finish s @ [(i, panicked)]\<rparr>"
  shows "linv t"
proof -
  have sel: "l_plan t = update_node i (\<lambda>_. n) (l_plan s)" "l_runner t = r"
    "l_doneCh t = l_doneCh s @ [i]" "l_exec t = remove1 i (l_exec s)"
    "l_finish t = l_finish s @ [(i, panicked)]" "l_started t = l_started s"
    "l_readyCh t = l_readyCh s" "l_running t = l_running s" "l_pc t = l_pc s"
    using snd by (simp_all add: t send_def split: if_splits)
  have parts: "lists_inv s" "limit_inv s" "plan_inv s" using inv by (simp_all add: linv_def)
  note nf = nframe_goroutine [OF go re]
  note lists = lists_inv_body [OF parts(1) i sel(6,3,4,5,8)]
  have il: "i < l_cap s" using linv_bounds(4) [OF inv] i by (simp add: may_panic_def)
  have act: "active (p_nodes (l_plan s) ! i)" using parts(3) i by (simp add: plan_inv_def may_panic_def)
  have g: "grows (l_plan s) (l_plan t)" unfolding sel(1)
    using nf act active_not_allowed [OF act] by (intro grows_replace) (auto simp: nframe_def active_def)
  have "active (p_nodes (l_plan t) ! j)" if j: "j \<in> may_panic t" for j
  proof (cases "j = i")
    case True
    with j lists(2,3) have panicked by (force simp: may_panic_def sel(5))
    with goroutine_panic_active [OF _ re act] go True il show ?thesis by (simp add: sel(1) update_node_nth)
  next
    case False
    with j have "j \<in> may_panic s" by (auto simp: may_panic_def sel dest: notin_set_remove1)
    with parts(3) False il show ?thesis by (simp add: sel(1) update_node_nth plan_inv_def)
  qed
  then have "plan_inv t" using sel(6,7) by (intro plan_inv_step [OF parts(3) g]) simp_all
  moreover have "limit_inv t" using parts(2) nf unfolding limit_inv_def sel nframe_def by simp
  ultimately show ?thesis using lists(1) by (simp add: linv_def)
qed

lemma linv_finish:
  assumes inv: "linv s" and f: "(i, panicked) \<in> set (l_finish s)"
    and rec: "recoverNodePanic panicked a (l_runner s) (p_nodes (l_plan s) ! i) = (r1, n1)"
    and fin: "finishNode now r1 n1 = (r2, n2)"
    and t: "t = s\<lparr>l_plan := update_node i (\<lambda>_. n2) (l_plan s), l_runner := r2,
      l_finish := remove1 (i, panicked) (l_finish s)\<rparr>"
  shows "linv t"
proof -
  have parts: "lists_inv s" "limit_inv s" "plan_inv s" using inv by (simp_all add: linv_def)
  let ?n = "p_nodes (l_plan s) ! i"
  note nf = nframe_deferred [OF rec fin]
  have st: "i \<in> set (l_started s)" using parts(1) f by (force simp: lists_inv_def)
  then have il: "i < l_cap s" using linv_bounds(1) [OF inv] by simp
  have n2: "n2 = Finish now n1" using fin by (simp add: finishNode_def)
  have keep: "panicked \<or> policy_allows n2 = policy_allows ?n \<and> Status n2 = Status ?n"
    using rec n2 by (auto simp: recoverNodePanic_def Finish_def policy_allows_def Let_def
        getBoolVariable_def getVariable_def continue_cache_key_def)
  have not: "panicked \<Longrightarrow> \<not> policy_allows ?n"
  proof -
    assume panicked
    then have "active ?n" using parts(3) f by (simp add: plan_inv_def may_panic_def)
    then show ?thesis by (rule active_not_allowed)
  qed
  have g: "grows (l_plan s) (l_plan t)"
    using nf keep not by (simp add: t) (intro grows_replace, auto simp: nframe_def)
  have "active (p_nodes (l_plan t) ! j)" if j: "j \<in> may_panic t" for j
  proof -
    have sub: "set (l_finish t) \<subseteq> set (l_finish s)" by (simp add: t set_remove1_subset)
    then have "j \<in> may_panic s" using j by (auto simp: may_panic_def t)
    then have act: "active (p_nodes (l_plan s) ! j)" using parts(3) by (simp add: plan_inv_def)
    show ?thesis
    proof (cases "j = i \<and> panicked")
      case True
      then have "i \<notin> set (l_exec s)" "(i, True) \<notin> set (remove1 (i, True) (l_finish s))"
        using parts(1) f by (force simp: lists_inv_def distinct_map)+
      with j True show ?thesis by (simp add: may_panic_def t)
    next
      case False
      with act keep il show ?thesis by (auto simp: t update_node_nth active_def)
    qed
  qed
  then have "plan_inv t" by (intro plan_inv_step [OF parts(3) g]) (simp_all add: t)
  moreover have "limit_inv t" using parts(2) nf by (simp add: t limit_inv_def nframe_def)
  moreover have "lists_inv t"
  proof -
    have sub: "set (l_finish t) \<subseteq> set (l_finish s)" by (simp add: t set_remove1_subset)
    have "distinct (map fst (l_finish t))"
      using parts(1) sub inj_on_subset [of fst "set (l_finish s)" "set (l_finish t)"]
      by (simp add: t lists_inv_def distinct_map)
    moreover have "fst ` set (l_finish t) \<subseteq> set (l_started s)"
      "set (l_exec s) \<inter> fst ` set (l_finish t) = {}"
    proof -
      have "fst ` set (l_finish s) \<subseteq> set (l_started s)" "set (l_exec s) \<inter> fst ` set (l_finish s) = {}"
        using parts(1) by (simp_all add: lists_inv_def)
      with image_mono [OF sub, of fst] show "fst ` set (l_finish t) \<subseteq> set (l_started s)"
        "set (l_exec s) \<inter> fst ` set (l_finish t) = {}" by blast+
    qed
    moreover have "l_exec t = l_exec s" "l_doneCh t = l_doneCh s" "l_started t = l_started s"
      "l_running t = l_running s" by (simp_all add: t)
    ultimately show ?thesis using parts(1) by (simp add: lists_inv_def)
  qed
  ultimately show ?thesis by (simp add: linv_def)
qed

lemma linv_abort:
  assumes inv: "linv s" and f: "\<And>n. abort_effect (f n)"
    and r: "r_maxActiveRuns r = r_maxActiveRuns (l_runner s)"
  shows "linv (s\<lparr>l_runner := r, l_plan := (l_plan s)\<lparr>p_nodes := map (\<lambda>n. f n n) (p_nodes (l_plan s))\<rparr>\<rparr>)"
    (is "linv ?t")
proof -
  have parts: "lists_inv s" "limit_inv s" "plan_inv s" using inv by (simp_all add: linv_def)
  have "active (p_nodes (l_plan ?t) ! j)" if "j \<in> may_panic ?t" for j
  proof -
    have j: "j \<in> may_panic s" using that by (simp add: may_panic_def)
    then have "active (p_nodes (l_plan s) ! j)" using parts(3) by (simp add: plan_inv_def)
    then show ?thesis using active_abort [OF f] linv_bounds(4) [OF inv j] by simp
  qed
  then have "plan_inv ?t"
    using grows_abort [of f "l_plan s"] f by (intro plan_inv_step [OF parts(3)]) simp_all
  moreover have "lists_inv ?t" "limit_inv ?t"
    using parts(1,2) r by (simp_all add: lists_inv_def limit_inv_def)
  ultimately show ?thesis by (simp add: linv_def)
qed

lemma linv_cancel:
  assumes "linv s" "runner_Cancel (l_runner s) (l_plan s) = (r, p)"
  shows "linv (s\<lparr>l_runner := r, l_plan := p\<rparr>)"
proof -
  have "r = setCanceled (l_runner s)" "p = (l_plan s)\<lparr>p_nodes := map node_Cancel (p_nodes (l_plan s))\<rparr>"
    using assms(2) by (simp_all add: runner_Cancel_def)
  then show ?thesis
    using linv_abort [OF assms(1), of "\<lambda>_. node_Cancel" r] abort_effect_cancel
    by (simp add: setCanceled_def)
qed

lemma linv_signal:
  assumes "linv s" "runner_Signal ts tst ov (l_runner s) (l_plan s) = (r, p)"
  shows "linv (s\<lparr>l_runner := r, l_plan := p\<rparr>)"
proof -
  let ?f = "\<lambda>n. if rp_RepeatMode (sp_RepeatPolicy (n_step n)) \<noteq> '''' then id
         else node_Signal ts tst ov"
  have "r_maxActiveRuns r = r_maxActiveRuns (l_runner s)"
    using assms(2) by (auto simp: runner_Signal_def setCanceled_def)
  moreover have "p = (l_plan s)\<lparr>p_nodes := map (\<lambda>n. ?f n n) (p_nodes (l_plan s))\<rparr>"
    using assms(2) by (auto simp: runner_Signal_def intro!: arg_cong [of _ _ "\<lambda>xs. _\<lparr>p_nodes := xs\<rparr>"])
  ultimately show ?thesis
    using linv_abort [OF assms(1), of ?f r] abort_effect_signal by simp
qed

lemma linv_lstep:
  assumes "lstep s e t" "linv s" "event_ok e"
  shows "linv t"
  using assms
proof (cases rule: lstep.cases)
  case (body i re r n panicked ch)
  then have "env_ok re" using assms(3) by (simp add: event_ok_def)
  from linv_body [OF assms(2) body(3) this body(4,5,2)] show ?thesis .
next
  case (finish i panicked a r1 n1 now r2 n2)
  from linv_finish [OF assms(2) finish(3-5,2)] show ?thesis .
qed (auto intro: linv_check linv_start linv_complete linv_context linv_cancel linv_signal)

lemma linv_lsteps:
  assumes "lsteps event_ok s t" "linv s"
  shows "linv t"
  using assms by (induction rule: lsteps.induct) (auto intro: linv_lstep)

lemma linv_init:
  assumes "loop_init lm r p = Some s" "positions_ok p"
  shows "linv s"
proof -
  from assms(1) obtain p' ch where i: "initial_ready lm (length (p_nodes p)) [0..<length (p_nodes p)] p []
      = Some (p', ch)" and s: "l_plan s = p'" "l_readyCh s = ch" "l_started s = []" "l_exec s = []"
      "l_doneCh s = []" "l_finish s = []" "l_running s = 0" "l_pc s = AtCheck"
    by (auto simp: loop_init_def split: option.splits)
  have "ready_inv p []" using assms(2) by (simp add: ready_inv_def all_met_def)
  with initial_ready_frame [OF i] have "ready_inv p' ch" by simp
  then show ?thesis using s
    by (simp add: linv_def lists_inv_def limit_inv_def plan_inv_def may_panic_def)
qed

section \<open>What never changes\<close>

lemma lstep_maxActive:
  assumes "lstep s e t" "event_ok e"
  shows "r_maxActiveRuns (l_runner t) = r_maxActiveRuns (l_runner s)"
  using assms
proof (cases rule: lstep.cases)
  case (body i re r n panicked ch)
  then have "env_ok re" using assms(2) by (simp add: event_ok_def)
  from nframe_goroutine [OF body(4) this] show ?thesis by (simp add: body(2) nframe_def)
next
  case (finish i panicked a r1 n1 now r2 n2)
  from nframe_deferred [OF finish(4,5)] show ?thesis by (simp add: finish(2) nframe_def)
qed (auto simp: loop_check_def start_node_def complete_node_def context_done_def Let_def
    setLastError_def setCanceled_def runner_Cancel_def runner_Signal_def split: option.splits)

lemma lsteps_maxActive:
  "lsteps event_ok s t \<Longrightarrow> r_maxActiveRuns (l_runner t) = r_maxActiveRuns (l_runner s)"
  by (induction rule: lsteps.induct) (simp_all add: lstep_maxActive)

lemma loop_init_runner: "loop_init lm r p = Some s \<Longrightarrow> l_runner s = r"
  by (auto simp: loop_init_def split: option.splits)

lemma plan_wf_positions: "plan_wf p \<Longrightarrow> positions_ok p"
  using last_pos_SomeD [of "plan_ids p"] by (simp add: plan_wf_def positions_ok_def)

lemma linv_reachable:
  "loop_init lm r p = Some s \<Longrightarrow> plan_wf p \<Longrightarrow> lsteps event_ok s t \<Longrightarrow> linv t"
  using linv_init linv_lsteps plan_wf_positions by blast

text \<open>While the loop waits in \<open>select\<close> there is something for it to wait for.\<close>

definition wait_inv :: "loop_state \<Rightarrow> bool" where
  "wait_inv s \<longleftrightarrow> (\<forall>b. l_pc s = AtSelect b \<longrightarrow> l_running s \<noteq> 0 \<or> b \<and> l_readyCh s \<noteq> [])"

lemma wait_inv_lstep: "lstep s e t \<Longrightarrow> wait_inv s \<Longrightarrow> wait_inv t"
  by (erule lstep.cases)
    (auto simp: wait_inv_def loop_check_def start_node_def complete_node_def context_done_def Let_def
      split: option.splits)

lemma wait_inv_reachable:
  assumes "loop_init lm r p = Some s" "lsteps A s t"
  shows "wait_inv t"
proof -
  have "wait_inv s" using assms(1) by (auto simp: loop_init_def wait_inv_def split: option.splits)
  with assms(2) show ?thesis by (induction rule: lsteps.induct) (auto intro: wait_inv_lstep)
qed

section \<open>A sample run\<close>

definition solo_plan :: plan where
  "solo_plan = addNode ((NewNode zero_step zero_node_state)\<lparr>n_id := 1\<rparr>) (empty_plan 0)"

definition solo_runner :: runner where
  "solo_runner = plain_runner\<lparr>r_maxActiveRuns := 1\<rparr>"

definition solo_init :: loop_state where
  "solo_init = \<lparr> l_plan = solo_plan, l_runner = solo_runner, l_readyCh = [0], l_doneCh = [],
     l_running = 0, l_pc = AtCheck, l_ctxOpen = True, l_exec = [], l_finish = [], l_started = [] \<rparr>"

definition solo_select :: loop_state where
  "solo_select = solo_init\<lparr>l_pc := AtSelect True\<rparr>"

definition solo_started :: loop_state where
  "solo_started = start_node 0 (solo_select\<lparr>l_readyCh := []\<rparr>)"

lemmas solo_simps = solo_plan_def solo_runner_def solo_init_def solo_select_def addNode_def
  empty_plan_def NewNode_def zero_node_state_def plain_runner_def

lemma solo_wf: "plan_wf solo_plan"
  unfolding solo_plan_def by (rule plan_wf_addNode [OF plan_wf_empty]) (simp add: empty_plan_def)

lemma solo_init: "loop_init (\<lambda>_ _. Inr False) solo_runner solo_plan = Some solo_init"
  by (simp add: loop_init_def isReady_def Dependencies_def adj_def send_def solo_simps)

lemma solo_check: "loop_check solo_init = solo_select"
  by (simp add: loop_check_def ready_enabled_def CheckFinished_def Let_def NodeStates_def solo_simps)

lemma solo_run: "lsteps event_ok solo_init solo_started"
proof -
  have "lstep solo_init EvCheck solo_select"
    using lstep.check [of solo_init] solo_check by (simp add: solo_init_def)
  then have "lsteps event_ok solo_init solo_select"
    by (rule lsteps.more [OF lsteps.none]) (simp add: event_ok_def)
  moreover have "lstep solo_select EvReady solo_started"
    unfolding solo_started_def by (rule lstep.ready) (simp_all add: solo_select_def solo_init_def)
  ultimately show ?thesis by (rule lsteps.more) (simp add: event_ok_def)
qed

lemma solo_running: "l_exec solo_started = [0]" "l_started solo_started = [0]"
  by (simp_all add: solo_started_def start_node_def solo_simps)

section \<open>Properties\<close>

text \<open>
  C18: the limit of active steps. However completions, failures, signals and cancellation
  interleave with the event loop, the number of nodes whose goroutine runs never exceeds
  \<open>maxActiveRuns\<close> when that is positive, and the loop's counter is exactly the number of
  nodes that run or have announced their end without being processed.
\<close>

theorem active_steps_limited:
  assumes "plan_wf p" "loop_init lm r p = Some s" "lsteps event_ok s t"
  shows "l_running t = int (length (l_exec t) + length (l_doneCh t))
    \<and> (0 < r_maxActiveRuns r \<longrightarrow> int (length (l_exec t)) \<le> r_maxActiveRuns r)"
proof -
  have inv: "linv t" using linv_reachable [OF assms(2,1,3)] .
  then have run: "l_running t = int (length (l_exec t) + length (l_doneCh t))"
    by (simp add: linv_def lists_inv_def)
  have "r_maxActiveRuns (l_runner t) = r_maxActiveRuns r"
    using lsteps_maxActive [OF assms(3)] loop_init_runner [OF assms(2)] by simp
  with inv run show ?thesis by (auto simp: linv_def limit_inv_def)
qed

theorem active_steps_limited_witness:
  "l_exec solo_started = [0] \<and> int (length (l_exec solo_started)) \<le> r_maxActiveRuns solo_runner"
  using active_steps_limited [OF solo_wf solo_init solo_run] solo_running
  by (simp add: solo_runner_def)



text \<open>
  C20: the loop never waits for nothing. In every reachable state in which the loop blocks in
  \<open>select\<close>, a ready node can be received, or some node still runs or has announced its end. A
  node that ends can always announce it: the channel of finished nodes has room for it.
\<close>

theorem select_never_stuck:
  assumes "plan_wf p" "loop_init lm r p = Some s" "lsteps event_ok s t"
  shows "(\<forall>b. l_pc t = AtSelect b \<longrightarrow> b \<and> l_readyCh t \<noteq> [] \<or> l_exec t \<noteq> [] \<or> l_doneCh t \<noteq> [])
    \<and> (\<forall>i \<in> set (l_exec t). send (l_cap t) (l_doneCh t) i \<noteq> None)"
proof -
  have inv: "linv t" using linv_reachable [OF assms(2,1,3)] .
  then have run: "l_running t = int (length (l_exec t) + length (l_doneCh t))"
    by (simp add: linv_def lists_inv_def)
  with wait_inv_reachable [OF assms(2,3)]
  have "b \<and> l_readyCh t \<noteq> [] \<or> l_exec t \<noteq> [] \<or> l_doneCh t \<noteq> []" if "l_pc t = AtSelect b" for b
    using that by (auto simp: wait_inv_def)
  moreover have d: "distinct (l_exec t @ l_doneCh t)" "set (l_exec t @ l_doneCh t) \<subseteq> {..<l_cap t}"
    using inv linv_bounds(1) [OF inv] by (auto simp: linv_def lists_inv_def)
  have "length (l_exec t @ l_doneCh t) \<le> l_cap t"
    using card_mono [OF _ d(2)] distinct_card [OF d(1)] by simp
  then have "\<forall>i \<in> set (l_exec t). send (l_cap t) (l_doneCh t) i \<noteq> None"
    by (cases "l_exec t") (auto simp: send_def)
  ultimately show ?thesis by blast
qed

theorem select_never_stuck_witness:
  "0 \<in> set (l_exec solo_started) \<and> send (l_cap solo_started) (l_doneCh solo_started) 0 \<noteq> None"
  using select_never_stuck [OF solo_wf solo_init solo_run] solo_running by simp

section \<open>A panic in a step\<close>

definition panic_env :: run_env where
  "panic_env = \<lparr> re_prep = plain_prep, re_pre = (\<lambda>_. None), re_inherited = None,
     re_iters = [(plain_iter ok_outcome)\<lparr>ie_panic := True\<rparr>], re_canceledEnd = False,
     re_closeErr = None \<rparr>"

lemma panic_env_ok: "env_ok panic_env"
  by (simp add: env_ok_def panic_env_def plain_iter_def ok_outcome_def signals_only_def)

lemma panic_goroutine:
  assumes "n = SetStatus NodeRunning (p_nodes (pair_plan NodeNotStarted) ! 0)"
  shows "\<exists>n'. node_goroutine True 1 panic_env plain_runner n = Some (plain_runner, n', True)
    \<and> Status n' = NodeRunning \<and> n_id n' = 1"
  unfolding assms
  by (simp add: panic_env_def pair_plan_def node_goroutine_def Prepare_def Setup_def
      setupRetryPolicy_def setupRepeatPolicy_def eval_seconds_def runNodeExecution_def
      meetsPreconditions_def evalPreconditions_def wrap_err_def sample_simps loop_simps)

text \<open>The states of a run in which the first of two steps panics.\<close>

definition panic_start :: loop_state where
  "panic_start = \<lparr> l_plan = pair_plan NodeNotStarted, l_runner = plain_runner, l_readyCh = [0],
     l_doneCh = [], l_running = 0, l_pc = AtCheck, l_ctxOpen = True, l_exec = [], l_finish = [],
     l_started = [] \<rparr>"

definition panic_selected :: loop_state where
  "panic_selected = panic_start\<lparr>l_pc := AtSelect True\<rparr>"

definition panic_running :: loop_state where
  "panic_running = start_node 0 (panic_selected\<lparr>l_readyCh := []\<rparr>)"

definition panic_waiting :: loop_state where
  "panic_waiting = panic_running\<lparr>l_pc := AtSelect True\<rparr>"

definition panic_announced :: "node \<Rightarrow> loop_state" where
  "panic_announced n = panic_waiting\<lparr>l_plan := update_node 0 (\<lambda>_. n) (l_plan panic_waiting),
     l_runner := plain_runner, l_doneCh := [0], l_exec := [], l_finish := [(0, True)]\<rparr>"

lemmas panic_simps = panic_start_def panic_selected_def panic_running_def panic_waiting_def
  start_node_def pair_plan_def update_node_def plain_runner_def NewNode_def zero_node_state_def
  node_simps

lemma panic_steps:
  "loop_init (\<lambda>_ _. Inr False) plain_runner (pair_plan NodeNotStarted) = Some panic_start"
  "loop_check panic_start = panic_selected"
  "loop_check panic_running = panic_waiting"
  by (simp add: loop_init_def isReady_def Dependencies_def adj_def send_def panic_simps)
    (simp add: loop_check_def ready_enabled_def CheckFinished_def Let_def NodeStates_def panic_simps)+

lemma panic_complete:
  assumes "Status n = NodeRunning" "n_id n = 1"
  shows "complete_node lm 0 ((panic_announced n)\<lparr>l_doneCh := []\<rparr>)
    = (panic_announced n)\<lparr>l_doneCh := [], l_running := 0, l_pc := AtCheck\<rparr>"
  using assms
  by (simp add: complete_node_def processCompletedNode_def Dependents_def isReady_def
      Dependencies_def adj_def panic_announced_def panic_simps)

lemma panic_reaches:
  assumes "Status n = NodeRunning" "n_id n = 1"
    and go: "node_goroutine True 1 panic_env plain_runner
      (SetStatus NodeRunning (p_nodes (pair_plan NodeNotStarted) ! 0)) = Some (plain_runner, n, True)"
  shows "lsteps event_ok panic_start ((panic_announced n)\<lparr>l_doneCh := [], l_running := 0, l_pc := AtCheck\<rparr>)"
proof -
  have "lstep panic_start EvCheck panic_selected"
    by (rule lstep.check [of panic_start, unfolded panic_steps(2)]) (simp add: panic_start_def)
  then have a: "lsteps event_ok panic_start panic_selected"
    by (rule lsteps.more [OF lsteps.none]) (simp add: event_ok_def)
  have "lstep panic_selected EvReady panic_running"
    unfolding panic_running_def by (rule lstep.ready) (simp_all add: panic_selected_def panic_start_def)
  with a have b: "lsteps event_ok panic_start panic_running"
    by (rule lsteps.more) (simp add: event_ok_def)
  have "lstep panic_running EvCheck panic_waiting"
    by (rule lstep.check [of panic_running, unfolded panic_steps(3)])
      (simp add: panic_running_def start_node_def)
  with b have c: "lsteps event_ok panic_start panic_waiting"
    by (rule lsteps.more) (simp add: event_ok_def)
  have "lstep panic_waiting (EvBody 0 panic_env) (panic_announced n)"
    using lstep.body [of 0 panic_waiting panic_env plain_runner n True "[0]"] go
    by (simp add: panic_announced_def send_def panic_simps)
  with c have d: "lsteps event_ok panic_start (panic_announced n)"
    by (rule lsteps.more) (simp add: event_ok_def panic_env_ok)
  have "lstep (panic_announced n) (EvDone (\<lambda>_ _. Inr False))
      ((panic_announced n)\<lparr>l_doneCh := [], l_running := 0, l_pc := AtCheck\<rparr>)"
    using lstep.completed [of "panic_announced n" True 0 "[]" "\<lambda>_ _. Inr False"]
    by (simp add: panic_complete [OF assms(1,2)]) (simp add: panic_announced_def panic_waiting_def)
  with d show ?thesis by (rule lsteps.more) (simp add: event_ok_def)
qed

text \<open>
  C39: a panic in a step makes the run report a deadlock. The goroutine announces the node on
  \<open>doneCh\<close> before \<open>recoverNodePanic\<close> marks it as failed, so the loop may see it still
  running, leaves its dependent not started, and nothing looks at the dependent again: with
  the panicked node failed, the next check overwrites the panic by the deadlock error.
\<close>

theorem panic_reports_deadlock:
  "\<exists>s t n. loop_init (\<lambda>_ _. Inr False) plain_runner (pair_plan NodeNotStarted) = Some s
     \<and> lsteps event_ok s t \<and> l_pc t = AtCheck
     \<and> statuses (l_plan t) = [NodeFailed, NodeNotStarted]
     \<and> r_lastError (l_runner (loop_check t)) = Some ErrDeadlockDetected"
proof -
  obtain n where go: "node_goroutine True 1 panic_env plain_runner
      (SetStatus NodeRunning (p_nodes (pair_plan NodeNotStarted) ! 0)) = Some (plain_runner, n, True)"
    and n: "Status n = NodeRunning" "n_id n = 1" using panic_goroutine by blast
  let ?u = "(panic_announced n)\<lparr>l_doneCh := [], l_running := 0, l_pc := AtCheck\<rparr>"
  obtain r1 n1 where rec: "recoverNodePanic True 0 (l_runner ?u) (p_nodes (l_plan ?u) ! 0) = (r1, n1)"
    by fastforce
  obtain r2 n2 where fin: "finishNode 0 r1 n1 = (r2, n2)" by fastforce
  let ?t = "?u\<lparr>l_plan := update_node 0 (\<lambda>_. n2) (l_plan ?u), l_runner := r2,
      l_finish := remove1 (0, True) (l_finish ?u)\<rparr>"
  have "lstep ?u (EvFinish 0 True 0 0) ?t"
    using rec fin by (intro lstep.finish) (simp_all add: panic_announced_def)
  with panic_reaches [OF n go] have steps: "lsteps event_ok panic_start ?t"
    by (rule lsteps.more) (simp add: event_ok_def)
  have n2: "Status n2 = NodeFailed" and r2: "\<not> r_canceled r2"
    using rec fin by (auto simp: recoverNodePanic_def finishNode_def Let_def setLastError_def
        panic_announced_def panic_simps split: node_status.splits)
  have st: "statuses (l_plan ?t) = [NodeFailed, NodeNotStarted]"
    using n2 by (simp add: statuses_def panic_announced_def panic_simps)
  have "r_lastError (l_runner (loop_check ?t)) = Some ErrDeadlockDetected"
    using n2 r2 by (simp add: loop_check_def ready_enabled_def CheckFinished_def Let_def NodeStates_def
        setLastError_def panic_announced_def panic_simps)
  with panic_steps(1) steps st show ?thesis by (intro exI conjI) simp_all
qed

end
