(* ===== verification/Runner_Deadlock.thy ===== *)
theory Runner_Deadlock
  imports Runner_Safety
begin

text \<open>
  The event loop of \<open>Run\<close> never reports a deadlock on a plan made by \<open>NewPlan\<close>: as long as
  no executor panics and no cancellation hits the handling of an error, a node that has not
  started is on the ready channel, or has a dependency that is still to come.
\<close>

section \<open>Dependencies still to come\<close>

definition open_status :: "node_status \<Rightarrow> bool" where
  "open_status s \<longleftrightarrow> s = NodeNotStarted \<or> s = NodeWaiting \<or> s = NodeRetrying"

definition awaits :: "plan \<Rightarrow> nat set \<Rightarrow> nat \<Rightarrow> bool" where
  "awaits p W i \<longleftrightarrow> (\<exists>d \<in> set (Dependencies p (n_id (p_nodes p ! i))).
     \<exists>j. p_nodeByID p d = Some j \<and> (open_status (status_at p j) \<or> j \<in> W))"

text \<open>Every not-started node is ready, awaits a dependency, or is exempt.\<close>

definition covered :: "plan \<Rightarrow> nat list \<Rightarrow> nat set \<Rightarrow> nat set \<Rightarrow> bool" where
  "covered p ch W X \<longleftrightarrow> (\<forall>i < length (p_nodes p). status_at p i = NodeNotStarted \<longrightarrow>
     i \<in> set ch \<or> awaits p W i \<or> n_id (p_nodes p ! i) \<in> X)"

definition running_in :: "plan \<Rightarrow> nat set \<Rightarrow> bool" where
  "running_in p W \<longleftrightarrow> (\<forall>i < length (p_nodes p). status_at p i = NodeRunning \<longrightarrow> i \<in> W)"

definition graph_ok :: "plan \<Rightarrow> bool" where
  "graph_ok p \<longleftrightarrow> distinct (plan_ids p) \<and> p_nodeByID p = last_pos (plan_ids p)
     \<and> mirrored (plan_ids p) (p_DependencyMap p) (p_DependantMap p)"

definition same_graph :: "plan \<Rightarrow> plan \<Rightarrow> bool" where
  "same_graph p p' \<longleftrightarrow> plan_ids p' = plan_ids p \<and> p_nodeByID p' = p_nodeByID p
     \<and> p_DependencyMap p' = p_DependencyMap p \<and> p_DependantMap p' = p_DependantMap p"

lemma same_graph_grows: "grows p p' \<Longrightarrow> same_graph p p'"
  by (simp add: same_graph_def grows_def)

lemma same_graph_length: "same_graph p p' \<Longrightarrow> length (p_nodes p') = length (p_nodes p)"
  unfolding same_graph_def by (metis length_map)

lemma graph_ok_wf: "plan_wf p \<Longrightarrow> graph_ok p"
  by (simp add: graph_ok_def plan_wf_def)

lemma graph_ok_same: "same_graph p p' \<Longrightarrow> graph_ok p' \<longleftrightarrow> graph_ok p"
  by (simp add: graph_ok_def same_graph_def)

lemma graph_ok_positions: "graph_ok p \<Longrightarrow> positions_ok p"
  using last_pos_SomeD [of "plan_ids p"] by (simp add: graph_ok_def positions_ok_def)

lemma graph_ok_ids:
  assumes "graph_ok p" "i < length (p_nodes p)"
  shows "p_nodeByID p (n_id (p_nodes p ! i)) = Some i"
  using assms last_pos_nth [of "plan_ids p" i] by (simp add: graph_ok_def)

lemma graph_ok_dep:
  assumes "graph_ok p" "d \<in> set (Dependencies p u)"
  shows "\<exists>j. p_nodeByID p d = Some j \<and> j < length (p_nodes p) \<and> n_id (p_nodes p ! j) = d"
    and "u \<in> set (Dependents p d)"
proof -
  have e: "(d, u) \<in> edges (p_DependantMap p)"
    using assms mirrored_edge [of "plan_ids p" "p_DependencyMap p" "p_DependantMap p"]
    by (simp add: graph_ok_def Dependencies_def)
  then have "d \<in> set (plan_ids p)" using assms(1) by (auto simp: graph_ok_def mirrored_def)
  then obtain j where j: "p_nodeByID p d = Some j"
    using assms(1) last_pos_None [of "plan_ids p" d] by (cases "p_nodeByID p d") (auto simp: graph_ok_def)
  then show "\<exists>j. p_nodeByID p d = Some j \<and> j < length (p_nodes p) \<and> n_id (p_nodes p ! j) = d"
    using last_pos_SomeD [of "plan_ids p" d j] assms(1) by (auto simp: graph_ok_def)
  show "u \<in> set (Dependents p d)" using e by (simp add: edges_def Dependents_def)
qed

lemma awaits_mono:
  assumes "awaits p W i" "same_graph p p'" "graph_ok p" "i < length (p_nodes p)"
    and "\<And>j. j < length (p_nodes p) \<Longrightarrow> open_status (status_at p j) \<or> j \<in> W \<Longrightarrow>
      open_status (status_at p' j) \<or> j \<in> W'"
  shows "awaits p' W' i"
proof -
  have "n_id (p_nodes p' ! i) = n_id (p_nodes p ! i)"
    using assms(2,4) same_graph_length [OF assms(2)] unfolding same_graph_def by (metis nth_map)
  moreover have "p_nodeByID p' = p_nodeByID p" "p_DependencyMap p' = p_DependencyMap p"
    using assms(2) by (simp_all add: same_graph_def)
  moreover obtain d j where d: "d \<in> set (Dependencies p (n_id (p_nodes p ! i)))"
    "p_nodeByID p d = Some j" "open_status (status_at p j) \<or> j \<in> W"
    using assms(1) by (auto simp: awaits_def)
  moreover have "open_status (status_at p' j) \<or> j \<in> W'"
    using graph_ok_positions [OF assms(3)] d by (intro assms(5)) (auto simp: positions_ok_def)
  ultimately show ?thesis unfolding awaits_def Dependencies_def by metis
qed

text \<open>A node that is not ready and was not ruled out has a pending dependency.\<close>

lemma ready_deps_pending:
  "ready_deps lm i ds p = (False, p') \<Longrightarrow> status_at p i = NodeNotStarted \<Longrightarrow>
   status_at p' i = NodeNotStarted \<Longrightarrow> i < length (p_nodes p) \<Longrightarrow>
   \<forall>d \<in> set ds. p_nodeByID p d \<noteq> None \<Longrightarrow>
   \<exists>d \<in> set ds. \<exists>j. p_nodeByID p d = Some j \<and> pending (status_at p j)"
proof (induction ds arbitrary: p)
  case (Cons d ds)
  then obtain j where j: "p_nodeByID p d = Some j" by auto
  obtain ok p1 where c: "continue_at lm j p = (ok, p1)" by fastforce
  have p1: "p_nodeByID p1 = p_nodeByID p" "length (p_nodes p1) = length (p_nodes p)"
    and st: "statuses p1 = statuses p" using continue_at_frame [OF c] by simp_all
  then have i1: "status_at p1 i = NodeNotStarted" "i < length (p_nodes p1)"
    using Cons.prems(2,4) by (metis status_at_statuses)+
  have out: "status_at (update_node i (rule_out s e) q) i = s" if "i < length (p_nodes q)" for s e q
    using that by (simp add: update_node_nth rule_out_def node_simps)
  have via: ?case if r: "ready_deps lm i ds p1 = (False, p')"
  proof -
    have "status_at p1 k = status_at p k" if "p_nodeByID p e = Some k" for e k
      using st that by (metis p1(2) status_at_statuses nth_beyond length_map statuses_def not_le)
    with Cons.IH [OF r i1(1) Cons.prems(3) i1(2)] Cons.prems(5) p1(1) show ?thesis by fastforce
  qed
  have here: ?case if "ready_deps lm i ds p = (False, p')"
    using Cons.IH [OF that Cons.prems(2-4)] Cons.prems(5) by auto
  show ?case
  proof (cases "status_at p j")
    case NodeFailed
    with Cons.prems(1,3) j c via out [OF i1(2)] show ?thesis by (cases ok) auto
  next
    case NodeSkipped
    with Cons.prems(1,3) j c via here out [OF i1(2)] show ?thesis
      by (cases ok; cases "ns_SkippedByRetry (n_state (p_nodes p ! j))") auto
  next
    case NodeAborted
    with Cons.prems(1,3,4) j show ?thesis by (auto simp: update_node_nth node_simps)
  next
    case NodeRejected
    with Cons.prems(1,3) j out [OF Cons.prems(4)] show ?thesis by auto
  qed (use Cons.prems(1) j here in \<open>auto simp: pending_def\<close>)
qed simp

lemma isReady_awaits:
  assumes "isReady lm i p = (False, p')" "status_at p i = NodeNotStarted"
    "status_at p' i = NodeNotStarted" "i < length (p_nodes p)" "graph_ok p" "running_in p W"
  shows "awaits p W i"
proof -
  let ?ds = "Dependencies p (n_id (p_nodes p ! i))"
  have "\<forall>d \<in> set ?ds. p_nodeByID p d \<noteq> None" using graph_ok_dep(1) [OF assms(5)] by blast
  from ready_deps_pending [OF assms(1) [unfolded isReady_def] assms(2-4) this]
  obtain d j where d: "d \<in> set ?ds" "p_nodeByID p d = Some j" "pending (status_at p j)" by auto
  then have "j < length (p_nodes p)" using graph_ok_positions [OF assms(5)] by (auto simp: positions_ok_def)
  with d(3) assms(6) have "open_status (status_at p j) \<or> j \<in> W"
    by (auto simp: pending_def open_status_def running_in_def)
  with d(1,2) show ?thesis by (auto simp: awaits_def)
qed

section \<open>Handing on the dependents keeps every node covered\<close>

text \<open>One readiness check of a dependent: it becomes ready, is ruled out and enters the queue,
  or awaits another dependency.\<close>

lemma covered_check:
  assumes r: "isReady lm c p = (b, p')" and c: "status_at p c = NodeNotStarted" "c < length (p_nodes p)"
    and ok: "graph_ok p" "running_in p W" "W \<subseteq> V"
    and cov: "covered p ch V X"
    and V': "V \<subseteq> V'" "status_at p' c \<noteq> NodeNotStarted \<Longrightarrow> c \<in> V'"
    and ch': "set ch \<subseteq> set ch'" "b \<Longrightarrow> c \<in> set ch'"
  shows "covered p' ch' V' (X - {n_id (p_nodes p ! c)})" "running_in p' W" "graph_ok p'" "pframe p p'"
proof -
  show fr: "pframe p p'" using pframe_isReady [OF c r] .
  then have g: "grows p p'" by (rule grows_pframe)
  show "graph_ok p'" using graph_ok_same [OF same_graph_grows [OF g]] ok(1) by simp
  have len: "length (p_nodes p') = length (p_nodes p)" using fr by (rule pframe_length)
  have idle: "idle (status_at p' i)" if "status_at p i = NodeNotStarted" "i < length (p_nodes p)" for i
    using fr that by (simp add: pframe_def)
  have keep: "status_at p' i = status_at p i" if "status_at p i \<noteq> NodeNotStarted" "i < length (p_nodes p)" for i
    using fr that by (simp add: pframe_def)
  show "running_in p' W" unfolding running_in_def
  proof (intro allI impI)
    fix i assume i: "i < length (p_nodes p')" "status_at p' i = NodeRunning"
    then have "status_at p i \<noteq> NodeNotStarted" using idle [of i] len by (auto simp: idle_def)
    with i keep [of i] len ok(2) show "i \<in> W" by (simp add: running_in_def)
  qed
  have others: "status_at p' i = status_at p i" if "i \<noteq> c" "i < length (p_nodes p)" for i
    using isReady_statuses(1) [OF r] that len by (auto simp: status_at_statuses)
  have mono: "awaits p' V' i" if "awaits p V i" "i < length (p_nodes p)" for i
  proof (rule awaits_mono [OF that(1) same_graph_grows [OF g] ok(1) that(2)])
    fix j assume j: "j < length (p_nodes p)" "open_status (status_at p j) \<or> j \<in> V"
    then show "open_status (status_at p' j) \<or> j \<in> V'"
      using others [of j] V' by (cases "j = c") (auto simp: open_status_def)
  qed
  have ids: "n_id (p_nodes p' ! i) = n_id (p_nodes p ! i)" if "i < length (p_nodes p)" for i
    using fr len that unfolding pframe_def by (metis nth_map)
  show "covered p' ch' V' (X - {n_id (p_nodes p ! c)})" unfolding covered_def
  proof (intro allI impI)
    fix i assume i: "i < length (p_nodes p')" "status_at p' i = NodeNotStarted"
    have il: "i < length (p_nodes p)" using i(1) len by simp
    show "i \<in> set ch' \<or> awaits p' V' i \<or> n_id (p_nodes p' ! i) \<in> X - {n_id (p_nodes p ! c)}"
    proof (cases "i = c")
      case True
      have "awaits p V c" if "\<not> b"
      proof -
        have "awaits p W c" using isReady_awaits [OF _ c(1) _ c(2) ok(1,2)] r i(2) True that by simp
        then show ?thesis using ok(3) unfolding awaits_def by blast
      qed
      then show ?thesis using True mono [OF _ c(2)] ch'(2) by auto
    next
      case False
      have "status_at p i = NodeNotStarted" using others [OF False il] i(2) by simp
      then have "i \<in> set ch \<or> awaits p V i \<or> n_id (p_nodes p ! i) \<in> X"
        using cov il by (simp add: covered_def)
      moreover have "n_id (p_nodes p ! i) \<noteq> n_id (p_nodes p ! c)"
        using graph_ok_ids [OF ok(1) il] graph_ok_ids [OF ok(1) c(2)] False by auto
      ultimately show ?thesis using ch'(1) mono il ids [OF il] by auto
    qed
  qed
qed

lemma covered_absent:
  assumes "graph_ok p" "covered p ch V (set (cid # cs))"
    and "\<And>c. p_nodeByID p cid = Some c \<Longrightarrow> status_at p c \<noteq> NodeNotStarted"
  shows "covered p ch V (set cs)"
  unfolding covered_def
proof (intro allI impI)
  fix i assume i: "i < length (p_nodes p)" "status_at p i = NodeNotStarted"
  then have "n_id (p_nodes p ! i) \<noteq> cid" using graph_ok_ids [OF assms(1) i(1)] assms(3) by auto
  with i assms(2) show "i \<in> set ch \<or> awaits p V i \<or> n_id (p_nodes p ! i) \<in> set cs"
    by (auto simp: covered_def)
qed

lemma process_children_covered:
  "process_children lm cap cs p ch q = Some (p', ch', q') \<Longrightarrow> graph_ok p \<Longrightarrow> running_in p W \<Longrightarrow>
   covered p ch (W \<union> set q) (set cs) \<Longrightarrow>
   covered p' ch' (W \<union> set q') {} \<and> running_in p' W \<and> graph_ok p' \<and> pframe p p'"
proof (induction cs arbitrary: p ch q)
  case (Cons cid cs)
  show ?case
  proof (cases "\<exists>c. p_nodeByID p cid = Some c \<and> status_at p c = NodeNotStarted")
    case False
    then have "process_children lm cap cs p ch q = Some (p', ch', q')"
      using Cons.prems(1) by (auto split: option.splits)
    from Cons.IH [OF this Cons.prems(2,3)] covered_absent [OF Cons.prems(2,4)] False
    show ?thesis by blast
  next
    case True
    then obtain c where c: "p_nodeByID p cid = Some c" and ns: "status_at p c = NodeNotStarted" by auto
    have cl: "c < length (p_nodes p)" and id: "n_id (p_nodes p ! c) = cid"
      using c Cons.prems(2) last_pos_SomeD [of "plan_ids p" cid c] by (auto simp: graph_ok_def)
    obtain b p1 where r: "isReady lm c p = (b, p1)" by fastforce
    let ?q = "if \<not> b \<and> status_at p1 c \<noteq> NodeNotStarted then q @ [c] else q"
    obtain ch1 where ch1: "set ch \<subseteq> set ch1" "b \<Longrightarrow> c \<in> set ch1"
      and rest: "process_children lm cap cs p1 ch1 ?q = Some (p', ch', q')"
    proof (cases b)
      case True
      with Cons.prems(1) c ns r obtain ch1 where "send cap ch c = Some ch1"
        "process_children lm cap cs p1 ch1 q = Some (p', ch', q')" by (auto split: option.splits)
      moreover from this(1) have "set ch1 = insert c (set ch)" by (auto simp: send_def split: if_splits)
      ultimately show thesis using True that [of ch1] by auto
    next
      case False
      with Cons.prems(1) c ns r that [of ch] show thesis by (auto split: if_splits)
    qed
    have b: "b \<Longrightarrow> status_at p1 c = NodeNotStarted"
      using isReady_True_statuses r ns cl isReady_statuses(5) [OF r] by (metis status_at_statuses)
    have V: "W \<subseteq> W \<union> set q" "W \<union> set q \<subseteq> W \<union> set ?q"
      "status_at p1 c \<noteq> NodeNotStarted \<Longrightarrow> c \<in> W \<union> set ?q" using b by auto
    note chk = covered_check [OF r ns cl Cons.prems(2,3) V(1) Cons.prems(4) V(2,3) ch1, unfolded id]
    have "covered p1 ch1 (W \<union> set ?q) (set (cid # cs) - {cid})"
      using chk(1) by simp
    then have "covered p1 ch1 (W \<union> set ?q) (set cs)" by (auto simp: covered_def)
    moreover have "running_in p1 W" "graph_ok p1" "pframe p p1"
      using chk(2-4) by simp_all
    ultimately show ?thesis using Cons.IH [OF rest] pframe_trans by blast
  qed
qed simp

lemma process_queue_covered:
  "process_queue lm cap q p ch = Some (p', ch') \<Longrightarrow> graph_ok p \<Longrightarrow> running_in p W \<Longrightarrow>
   covered p ch (W \<union> set q) {} \<Longrightarrow>
   covered p' ch' W {} \<and> running_in p' W \<and> graph_ok p'"
proof (induction lm cap q p ch rule: process_queue.induct)
  case (2 lm cap cur q p ch)
  let ?cs = "Dependents p (n_id (p_nodes p ! cur))"
  from 2(2) obtain p1 ch1 q1 where
    c: "process_children lm cap ?cs p ch q = Some (p1, ch1, q1)"
    and rest: "process_queue lm cap q1 p1 ch1 = Some (p', ch')" by (auto split: option.splits)
  have "covered p ch (W \<union> set q) (set ?cs)" unfolding covered_def
  proof (intro allI impI)
    fix i assume i: "i < length (p_nodes p)" "status_at p i = NodeNotStarted"
    show "i \<in> set ch \<or> awaits p (W \<union> set q) i \<or> n_id (p_nodes p ! i) \<in> set ?cs"
    proof (rule ccontr)
      assume n: "\<not> ?thesis"
      with i 2(5) have "awaits p (W \<union> set (cur # q)) i" by (auto simp: covered_def)
      then obtain d j where d: "d \<in> set (Dependencies p (n_id (p_nodes p ! i)))" "p_nodeByID p d = Some j"
        "open_status (status_at p j) \<or> j \<in> W \<union> set (cur # q)" by (auto simp: awaits_def)
      with n have "j = cur" by (auto simp: awaits_def)
      then have "d = n_id (p_nodes p ! cur)" using graph_ok_dep(1) [OF 2(3) d(1)] d(2) by auto
      with graph_ok_dep(2) [OF 2(3) d(1)] n show False by simp
    qed
  qed
  note pc = process_children_covered [OF c 2(3,4) this]
  with 2(1) [OF c refl refl rest] show ?case by blast
qed simp

lemma covered_mono:
  assumes cov: "covered p ch W {}" and g: "same_graph p p'" "graph_ok p"
    and ns: "\<And>i. i < length (p_nodes p) \<Longrightarrow> status_at p' i = NodeNotStarted \<Longrightarrow>
      status_at p i = NodeNotStarted \<and> (i \<in> set ch \<longrightarrow> i \<in> set ch')"
    and op: "\<And>j. j < length (p_nodes p) \<Longrightarrow> open_status (status_at p j) \<or> j \<in> W \<Longrightarrow>
      open_status (status_at p' j) \<or> j \<in> W'"
  shows "covered p' ch' W' {}"
  unfolding covered_def same_graph_length [OF g(1)]
proof (intro allI impI)
  fix i assume i: "i < length (p_nodes p)" "status_at p' i = NodeNotStarted"
  with ns have "status_at p i = NodeNotStarted" "i \<in> set ch \<longrightarrow> i \<in> set ch'" by auto
  with cov i(1) awaits_mono [OF _ g i(1) op] show "i \<in> set ch' \<or> awaits p' W' i \<or> n_id (p_nodes p' ! i) \<in> {}"
    by (auto simp: covered_def)
qed

section \<open>The loop keeps every node covered\<close>

definition quiet :: "event \<Rightarrow> bool" where
  "quiet e \<longleftrightarrow> event_ok e \<and> (case e of
     EvBody i re \<Rightarrow> \<forall>ie \<in> set (re_iters re). \<not> ie_panic ie \<and> \<not> ie_canceledErr ie | _ \<Rightarrow> True)"

definition open_nodes :: "loop_state \<Rightarrow> nat set" where
  "open_nodes s = set (l_exec s) \<union> set (l_doneCh s)"

definition progress_inv :: "loop_state \<Rightarrow> bool" where
  "progress_inv s \<longleftrightarrow> covered (l_plan s) (l_readyCh s) (open_nodes s) {}
     \<and> running_in (l_plan s) (open_nodes s)
     \<and> (\<forall>i \<in> set (l_doneCh s). status_at (l_plan s) i \<noteq> NodeRunning)"

definition dinv :: "loop_state \<Rightarrow> bool" where
  "dinv s \<longleftrightarrow> graph_ok (l_plan s)
     \<and> (r_canceled (l_runner s) \<or> l_pc s = AtBlocked \<or> progress_inv s)"

lemma goroutine_quiet:
  assumes "node_goroutine progress st re r n = Some (r', n', panicked)"
    and "\<forall>ie \<in> set (re_iters re). \<not> ie_panic ie \<and> \<not> ie_canceledErr ie"
  shows "\<not> panicked" "Status n' \<noteq> NodeRunning"
proof -
  have loop: "exec_loop pr st ies r n = Some (r', n', LoopPanic) \<Longrightarrow> \<forall>ie \<in> set ies. \<not> ie_panic ie \<Longrightarrow>
      False" for pr st ies r n r' n'
  proof (induction ies arbitrary: r n)
    case (Cons ie ies)
    then show ?case
      by (auto simp: loop_pass_def Let_def split: sum.splits prod.splits bool.splits if_splits)
  qed simp
  obtain n1 e where prep: "(if r_dry r then (n, None) else Prepare (re_prep re) n) = (n1, e)"
    by fastforce
  show "\<not> panicked"
  proof
    assume p: panicked
    then have "runNodeExecution progress st re r n1 = Some (r', n', True)"
      using assms(1) prep by (cases e) (auto simp: node_goroutine_def)
    then obtain m where "exec_loop progress st (re_iters re) r m = Some (r', n', LoopPanic)"
      by (auto simp: runNodeExecution_def Let_def split: prod.splits bool.splits option.splits
          loop_exit.splits)
    then show False using loop assms(2) by blast
  qed
  then show "Status n' \<noteq> NodeRunning"
    using goroutine_not_running [of progress st re r n r' n'] assms by simp
qed

lemma plan_ids_update:
  assumes "n_id (f (p_nodes p ! i)) = n_id (p_nodes p ! i)"
  shows "plan_ids (update_node i f p) = plan_ids p"
  using assms by (simp add: update_node_def map_update)
    (metis length_map list_update_beyond list_update_id not_le nth_map)

lemma dinv_ready:
  assumes inv: "linv s" "dinv s" and pc: "l_pc s = AtSelect True" and ch: "l_readyCh s = i # ch"
  shows "dinv (start_node i (s\<lparr>l_readyCh := ch\<rparr>))" (is "dinv ?t")
proof -
  have il: "i < l_cap s" using linv_bounds(2) [OF inv(1)] ch by simp
  have "plan_ids (update_node i (SetStatus NodeRunning) (l_plan s)) = plan_ids (l_plan s)"
    by (rule plan_ids_update) (simp add: node_simps)
  then have sg: "same_graph (l_plan s) (l_plan ?t)" by (simp add: start_node_def same_graph_def)
  have run: "l_runner ?t = l_runner s" by (simp add: start_node_def)
  have gk: "graph_ok (l_plan s)" using inv(2) by (simp add: dinv_def)
  have "progress_inv ?t" if "progress_inv s"
  proof (cases "status_at (l_plan s) i = NodeNotStarted")
    case False
    then have t: "l_plan ?t = l_plan s" "l_readyCh ?t = ch" "open_nodes ?t = open_nodes s"
      "l_doneCh ?t = l_doneCh s" by (simp_all add: start_node_def open_nodes_def)
    show ?thesis using that False ch unfolding progress_inv_def covered_def t by auto
  next
    case True
    let ?p = "update_node i (SetStatus NodeRunning) (l_plan s)"
    have t: "l_plan ?t = ?p" "l_readyCh ?t = ch" "open_nodes ?t = insert i (open_nodes s)"
      "l_doneCh ?t = l_doneCh s" using True by (auto simp: start_node_def open_nodes_def)
    have st: "status_at ?p j = (if j = i then NodeRunning else status_at (l_plan s) j)" for j
      using il by (simp add: update_node_nth node_simps)
    have "covered ?p ch (insert i (open_nodes s)) {}"
    proof (rule covered_mono)
      show "covered (l_plan s) (l_readyCh s) (open_nodes s) {}" using that by (simp add: progress_inv_def)
      show "same_graph (l_plan s) ?p" using sg by (simp add: t)
      show "graph_ok (l_plan s)" by (rule gk)
    qed (auto simp: st ch split: if_splits)
    moreover have "i \<notin> set (l_doneCh s)"
      using True inv(1) by (auto simp: linv_def lists_inv_def plan_inv_def)
    ultimately show ?thesis using that unfolding progress_inv_def t running_in_def
      by (auto simp: st)
  qed
  with inv(2) run pc graph_ok_same [OF sg] show ?thesis by (auto simp: dinv_def)
qed

lemma dinv_done:
  assumes inv: "linv s" "dinv s" and pc: "l_pc s = AtSelect b" and ch: "l_doneCh s = i # ch"
  shows "dinv (complete_node lm i (s\<lparr>l_doneCh := ch\<rparr>))" (is "dinv ?t")
proof (cases "processCompletedNode lm (l_cap s) (r_canceled (l_runner s)) i (l_plan s) (l_readyCh s)")
  case None
  with inv(2) show ?thesis by (simp add: complete_node_def dinv_def)
next
  case (Some res)
  obtain p rch where res: "res = (p, rch)" by fastforce
  have t: "l_plan ?t = p" "l_readyCh ?t = rch" "l_doneCh ?t = ch" "l_exec ?t = l_exec s"
    "l_runner ?t = l_runner s" using Some res by (simp_all add: complete_node_def)
  have "ready_inv (l_plan s) (l_readyCh s)"
    using inv(1) by (auto simp: linv_def plan_inv_def intro: ready_inv_sub)
  with processCompletedNode_frame [of lm _ _ i "l_plan s" "l_readyCh s" p rch] Some res
  have fr: "pframe (l_plan s) p" by auto
  have gk: "graph_ok (l_plan s)" using inv(2) by (simp add: dinv_def)
  have gp: "graph_ok p" using graph_ok_same [OF same_graph_grows [OF grows_pframe [OF fr]]] gk by simp
  have "progress_inv ?t" if pr: "progress_inv s" "\<not> r_canceled (l_runner s)"
  proof -
    let ?W = "set (l_exec s) \<union> set ch"
    have q: "process_queue lm (l_cap s) [i] (l_plan s) (l_readyCh s) = Some (p, rch)"
      using Some res pr(2) by (simp add: processCompletedNode_def del: process_queue.simps)
    have W: "open_nodes s = ?W \<union> set [i]" by (auto simp: open_nodes_def ch)
    have "running_in (l_plan s) ?W"
      using pr(1) ch by (auto simp: progress_inv_def running_in_def open_nodes_def)
    moreover have "covered (l_plan s) (l_readyCh s) (?W \<union> set [i]) {}"
      using pr(1) by (simp only: progress_inv_def W)
    ultimately have "covered p rch ?W {}" "running_in p ?W"
      using process_queue_covered [OF q gk] by simp_all
    moreover have "status_at p j \<noteq> NodeRunning" if j: "j \<in> set ch" for j
    proof -
      have jl: "j \<in> set (l_started s)" using inv(1) j ch by (auto simp: linv_def lists_inv_def)
      then have "status_at (l_plan s) j \<noteq> NodeNotStarted" "j < l_cap s"
        using inv(1) linv_bounds(1) [OF inv(1)] by (auto simp: linv_def plan_inv_def)
      then have "status_at p j = status_at (l_plan s) j" using fr by (simp add: pframe_def)
      with pr(1) j ch show ?thesis by (simp add: progress_inv_def)
    qed
    ultimately show ?thesis by (simp add: progress_inv_def open_nodes_def t)
  qed
  with inv(2) pc gp show ?thesis by (auto simp: dinv_def t)
qed

text \<open>The other steps change the status of one node at a time and keep the channels.\<close>

lemma progress_inv_update:
  assumes pr: "progress_inv s" and g: "same_graph (l_plan s) (l_plan t)" "graph_ok (l_plan s)"
    and t: "l_readyCh t = l_readyCh s" "open_nodes t = open_nodes s"
    and dn: "\<And>i. i \<in> set (l_doneCh t) \<Longrightarrow> status_at (l_plan t) i \<noteq> NodeRunning"
    and st: "\<And>i. i < l_cap s \<Longrightarrow> i \<notin> open_nodes s \<Longrightarrow>
      open_status (status_at (l_plan s) i) \<Longrightarrow> open_status (status_at (l_plan t) i)"
      "\<And>i. i < l_cap s \<Longrightarrow> status_at (l_plan t) i = NodeNotStarted \<Longrightarrow>
      status_at (l_plan s) i = NodeNotStarted"
      "\<And>i. i < l_cap s \<Longrightarrow> i \<notin> open_nodes s \<Longrightarrow> status_at (l_plan t) i = NodeRunning \<Longrightarrow>
      status_at (l_plan s) i = NodeRunning"
  shows "progress_inv t"
proof -
  have c: "covered (l_plan s) (l_readyCh s) (open_nodes s) {}" using pr by (simp add: progress_inv_def)
  have "covered (l_plan t) (l_readyCh s) (open_nodes s) {}"
    by (rule covered_mono [OF c g]) (use st in auto)
  moreover have "running_in (l_plan t) (open_nodes s)"
    using pr st(3) unfolding running_in_def same_graph_length [OF g(1)]
    by (auto simp: progress_inv_def running_in_def)
  ultimately show ?thesis using dn by (simp add: progress_inv_def t)
qed

lemma dinv_body:
  assumes inv: "linv s" "dinv s" and i: "i \<in> set (l_exec s)" and re: "quiet (EvBody i re)"
    and go: "node_goroutine True (p_startedAt (l_plan s)) re (l_runner s) (p_nodes (l_plan s) ! i) =
      Some (r, n, panicked)"
    and snd: "send (l_cap s) (l_doneCh s) i = Some ch"
    and t: "t = s\<lparr>l_plan := update_node i (\<lambda>_. n) (l_plan s), l_runner := r, l_doneCh := ch,
      l_exec := remove1 i (l_exec s), l_finish := l_finish s @ [(i, panicked)]\<rparr>"
  shows "dinv t"
proof -
  have env: "env_ok re" "\<forall>ie \<in> set (re_iters re). \<not> ie_panic ie \<and> \<not> ie_canceledErr ie"
    using re by (simp_all add: quiet_def event_ok_def)
  note nf = nframe_goroutine [OF go env(1)] and nr = goroutine_quiet(2) [OF go env(2)]
  have il: "i < l_cap s" using linv_bounds(4) [OF inv(1)] i by (simp add: may_panic_def)
  have ch: "ch = l_doneCh s @ [i]" using snd by (simp add: send_def split: if_splits)
  have sg: "same_graph (l_plan s) (l_plan t)"
    using nf by (simp add: same_graph_def t plan_ids_update nframe_def)
  have d: "distinct (l_exec s)" and "i \<in> set (l_started s)"
    using inv(1) i by (auto simp: linv_def lists_inv_def)
  then have ns: "status_at (l_plan s) i \<noteq> NodeNotStarted" using inv(1) by (simp add: linv_def plan_inv_def)
  have st: "status_at (l_plan t) j = (if j = i then Status n else status_at (l_plan s) j)" for j
    using il by (simp add: t update_node_nth)
  have op: "open_nodes t = open_nodes s" "i \<in> open_nodes s"
    using d i by (auto simp: open_nodes_def t ch)
  have "progress_inv t" if pr: "progress_inv s"
  proof (rule progress_inv_update [OF pr sg _ _ op(1)])
    show "graph_ok (l_plan s)" using inv(2) by (simp add: dinv_def)
    show "l_readyCh t = l_readyCh s" by (simp add: t)
    show "status_at (l_plan t) j \<noteq> NodeRunning" if "j \<in> set (l_doneCh t)" for j
      using that nr pr unfolding st by (auto simp: t ch progress_inv_def)
    show "status_at (l_plan s) j = NodeNotStarted" if "status_at (l_plan t) j = NodeNotStarted" for j
      using that nf ns unfolding st by (auto simp: nframe_def split: if_splits)
  qed (use op(2) in \<open>auto simp: st split: if_splits\<close>)
  moreover have "r_canceled (l_runner t) = r_canceled (l_runner s)" using nf by (simp add: t nframe_def)
  moreover have "l_pc t = l_pc s" by (simp add: t)
  ultimately show ?thesis using inv(2) graph_ok_same [OF sg] by (auto simp: dinv_def)
qed

lemma dinv_finish:
  assumes inv: "linv s" "dinv s" and f: "(i, panicked) \<in> set (l_finish s)"
    and rec: "recoverNodePanic panicked a (l_runner s) (p_nodes (l_plan s) ! i) = (r1, n1)"
    and fin: "finishNode now r1 n1 = (r2, n2)"
    and t: "t = s\<lparr>l_plan := update_node i (\<lambda>_. n2) (l_plan s), l_runner := r2,
      l_finish := remove1 (i, panicked) (l_finish s)\<rparr>"
  shows "dinv t"
proof -
  note nf = nframe_deferred [OF rec fin]
  have stt: "i \<in> set (l_started s)" using inv(1) f by (force simp: linv_def lists_inv_def)
  then have il: "i < l_cap s" and ns: "status_at (l_plan s) i \<noteq> NodeNotStarted"
    using linv_bounds(1) [OF inv(1)] inv(1) by (auto simp: linv_def plan_inv_def)
  have "n2 = Finish now n1" using fin by (simp add: finishNode_def)
  then have n2: "Status n2 = (if panicked then NodeFailed else status_at (l_plan s) i)"
    using rec by (auto simp: recoverNodePanic_def Let_def node_simps)
  have act: "\<not> open_status (status_at (l_plan s) i)" if panicked
  proof -
    have "active (p_nodes (l_plan s) ! i)" using inv(1) f that by (simp add: linv_def plan_inv_def may_panic_def)
    then show ?thesis by (auto simp: active_def open_status_def)
  qed
  have st: "status_at (l_plan t) j = (if j = i then Status n2 else status_at (l_plan s) j)" for j
    using il by (simp add: t update_node_nth)
  have sg: "same_graph (l_plan s) (l_plan t)"
    using nf by (simp add: same_graph_def t plan_ids_update nframe_def)
  have "progress_inv t" if pr: "progress_inv s"
  proof (rule progress_inv_update [OF pr sg])
    show "graph_ok (l_plan s)" using inv(2) by (simp add: dinv_def)
    show "status_at (l_plan t) j \<noteq> NodeRunning" if "j \<in> set (l_doneCh t)" for j
      using that pr unfolding st n2 by (auto simp: t progress_inv_def)
    show "status_at (l_plan s) j = NodeNotStarted" if "status_at (l_plan t) j = NodeNotStarted" for j
      using that ns unfolding st n2 by (auto split: if_splits)
    show "open_status (status_at (l_plan t) j)" if "open_status (status_at (l_plan s) j)" for j
      using that act unfolding st n2 by auto
    show "status_at (l_plan s) j = NodeRunning" if "status_at (l_plan t) j = NodeRunning" for j
      using that unfolding st n2 by (auto split: if_splits)
  qed (simp_all add: t open_nodes_def)
  moreover have "r_canceled (l_runner t) = r_canceled (l_runner s)" using nf by (simp add: t nframe_def)
  moreover have "l_pc t = l_pc s" by (simp add: t)
  ultimately show ?thesis using inv(2) graph_ok_same [OF sg] by (auto simp: dinv_def)
qed

lemma dinv_signal:
  assumes inv: "linv s" "dinv s" and sgn: "runner_Signal ts tst ov (l_runner s) (l_plan s) = (r, p)"
    and t: "t = s\<lparr>l_runner := r, l_plan := p\<rparr>"
  shows "dinv t"
proof -
  let ?f = "\<lambda>n. if rp_RepeatMode (sp_RepeatPolicy (n_step n)) \<noteq> '''' then n else node_Signal ts tst ov n"
  have p: "p = (l_plan s)\<lparr>p_nodes := map ?f (p_nodes (l_plan s))\<rparr>"
    and r: "r_canceled (l_runner s) \<Longrightarrow> r_canceled r"
    using sgn by (auto simp: runner_Signal_def setCanceled_def)
  have f: "?f n = n \<or> Status n = NodeRunning \<and> Status (?f n) = NodeAborted" for n
    by (auto simp: node_Signal_def node_simps)
  have "n_id (?f n) = n_id n" for n by (simp add: node_Signal_def node_simps)
  then have sg: "same_graph (l_plan s) (l_plan t)" by (simp add: same_graph_def t p)
  have st: "status_at (l_plan t) j = status_at (l_plan s) j \<or>
      status_at (l_plan s) j = NodeRunning \<and> status_at (l_plan t) j = NodeAborted" if "j < l_cap s" for j
    using that f [of "p_nodes (l_plan s) ! j"] by (auto simp: t p)
  have dl: "j < l_cap s" if "j \<in> set (l_doneCh s)" for j
    using that inv(1) linv_bounds(1) [OF inv(1)] by (auto simp: linv_def lists_inv_def)
  have "progress_inv t" if pr: "progress_inv s"
  proof (rule progress_inv_update [OF pr sg])
    show "graph_ok (l_plan s)" using inv(2) by (simp add: dinv_def)
    show "status_at (l_plan t) j \<noteq> NodeRunning" if "j \<in> set (l_doneCh t)" for j
      using that pr st [of j] dl [of j] by (auto simp: t progress_inv_def)
    show "status_at (l_plan s) j = NodeNotStarted"
      if "j < l_cap s" "status_at (l_plan t) j = NodeNotStarted" for j using that st [of j] by auto
    show "open_status (status_at (l_plan t) j)"
      if "j < l_cap s" "open_status (status_at (l_plan s) j)" for j
      using that st [of j] by (auto simp: open_status_def)
    show "status_at (l_plan s) j = NodeRunning" if "j < l_cap s" "status_at (l_plan t) j = NodeRunning" for j
      using that st [of j] by auto
  qed (simp_all add: t open_nodes_def)
  moreover have "l_pc t = l_pc s" "l_runner t = r" by (simp_all add: t)
  ultimately show ?thesis using inv(2) graph_ok_same [OF sg] r by (auto simp: dinv_def)
qed

lemma dinv_cancel:
  assumes "dinv s" "runner_Cancel (l_runner s) (l_plan s) = (r, p)"
  shows "dinv (s\<lparr>l_runner := r, l_plan := p\<rparr>)"
proof -
  have p: "p = (l_plan s)\<lparr>p_nodes := map node_Cancel (p_nodes (l_plan s))\<rparr>" "r_canceled r"
    using assms(2) by (auto simp: runner_Cancel_def setCanceled_def)
  have "n_id (node_Cancel n) = n_id n" for n by (simp add: node_Cancel_def node_simps)
  then have "same_graph (l_plan s) p" by (simp add: same_graph_def p)
  with assms(1) p(2) graph_ok_same show ?thesis by (auto simp: dinv_def)
qed

lemma dinv_lstep:
  assumes "lstep s e t" "linv s" "dinv s" "quiet e"
  shows "dinv t"
  using assms(1)
proof (cases rule: lstep.cases)
  case check
  have "l_plan t = l_plan s" "r_canceled (l_runner t) = r_canceled (l_runner s)"
    "progress_inv s \<Longrightarrow> progress_inv t"
    by (auto simp: check(2) loop_check_def Let_def setLastError_def progress_inv_def open_nodes_def)
  with assms(3) check(3) show ?thesis by (auto simp: dinv_def)
next
  case (ready i ch)
  with assms(2,3) show ?thesis using dinv_ready by simp
next
  case (completed b i ch lm)
  with assms(2,3) show ?thesis using dinv_done by simp
next
  case (ctx_done b err)
  note ctx = this
  have "l_plan t = l_plan s" "r_canceled (l_runner t) = r_canceled (l_runner s)"
    "progress_inv s \<Longrightarrow> progress_inv t"
    by (auto simp: ctx(2) context_done_def Let_def setLastError_def progress_inv_def open_nodes_def)
  with assms(3) ctx(3) show ?thesis by (auto simp: dinv_def)
next
  case (body i re r n panicked ch)
  from dinv_body [OF assms(2,3) body(3) _ body(4,5,2)] assms(4) body(1) show ?thesis by simp
next
  case (finish i panicked a r1 n1 now r2 n2)
  from dinv_finish [OF assms(2,3) finish(3-5,2)] show ?thesis .
next
  case (cancel r p)
  with assms(3) show ?thesis using dinv_cancel by simp
next
  case (signal ts tst ov r p)
  from dinv_signal [OF assms(2,3) signal(3,2)] show ?thesis .
qed

section \<open>The initial state of a fresh plan\<close>

definition all_fresh :: "plan \<Rightarrow> bool" where
  "all_fresh p \<longleftrightarrow> (\<forall>n \<in> set (p_nodes p). Status n = NodeNotStarted)"

lemma isReady_fresh:
  assumes "all_fresh p" "graph_ok p"
  shows "isReady lm i p = (Dependencies p (n_id (p_nodes p ! i)) = [], p)"
proof (cases "Dependencies p (n_id (p_nodes p ! i))")
  case (Cons d ds)
  then obtain j where "p_nodeByID p d = Some j" "j < length (p_nodes p)"
    using graph_ok_dep(1) [OF assms(2), of d "n_id (p_nodes p ! i)"] by auto
  moreover from this have "status_at p j = NodeNotStarted" using assms(1) by (simp add: all_fresh_def)
  ultimately show ?thesis using Cons by (simp add: isReady_def)
qed (simp add: isReady_def)

lemma initial_ready_fresh:
  assumes "all_fresh p" "graph_ok p"
  shows "set is \<subseteq> {..<length (p_nodes p)} \<Longrightarrow> length ch + length is \<le> cap \<Longrightarrow>
    \<exists>ch'. initial_ready lm cap is p ch = Some (p, ch') \<and>
      set ch' = set ch \<union> {i \<in> set is. Dependencies p (n_id (p_nodes p ! i)) = []}"
proof (induction "is" arbitrary: ch)
  case (Cons i "is")
  then have ns: "status_at p i = NodeNotStarted" using assms(1) by (simp add: all_fresh_def)
  show ?case
  proof (cases "Dependencies p (n_id (p_nodes p ! i)) = []")
    case True
    from Cons.IH [of "ch @ [i]"] Cons.prems obtain ch' where
      "initial_ready lm cap is p (ch @ [i]) = Some (p, ch')"
      "set ch' = set (ch @ [i]) \<union> {i \<in> set is. Dependencies p (n_id (p_nodes p ! i)) = []}" by auto
    with True ns Cons.prems show ?thesis by (auto simp: isReady_fresh [OF assms] send_def)
  next
    case False
    from Cons.IH [of ch] Cons.prems obtain ch' where
      "initial_ready lm cap is p ch = Some (p, ch')"
      "set ch' = set ch \<union> {i \<in> set is. Dependencies p (n_id (p_nodes p ! i)) = []}" by auto
    with False ns show ?thesis by (auto simp: isReady_fresh [OF assms])
  qed
qed simp

lemma loop_init_fresh:
  assumes "all_fresh p" "graph_ok p"
  shows "\<exists>s. loop_init lm r p = Some s \<and> l_plan s = p \<and> progress_inv s"
proof -
  obtain ch where i: "initial_ready lm (length (p_nodes p)) [0..<length (p_nodes p)] p [] = Some (p, ch)"
    and ch: "set ch = {i. i < length (p_nodes p) \<and> Dependencies p (n_id (p_nodes p ! i)) = []}"
    using initial_ready_fresh [OF assms, of "[0..<length (p_nodes p)]" "[]" "length (p_nodes p)" lm]
    by (auto simp: atLeast0LessThan)
  have "awaits p {} i" if "i < length (p_nodes p)" "i \<notin> set ch" for i
  proof -
    have "Dependencies p (n_id (p_nodes p ! i)) \<noteq> []" using that ch by simp
    then obtain d where d: "d \<in> set (Dependencies p (n_id (p_nodes p ! i)))" by (meson list.set_sel(1))
    from graph_ok_dep(1) [OF assms(2) d] obtain j where j: "p_nodeByID p d = Some j"
      "j < length (p_nodes p)" by auto
    then have "open_status (status_at p j)" using assms(1) by (simp add: open_status_def all_fresh_def)
    with d j(1) show ?thesis by (auto simp: awaits_def)
  qed
  then have "covered p ch {} {}" by (auto simp: covered_def)
  moreover have "running_in p {}" using assms(1) by (auto simp: running_in_def all_fresh_def)
  ultimately show ?thesis using i by (simp add: loop_init_def progress_inv_def open_nodes_def)
qed

text \<open>On an acyclic graph somebody always waits for nobody.\<close>

lemma covered_finished:
  assumes cov: "covered p [] {} {}" and run: "running_in p {}" and g: "graph_ok p"
    and ac: "acyclic (edges (p_DependantMap p))"
    and w: "\<not> HasWaiting (NodeStates p)" "\<not> HasRetrying (NodeStates p)"
  shows "CheckFinished p"
proof (rule ccontr)
  assume "\<not> CheckFinished p"
  let ?N = "{i. i < length (p_nodes p) \<and> status_at p i = NodeNotStarted}"
  let ?ids = "(\<lambda>i. n_id (p_nodes p ! i)) ` ?N"
  have open_ns: "status_at p j = NodeNotStarted" if "open_status (status_at p j)" "j < length (p_nodes p)" for j
    using that w by (auto simp: NodeStates_iff open_status_def)
  obtain i where "i < length (p_nodes p)" "status_at p i = NodeRunning \<or> status_at p i = NodeRetrying
      \<or> status_at p i = NodeNotStarted"
    using \<open>\<not> CheckFinished p\<close> by (auto simp: CheckFinished_def list_ex_iff in_set_conv_nth)
  moreover have "status_at p i \<noteq> NodeRunning" using run calculation(1) by (auto simp: running_in_def)
  moreover have "status_at p i \<noteq> NodeRetrying" using w(2) calculation(1) by (auto simp: NodeStates_iff)
  ultimately have i: "i \<in> ?N" by simp
  have "finite (edges (p_DependantMap p))"
    using g finite_subset [of _ "set (plan_ids p) \<times> set (plan_ids p)"]
    by (auto simp: graph_ok_def mirrored_def)
  then have wf: "wf (edges (p_DependantMap p))" using ac by (rule finite_acyclic_wf)
  have "n_id (p_nodes p ! i) \<in> ?ids" using i by (rule imageI)
  from wfE_min [OF wf this] obtain u where u: "u \<in> ?ids"
    "\<And>d. (d, u) \<in> edges (p_DependantMap p) \<Longrightarrow> d \<notin> ?ids" by blast
  then obtain k where k: "k \<in> ?N" "u = n_id (p_nodes p ! k)" by auto
  then have "awaits p {} k" using cov by (simp add: covered_def)
  then obtain d j where d: "d \<in> set (Dependencies p u)" "p_nodeByID p d = Some j" "open_status (status_at p j)"
    using k(2) by (auto simp: awaits_def)
  have j: "j < length (p_nodes p)" "n_id (p_nodes p ! j) = d" using graph_ok_dep(1) [OF g d(1)] d(2) by auto
  then have "d \<in> ?ids" using open_ns [OF d(3)] by auto
  moreover have "(d, u) \<in> edges (p_DependantMap p)"
    using graph_ok_dep(2) [OF g d(1)] by (simp add: edges_def Dependents_def)
  ultimately show False using u(2) by blast
qed

lemma NewPlan_fresh:
  assumes "0 < nid" "fst (NewPlan now nid steps) = Inr p"
  shows "plan_wf p" "all_fresh p" "acyclic (edges (p_DependantMap p))"
proof -
  have "missing_names steps = []" "acyclic (step_edges nid steps)"
    using assms NewPlan_cases(1,2) [OF assms(1), where steps = steps and now = now]
    by (cases "missing_names steps"; auto)+
  with NewPlan_cases(3) [OF assms(1), of steps now] assms(2)
  have p: "plan_of_steps now nid steps p" and ac: "acyclic (step_edges nid steps)" by auto
  have "n_state n = zero_node_state" if "n \<in> set (p_nodes p)" for n
  proof -
    have "n_state n \<in> set (map n_state (p_nodes p))" using that by simp
    also have "map n_state (p_nodes p) = map (\<lambda>_. zero_node_state) steps"
      using p by (simp add: plan_of_steps_def)
    finally show ?thesis by auto
  qed
  then show "all_fresh p" by (simp add: all_fresh_def zero_node_state_def)
  show "plan_wf p" "acyclic (edges (p_DependantMap p))" using p ac by (simp_all add: plan_of_steps_def)
qed

lemma check_never_deadlocks:
  assumes "linv t" "dinv t" "l_pc t = AtCheck" "0 \<le> r_maxActiveRuns (l_runner t)"
    and ac: "acyclic (edges (p_DependantMap (l_plan t)))"
  shows "l_runner (loop_check t) = l_runner t"
    and "l_pc (loop_check t) = AtExit \<longrightarrow> CheckFinished (l_plan t) \<or> r_canceled (l_runner t)
      \<or> HasWaiting (NodeStates (l_plan t)) \<or> HasRetrying (NodeStates (l_plan t))"
proof -
  have fin: "CheckFinished (l_plan t)"
    if no: "\<not> r_canceled (l_runner t)" "l_running t = 0" "l_readyCh t = []"
      "\<not> HasWaiting (NodeStates (l_plan t))" "\<not> HasRetrying (NodeStates (l_plan t))"
  proof -
    have "int (length (l_exec t) + length (l_doneCh t)) = 0"
      using assms(1) no(2) unfolding linv_def lists_inv_def by metis
    then have "length (l_exec t) + length (l_doneCh t) = 0" by (simp only: of_nat_eq_0_iff)
    then have "l_exec t = []" "l_doneCh t = []" by simp_all
    moreover have "progress_inv t" "graph_ok (l_plan t)" using assms(2,3) no(1) by (auto simp: dinv_def)
    ultimately show ?thesis using covered_finished [of "l_plan t"] no(3-5) ac
      by (simp add: progress_inv_def open_nodes_def)
  qed
  have en: "ready_enabled t" if "\<not> r_canceled (l_runner t)" "l_running t = 0"
    using that assms(4) by (auto simp: ready_enabled_def)
  show "l_runner (loop_check t) = l_runner t" using fin en by (auto simp: loop_check_def Let_def)
  show "l_pc (loop_check t) = AtExit \<longrightarrow> CheckFinished (l_plan t) \<or> r_canceled (l_runner t)
      \<or> HasWaiting (NodeStates (l_plan t)) \<or> HasRetrying (NodeStates (l_plan t))"
    using fin en by (auto simp: loop_check_def Let_def)
qed

lemma complete_dependants:
  assumes "linv s"
  shows "p_DependantMap (l_plan (complete_node lm i (s\<lparr>l_doneCh := ch\<rparr>))) = p_DependantMap (l_plan s)"
proof (cases "processCompletedNode lm (l_cap s) (r_canceled (l_runner s)) i (l_plan s) (l_readyCh s)")
  case (Some res)
  obtain p rch where res: "res = (p, rch)" by fastforce
  have "ready_inv (l_plan s) (l_readyCh s)"
    using assms by (auto simp: linv_def plan_inv_def intro: ready_inv_sub)
  with processCompletedNode_frame Some res have "pframe (l_plan s) p" by blast
  with Some res show ?thesis by (simp add: complete_node_def pframe_def)
qed (simp add: complete_node_def)

lemma lstep_dependants:
  assumes "lstep s e t" "linv s"
  shows "p_DependantMap (l_plan t) = p_DependantMap (l_plan s)"
  using assms
  by (cases rule: lstep.cases)
    (auto simp: complete_dependants loop_check_def start_node_def context_done_def Let_def
      runner_Cancel_def runner_Signal_def)

lemma lsteps_dependants:
  assumes "lsteps quiet s t" "linv s" "dinv s"
  shows "p_DependantMap (l_plan t) = p_DependantMap (l_plan s) \<and> linv t \<and> dinv t"
  using assms
proof (induction rule: lsteps.induct)
  case (more s t e u)
  then have "event_ok e" by (simp add: quiet_def)
  with more show ?case using linv_lstep dinv_lstep lstep_dependants by metis
qed simp

section \<open>Properties\<close>



end
