(* ===== verification/Go_Time.thy ===== *)
theory Go_Time
  imports Go_Base
begin

text \<open>
  Calendar and text: UTC times as the fields that Go's \<open>Format\<close> and \<open>Parse\<close> see, their order,
  the conversion from and to nanoseconds, decimal numbers of fixed width, and the functions of
  \<open>path/filepath\<close> and \<open>strings\<close> that file names and schedules go through.
\<close>

section \<open>UTC times\<close>

record utc =
  u_year :: nat
  u_month :: nat
  u_day :: nat
  u_hour :: nat
  u_min :: nat
  u_sec :: nat
  u_nanos :: nat

definition leap_year :: "nat \<Rightarrow> bool" where
  "leap_year y \<longleftrightarrow> y mod 4 = 0 \<and> (y mod 100 \<noteq> 0 \<or> y mod 400 = 0)"

definition days_in :: "nat \<Rightarrow> nat \<Rightarrow> nat" where
  "days_in y m = (if m = 2 then (if leap_year y then 29 else 28)
     else if m \<in> {4, 6, 9, 11} then 30 else 31)"

definition valid_date :: "utc \<Rightarrow> bool" where
  "valid_date t \<longleftrightarrow> 1 \<le> u_month t \<and> u_month t \<le> 12 \<and> 1 \<le> u_day t
     \<and> u_day t \<le> days_in (u_year t) (u_month t)
     \<and> u_hour t < 24 \<and> u_min t < 60 \<and> u_sec t < 60"

text \<open>The clock times of the program: from 1970 to the last year whose nanoseconds fit an
  \<open>int64\<close>.\<close>

definition valid_utc :: "utc \<Rightarrow> bool" where
  "valid_utc t \<longleftrightarrow> valid_date t \<and> u_nanos t < 1000000000 \<and> 1970 \<le> u_year t \<and> u_year t \<le> 2261"

definition date_rank :: "utc \<Rightarrow> nat" where
  "date_rank t = (u_year t * 100 + u_month t) * 100 + u_day t"

definition clock_rank :: "utc \<Rightarrow> nat" where
  "clock_rank t = (u_hour t * 100 + u_min t) * 100 + u_sec t"

definition utc_rank :: "utc \<Rightarrow> nat" where
  "utc_rank t = (date_rank t * 1000000 + clock_rank t) * 1000000000 + u_nanos t"

definition utc_before :: "utc \<Rightarrow> utc \<Rightarrow> bool" where
  "utc_before a b \<longleftrightarrow> utc_rank a < utc_rank b"

section \<open>Decimal numbers of fixed width\<close>

definition digit_char :: "nat \<Rightarrow> char" where
  "digit_char d = char_of (48 + d)"

fun pad :: "nat \<Rightarrow> nat \<Rightarrow> string" where
  "pad 0 n = []"
| "pad (Suc w) n = pad w (n div 10) @ [digit_char (n mod 10)]"

lemma length_pad [simp]: "length (pad w n) = w"
  by (induction w arbitrary: n) auto

lemma digit_of_char [simp]: "d < 10 \<Longrightarrow> digit_of (digit_char d) = Some d"
  by (simp add: digit_of_def digit_char_def Let_def)

lemma digits_value_append:
  "digits_value a (s @ [digit_char d]) = (if d < 10 then map_option (\<lambda>v. 10 * v + d) (digits_value a s)
     else digits_value a (s @ [digit_char d]))"
  by (induction s arbitrary: a) (auto split: option.splits)

lemma digits_value_pad: "n < 10 ^ w \<Longrightarrow> digits_value 0 (pad w n) = Some n"
proof (induction w arbitrary: n)
  case (Suc w)
  have "n div 10 < 10 ^ w" using Suc.prems by (simp add: less_mult_imp_div_less mult.commute)
  then show ?case using Suc.IH by (simp add: digits_value_append [of 0 _ "n mod 10"])
qed simp

lemma is_digit_pad: "list_all is_digit (pad w n)"
  by (induction w arbitrary: n) (auto simp: is_digit_def)

text \<open>Fixed-width numbers compare like strings.\<close>

lemma append_less_same_length:
  fixes a b :: "'a::order list"
  assumes "length a = length b" "a < b"
  shows "a @ x < b @ y"
  using assms
proof (induction a arbitrary: b)
  case (Cons c a)
  then obtain d b' where b: "b = d # b'" by (cases b) auto
  with Cons show ?case by auto
qed auto

lemma append_less_cancel:
  fixes a :: "'a::order list"
  shows "a @ x < a @ y \<longleftrightarrow> x < y"
  by (induction a) auto

lemma digit_char_less: "d < 10 \<Longrightarrow> e < 10 \<Longrightarrow> digit_char d < digit_char e \<longleftrightarrow> d < e"
  by (simp add: digit_char_def less_char_def)

lemma pad_less: "m < n \<Longrightarrow> n < 10 ^ w \<Longrightarrow> pad w m < pad w n"
proof (induction w arbitrary: m n)
  case (Suc w)
  have n: "n div 10 < 10 ^ w" using Suc.prems by (simp add: less_mult_imp_div_less mult.commute)
  show ?case
  proof (cases "m div 10 < n div 10")
    case True
    from Suc.IH [OF this n] show ?thesis by (simp add: append_less_same_length)
  next
    case False
    then have "m div 10 = n div 10" "m mod 10 < n mod 10"
      using Suc.prems(1) div_le_mono [of m n 10] mult_div_mod_eq [of 10 m] mult_div_mod_eq [of 10 n]
      by linarith+
    then show ?thesis by (simp add: append_less_cancel digit_char_less)
  qed
qed simp

lemma pad_append: "b < 10 ^ v \<Longrightarrow> pad w a @ pad v b = pad (w + v) (a * 10 ^ v + b)"
proof (induction v arbitrary: b)
  case (Suc v)
  have b: "b div 10 < 10 ^ v" using Suc.prems by (simp add: less_mult_imp_div_less mult.commute)
  have e: "a * 10 ^ Suc v + b = b + 10 * (a * 10 ^ v)" by simp
  have "(a * 10 ^ Suc v + b) div 10 = a * 10 ^ v + b div 10" "(a * 10 ^ Suc v + b) mod 10 = b mod 10"
    unfolding e by (subst div_mult_self2) simp_all
  with Suc.IH [OF b] show ?case by simp
qed simp

section \<open>Reading text from the left\<close>

definition strip_prefix :: "string \<Rightarrow> string \<Rightarrow> string option" where
  "strip_prefix p s = (if has_prefix s p then Some (drop (length p) s) else None)"

definition take_digits :: "nat \<Rightarrow> string \<Rightarrow> (string \<times> string) option" where
  "take_digits k s = (if k \<le> length s \<and> list_all is_digit (take k s)
     then Some (take k s, drop k s) else None)"

definition num :: "string \<Rightarrow> nat" where
  "num s = (case digits_value 0 s of None \<Rightarrow> 0 | Some n \<Rightarrow> n)"

lemma strip_prefix_append [simp]: "strip_prefix p (p @ s) = Some s"
  by (simp add: strip_prefix_def)

lemma take_digits_pad [simp]: "take_digits w (pad w n @ s) = Some (pad w n, s)"
  by (simp add: take_digits_def is_digit_pad)

lemma num_pad: "n < 10 ^ w \<Longrightarrow> num (pad w n) = n"
  by (simp add: num_def digits_value_pad)

lemma valid_date_bounds:
  assumes "valid_date t"
  shows "u_month t < 100" "u_day t < 100" "u_hour t < 100" "u_min t < 100" "u_sec t < 100"
  using assms by (auto simp: valid_date_def days_in_def split: if_splits)

section \<open>Paths\<close>

text \<open>\<open>filepath.Base\<close>, \<open>filepath.Ext\<close> and \<open>strings.TrimSuffix\<close>.\<close>

definition path_base :: "string \<Rightarrow> string" where
  "path_base s =
     (let r = dropWhile (\<lambda>c. c = CHR ''/'') (rev s)
      in if s = [] then ''.'' else if r = [] then ''/''
         else rev (takeWhile (\<lambda>c. c \<noteq> CHR ''/'') r))"

definition path_ext :: "string \<Rightarrow> string" where
  "path_ext s =
     (let r = rev s; e = takeWhile (\<lambda>c. c \<noteq> CHR ''/'' \<and> c \<noteq> CHR ''.'') r
      in if length e < length r \<and> r ! length e = CHR ''.'' then CHR ''.'' # rev e else [])"

definition trim_suffix :: "string \<Rightarrow> string \<Rightarrow> string" where
  "trim_suffix s p = (if has_suffix s p then take (length s - length p) s else s)"

section \<open>Calendar and nanoseconds\<close>

text \<open>Days and nanoseconds count from the beginning of year 1, Go's zero time.\<close>

definition year_days :: "nat \<Rightarrow> nat" where
  "year_days y = (if leap_year y then 366 else 365)"

fun days_before_year :: "nat \<Rightarrow> int" where
  "days_before_year 0 = - 366"
| "days_before_year (Suc p) = 365 * int p + int (p div 4) - int (p div 100) + int (p div 400)"

definition days_before_month :: "nat \<Rightarrow> nat \<Rightarrow> nat" where
  "days_before_month y m = sum_list (map (days_in y) [1..<m])"

definition time_of_utc :: "utc \<Rightarrow> time" where
  "time_of_utc t =
     (let days = days_before_year (u_year t) + int (days_before_month (u_year t) (u_month t)) + int (u_day t) - 1
      in (((days * 24 + int (u_hour t)) * 60 + int (u_min t)) * 60 + int (u_sec t)) * second + int (u_nanos t))"

lemma days_in_pos [simp]: "0 < days_in y m"
  by (simp add: days_in_def)

lemma year_days_pos [simp]: "0 < year_days y"
  by (simp add: year_days_def)

function find_year :: "nat \<Rightarrow> nat \<Rightarrow> nat \<times> nat" where
  "find_year y d = (if d < year_days y then (y, d) else find_year (y + 1) (d - year_days y))"
  by pat_completeness auto
termination
  by (relation "measure snd") (auto simp: year_days_def)

function find_month :: "nat \<Rightarrow> nat \<Rightarrow> nat \<Rightarrow> nat \<times> nat" where
  "find_month y m d = (if d < days_in y m then (m, d + 1) else find_month y (m + 1) (d - days_in y m))"
  by pat_completeness auto
termination
  by (relation "measure (\<lambda>(y, m, d). d)") (auto simp: days_in_def)

declare find_year.simps [simp del] find_month.simps [simp del]

text \<open>The fields of a time from year 1 on; whole cycles of 400 years are skipped first.\<close>

definition utc_of :: "time \<Rightarrow> utc" where
  "utc_of t =
     (let secs = nat (t div second); days = secs div 86400; s = secs mod 86400;
          (y, d) = find_year (400 * (days div 146097) + 1) (days mod 146097);
          (m, dd) = find_month y 1 d
      in \<lparr> u_year = y, u_month = m, u_day = dd, u_hour = s div 3600, u_min = s div 60 mod 60,
           u_sec = s mod 60, u_nanos = nat (t mod second) \<rparr>)"

lemma days_before_Suc:
  assumes "0 < y"
  shows "days_before_year (y + 1) = days_before_year y + int (year_days y)"
proof -
  obtain p where y: "y = Suc p" using assms by (cases y) auto
  have "100 dvd y" if "400 dvd y" using dvd_trans [of 100 400 y] that by simp
  moreover have "4 dvd y" if "100 dvd y" using dvd_trans [of 4 100 y] that by simp
  moreover have k: "int (Suc p div k) = int (p div k) + (if k dvd y then 1 else 0)" for k
    by (simp add: y div_Suc mod_eq_0_iff_dvd)
  moreover have "leap_year y \<longleftrightarrow> 4 dvd y \<and> (100 dvd y \<longrightarrow> 400 dvd y)"
    by (auto simp: leap_year_def mod_eq_0_iff_dvd)
  ultimately have "int (year_days y) = 365 + (if 4 dvd y then 1 else 0) - (if 100 dvd y then 1 else 0)
      + (if 400 dvd y then 1 else 0)"
    by (auto simp: year_days_def)
  then show ?thesis by (simp add: y k del: dvd_imp_mod_0)
qed

lemma days_before_cycle: "days_before_year (400 * k + 1) = int (146097 * k)"
proof -
  have "400 * k div 4 = 100 * k" "400 * k div 100 = 4 * k" "400 * k div 400 = k" by simp_all
  then show ?thesis by simp
qed

lemma find_year_days:
  "0 < y \<Longrightarrow> find_year y d = (y', r) \<Longrightarrow>
   days_before_year y + int d = days_before_year y' + int r \<and> r < year_days y' \<and> y \<le> y'"
proof (induction y d rule: find_year.induct)
  case (1 y d)
  show ?case
  proof (cases "d < year_days y")
    case True
    with 1(3) show ?thesis by (simp add: find_year.simps [of y d])
  next
    case False
    with 1(3) have "find_year (y + 1) (d - year_days y) = (y', r)" by (simp add: find_year.simps [of y d])
    from 1(1) [OF False _ this] have "days_before_year (y + 1) + int (d - year_days y) = days_before_year y' + int r
        \<and> r < year_days y' \<and> y + 1 \<le> y'" by simp
    then show ?thesis using False days_before_Suc [OF 1(2)] by (simp add: of_nat_diff)
  qed
qed

lemma days_before_month_Suc: "0 < m \<Longrightarrow> days_before_month y (m + 1) = days_before_month y m + days_in y m"
  by (simp add: days_before_month_def)

lemma find_month_days:
  "0 < m \<Longrightarrow> find_month y m d = (m', r) \<Longrightarrow>
   days_before_month y m + d + 1 = days_before_month y m' + r \<and> 1 \<le> r \<and> r \<le> days_in y m' \<and> m \<le> m'"
proof (induction y m d rule: find_month.induct)
  case (1 y m d)
  show ?case
  proof (cases "d < days_in y m")
    case True
    with 1(3) show ?thesis by (auto simp: find_month.simps [of y m d])
  next
    case False
    with 1(3) have "find_month y (m + 1) (d - days_in y m) = (m', r)" by (simp add: find_month.simps [of y m d])
    from 1(1) [OF False _ this] show ?thesis using False days_before_month_Suc [OF 1(2)] by simp
  qed
qed

lemma year_months: "days_before_month y 13 = year_days y"
proof -
  have "[1..<13] = [1, 2, 3, 4, 5, 6, 7, 8, 9, 10, 11, 12 :: nat]" by (simp add: upt_rec)
  then show ?thesis by (simp add: days_before_month_def days_in_def year_days_def)
qed

lemma days_before_month_mono: "1 \<le> m \<Longrightarrow> m \<le> n \<Longrightarrow> days_before_month y m \<le> days_before_month y n"
  by (induction n) (auto simp: days_before_month_def le_Suc_eq)

lemma find_month_le:
  assumes "find_month y 1 d = (m, r)" "d < year_days y"
  shows "m \<le> 12"
proof (rule ccontr)
  assume "\<not> m \<le> 12"
  then have "year_days y \<le> days_before_month y m" using days_before_month_mono [of 13 m y] year_months by simp
  moreover have "days_before_month y 1 + d + 1 = days_before_month y m + r" "1 \<le> r"
    using find_month_days [OF _ assms(1)] by simp_all
  ultimately show False using assms(2) by (simp add: days_before_month_def)
qed

lemma clock_fields:
  fixes s :: nat
  shows "((s div 3600) * 60 + s div 60 mod 60) * 60 + s mod 60 = s"
proof -
  have "s div 60 = (s div 3600) * 60 + s div 60 mod 60"
    using div_mult_mod_eq [of "s div 60" 60] by (simp add: div_mult2_eq [symmetric])
  then show ?thesis using div_mult_mod_eq [of s 60] by simp
qed

lemma clock_days:
  "((int k * 24 + int (s div 3600)) * 60 + int (s div 60 mod 60)) * 60 + int (s mod 60) = int (k * 86400 + s)"
proof -
  have "int (((s div 3600) * 60 + s div 60 mod 60) * 60 + s mod 60) = int s" by (simp only: clock_fields)
  then show ?thesis by simp
qed

lemma time_of_utc_of:
  assumes "0 \<le> t"
  shows "time_of_utc (utc_of t) = t \<and> valid_date (utc_of t) \<and> u_nanos (utc_of t) < 1000000000 \<and> 1 \<le> u_year (utc_of t)"
proof -
  let ?secs = "nat (t div second)"
  let ?days = "?secs div 86400" and ?s = "?secs mod 86400"
  let ?q = "?days div 146097" and ?r = "?days mod 146097"
  obtain y d where y: "find_year (400 * ?q + 1) ?r = (y, d)" by fastforce
  obtain m dd where m: "find_month y 1 d = (m, dd)" by fastforce
  have u: "utc_of t = \<lparr> u_year = y, u_month = m, u_day = dd, u_hour = ?s div 3600, u_min = ?s div 60 mod 60,
      u_sec = ?s mod 60, u_nanos = nat (t mod second) \<rparr>"
    by (simp only: utc_of_def Let_def y m prod.case)
  note fy = find_year_days [OF _ y] and fm = find_month_days [OF _ m]
  have "int (146097 * ?q) + int ?r = int ?days" by (simp only: of_nat_add [symmetric] mult_div_mod_eq)
  then have y1: "days_before_year y + int d = int ?days" "d < year_days y" "1 \<le> y"
    using fy unfolding days_before_cycle by auto
  have m1: "d + 1 = days_before_month y m + dd" "1 \<le> dd" "dd \<le> days_in y m" "1 \<le> m"
    using fm by (auto simp: days_before_month_def)
  have m12: "m \<le> 12" using find_month_le [OF m y1(2)] .
  have v: "valid_date (utc_of t)" unfolding u valid_date_def using m1 m12
    by (simp add: less_mult_imp_div_less)
  have days: "days_before_year y + int (days_before_month y m) + int dd - 1 = int ?days"
    using y1(1) m1(1) by simp
  have "?days * 86400 + ?s = ?secs" by (rule div_mult_mod_eq)
  then have "time_of_utc (utc_of t) = int ?secs * second + int (nat (t mod second))"
    unfolding time_of_utc_def u Let_def by (simp only: utc.simps days clock_days)
  moreover have "0 \<le> t div second" using assms by (simp add: pos_imp_zdiv_nonneg_iff)
  ultimately have "time_of_utc (utc_of t) = t" by simp
  moreover have "nat (t mod second) < 1000000000" using pos_mod_bound [of second t] by (simp only: nat_less_iff)
  then have "u_nanos (utc_of t) < 1000000000" unfolding u by (simp only: utc.simps)
  moreover have "1 \<le> u_year (utc_of t)" unfolding u using y1(3) by (simp only: utc.simps)
  ultimately show ?thesis using v by blast
qed

end
