(* ===== verification/Queue_Names.thy ===== *)
theory Queue_Names
  imports Go_Time "HOL-Library.Monad_Syntax"
begin

text \<open>
  Package \<open>filequeue\<close>: the names of queue item files. A name carries the priority, the time
  the item was queued and the id of the dag-run; \<open>queueFileName\<close> writes it and
  \<open>parseQueueFileName\<close> reads it back. \<close>

section \<open>Writing and reading file names\<close>

record dag_run_ref =
  dr_Name :: string
  dr_ID :: string

record item_data =
  it_FileName :: string
  it_DAGRun :: dag_run_ref
  it_QueuedAt :: utc

definition itemPrefix :: string where
  "itemPrefix = ''item_''"

definition queueFileName :: "string \<Rightarrow> string \<Rightarrow> utc \<Rightarrow> string" where
  "queueFileName priority dagRunID t =
     (let timestamp = pad 4 (u_year t) @ pad 2 (u_month t) @ pad 2 (u_day t) @ ''_''
            @ pad 2 (u_hour t) @ pad 2 (u_min t) @ pad 2 (u_sec t)
            @ ''_'' @ pad 9 (u_nanos t) @ ''Z''
      in itemPrefix @ priority @ timestamp @ ''_'' @ dagRunID @ ''.json'')"

text \<open>
  The regular expression that both \<open>QueueFile.match\<close> and \<open>parseRegex\<close> are made from: priority,
  date, time, nanoseconds and id. The dot of the id matches every character but a newline.
\<close>

definition strip_priority :: "string \<Rightarrow> (string \<times> string) option" where
  "strip_priority s =
     (case strip_prefix ''high_'' s of
        Some r \<Rightarrow> Some (''high_'', r)
      | None \<Rightarrow> map_option (Pair ''low_'') (strip_prefix ''low_'' s))"

definition match_item :: "string \<Rightarrow> (string \<times> string \<times> string \<times> string \<times> string) option" where
  "match_item s = do {
     r0 \<leftarrow> strip_prefix itemPrefix s;
     (priority, r1) \<leftarrow> strip_priority r0;
     (date, r2) \<leftarrow> take_digits 8 r1;
     r3 \<leftarrow> strip_prefix ''_'' r2;
     (clock, r4) \<leftarrow> take_digits 6 r3;
     r5 \<leftarrow> strip_prefix ''_'' r4;
     (nanos, r6) \<leftarrow> take_digits 9 r5;
     r7 \<leftarrow> strip_prefix ''Z_'' r6;
     let ident = take (length r7 - 5) r7 in
     if has_suffix r7 ''.json'' \<and> CHR 0x0A \<notin> set ident
     then Some (priority, date, clock, nanos, ident) else None
   }"

definition queue_match :: "string \<Rightarrow> string \<Rightarrow> bool" where
  "queue_match prefix s = (case match_item s of None \<Rightarrow> False | Some (p, _) \<Rightarrow> p = prefix)"

text \<open>\<open>time.Parse\<close> with the layout \<open>20060102_150405\<close>, on digits that already have that shape.\<close>

definition time_parse :: "string \<Rightarrow> string \<Rightarrow> utc option" where
  "time_parse date clock =
     (let t = \<lparr> u_year = num (take 4 date), u_month = num (take 2 (drop 4 date)),
            u_day = num (drop 6 date), u_hour = num (take 2 clock),
            u_min = num (take 2 (drop 2 clock)), u_sec = num (drop 4 clock), u_nanos = 0 \<rparr>
      in if valid_date t then Some t else None)"

datatype name_error = BadFormat | BadTimestamp

text \<open>\<open>dir\<close> is the base name of the directory of the file.\<close>

definition parseQueueFileName :: "string \<Rightarrow> string \<Rightarrow> name_error + item_data" where
  "parseQueueFileName dir fileName =
     (case match_item fileName of
        None \<Rightarrow> Inl BadFormat
      | Some (priority, date, clock, nanos, ident) \<Rightarrow>
          (case time_parse date clock of
             None \<Rightarrow> Inl BadTimestamp
           | Some t \<Rightarrow> Inr \<lparr> it_FileName = fileName, it_DAGRun = \<lparr> dr_Name = dir, dr_ID = ident \<rparr>,
               it_QueuedAt = t\<lparr>u_nanos := num nanos\<rparr> \<rparr>))"

section \<open>Identifiers of items\<close>

definition queueItemIDFromFileName :: "string \<Rightarrow> string" where
  "queueItemIDFromFileName fileName =
     (let b = path_base fileName in trim_suffix b (path_ext b))"

definition isHighQueueFileName :: "string \<Rightarrow> bool" where
  "isHighQueueFileName s \<longleftrightarrow> has_prefix s ''item_high_'' \<and> has_suffix s ''.json''"

definition isLowQueueFileName :: "string \<Rightarrow> bool" where
  "isLowQueueFileName s \<longleftrightarrow> has_prefix s ''item_low_'' \<and> has_suffix s ''.json''"

section \<open>Lemmas\<close>

definition date_string :: "utc \<Rightarrow> string" where
  "date_string t = pad 4 (u_year t) @ pad 2 (u_month t) @ pad 2 (u_day t)"

definition clock_string :: "utc \<Rightarrow> string" where
  "clock_string t = pad 2 (u_hour t) @ pad 2 (u_min t) @ pad 2 (u_sec t)"

lemma date_string_pad: "valid_date t \<Longrightarrow> date_string t = pad 8 (date_rank t)"
  using valid_date_bounds [of t]
    pad_append [of "u_month t" 2 4 "u_year t"] pad_append [of "u_day t" 2 6 "u_year t * 100 + u_month t"]
  by (simp add: date_string_def date_rank_def flip: append_assoc)

lemma clock_string_pad: "valid_date t \<Longrightarrow> clock_string t = pad 6 (clock_rank t)"
  using valid_date_bounds [of t]
    pad_append [of "u_min t" 2 2 "u_hour t"] pad_append [of "u_sec t" 2 4 "u_hour t * 100 + u_min t"]
  by (simp add: clock_string_def clock_rank_def flip: append_assoc)

lemma time_parse_string:
  assumes "valid_date t" "u_year t < 10000"
  shows "time_parse (date_string t) (clock_string t) = Some (t\<lparr>u_nanos := 0\<rparr>)"
  using assms valid_date_bounds [OF assms(1)]
  by (simp add: time_parse_def date_string_def clock_string_def num_pad valid_date_def Let_def)

lemma queueFileName_shape:
  "queueFileName pr ident t = itemPrefix @ pr @ date_string t @ ''_'' @ clock_string t @ ''_''
     @ pad 9 (u_nanos t) @ ''Z_'' @ ident @ ''.json''"
  by (simp add: queueFileName_def date_string_def clock_string_def Let_def)

lemma strip_priority_simps [simp]:
  "strip_priority (''high_'' @ s) = Some (''high_'', s)"
  "strip_priority (''low_'' @ s) = Some (''low_'', s)"
  by (simp_all add: strip_priority_def strip_prefix_def has_prefix_def)

lemma match_item_queueFileName:
  assumes "pr = ''high_'' \<or> pr = ''low_''" "valid_utc t" "CHR 0x0A \<notin> set ident"
  shows "match_item (queueFileName pr ident t) =
    Some (pr, date_string t, clock_string t, pad 9 (u_nanos t), ident)"
proof -
  have v: "valid_date t" using assms(2) by (simp add: valid_utc_def)
  have d: "take_digits 8 (date_string t @ s) = Some (date_string t, s)"
    and c: "take_digits 6 (clock_string t @ s) = Some (clock_string t, s)" for s
    by (simp_all add: date_string_pad [OF v] clock_string_pad [OF v])
  have j: "has_suffix (ident @ ''.json'') ''.json''" by (rule has_suffix_append)
  show ?thesis
    using assms(1,3) j
    by (auto simp: match_item_def queueFileName_shape d c simp del: append.simps)
qed

lemma date_rank_bound: "valid_utc t \<Longrightarrow> date_rank t < 10 ^ 8"
  using valid_date_bounds [of t] by (simp add: valid_utc_def date_rank_def)

lemma clock_rank_bound: "valid_date t \<Longrightarrow> clock_rank t < 10 ^ 6"
  by (simp add: valid_date_def clock_rank_def)

lemma radix_less:
  fixes x y r q b :: nat
  assumes "x * b + r < y * b + q" "q < b"
  shows "x < y \<or> x = y \<and> r < q"
proof (rule ccontr)
  assume n: "\<not> ?thesis"
  then have "y < x" using assms(1) by (cases "x = y") auto
  then have "Suc y * b \<le> x * b" by (intro mult_le_mono1) simp
  with assms show False by simp
qed

lemma utc_before_cases:
  assumes "valid_utc a" "valid_utc b" "utc_before a b"
  obtains "date_rank a < date_rank b"
  | "date_rank a = date_rank b" "clock_rank a < clock_rank b"
  | "date_rank a = date_rank b" "clock_rank a = clock_rank b" "u_nanos a < u_nanos b"
proof -
  have "clock_rank a < 1000000" "clock_rank b < 1000000" "u_nanos a < 1000000000" "u_nanos b < 1000000000"
    using assms(1,2) clock_rank_bound by (auto simp: valid_utc_def)
  then have "date_rank a < date_rank b \<or> date_rank a = date_rank b \<and> clock_rank a < clock_rank b
      \<or> date_rank a = date_rank b \<and> clock_rank a = clock_rank b \<and> u_nanos a < u_nanos b"
    using assms(3) radix_less [of "date_rank a * 1000000 + clock_rank a" 1000000000 "u_nanos a"]
      radix_less [of "date_rank a" 1000000 "clock_rank a" "date_rank b" "clock_rank b"]
    unfolding utc_before_def utc_rank_def by fastforce
  with that show thesis by blast
qed

lemma queueFileName_less:
  assumes "valid_utc a" "valid_utc b" "utc_before a b"
  shows "queueFileName pr i a < queueFileName pr j b"
proof -
  have v: "valid_date a" "valid_date b" and n: "u_nanos b < 10 ^ 9"
    using assms(1,2) by (simp_all add: valid_utc_def)
  have db: "date_rank b < 10 ^ 8" and cb: "clock_rank b < 10 ^ 6"
    using date_rank_bound [OF assms(2)] clock_rank_bound [OF v(2)] by auto
  have less: "pad w m @ x < pad w k @ y" if "m < k" "k < 10 ^ w" for w m k x y
    using pad_less [OF that] by (intro append_less_same_length) simp_all
  let ?rest = "\<lambda>t k. pad 8 (date_rank t) @ ''_'' @ pad 6 (clock_rank t) @ ''_'' @ pad 9 (u_nanos t)
      @ ''Z_'' @ k @ ''.json''"
  have "?rest a i < ?rest b j"
  proof (cases rule: utc_before_cases [OF assms, case_names date clock nanos])
    case date
    then show ?thesis by (rule less [OF _ db])
  next
    case clock
    show ?thesis unfolding clock(1) append_less_cancel by (rule less [OF clock(2) cb])
  next
    case nanos
    show ?thesis unfolding nanos(1,2) append_less_cancel by (rule less [OF nanos(3) n])
  qed
  then show ?thesis
    by (simp only: queueFileName_shape append_less_cancel date_string_pad [OF v(1)]
        date_string_pad [OF v(2)] clock_string_pad [OF v(1)] clock_string_pad [OF v(2)])
qed

lemma queueFileName_chars: "CHR ''/'' \<notin> set ident \<Longrightarrow> CHR ''/'' \<notin> set pr \<Longrightarrow> CHR ''/'' \<notin> set (queueFileName pr ident t)"
proof -
  have p: "CHR ''/'' \<notin> set (pad w n)" for w n
  proof
    assume "CHR ''/'' \<in> set (pad w n)"
    then have "is_digit (CHR ''/'')" using is_digit_pad [of w n] by (simp add: list_all_iff)
    then show False by (simp add: is_digit_def digit_of_def)
  qed
  assume "CHR ''/'' \<notin> set ident" "CHR ''/'' \<notin> set pr"
  then show ?thesis by (simp add: queueFileName_def itemPrefix_def p Let_def)
qed

lemma path_base_plain: "s \<noteq> [] \<Longrightarrow> CHR ''/'' \<notin> set s \<Longrightarrow> path_base s = s"
proof -
  assume s: "s \<noteq> []" "CHR ''/'' \<notin> set s"
  then have "dropWhile (\<lambda>c. c = CHR ''/'') (rev s) = rev s"
    by (cases s rule: rev_cases) auto
  moreover have "takeWhile (\<lambda>c. c \<noteq> CHR ''/'') (rev s) = rev s" using s(2) by auto
  ultimately show ?thesis using s(1) by (simp add: path_base_def Let_def del: takeWhile_eq_all_conv)
qed

lemma queueItemID_json:
  assumes "CHR ''/'' \<notin> set s"
  shows "queueItemIDFromFileName (s @ ''.json'') = s"
proof -
  have "path_base (s @ ''.json'') = s @ ''.json''" using assms by (intro path_base_plain) auto
  moreover have "path_ext (s @ ''.json'') = ''.json''"
    by (simp add: path_ext_def Let_def)
  moreover have "trim_suffix (s @ ''.json'') ''.json'' = s"
    unfolding trim_suffix_def by (simp only: has_suffix_append if_True) simp
  ultimately show ?thesis by (simp add: queueItemIDFromFileName_def)
qed

definition sample_utc :: utc where
  "sample_utc = \<lparr> u_year = 2026, u_month = 2, u_day = 28, u_hour = 23, u_min = 59, u_sec = 7,
     u_nanos = 42 \<rparr>"

section \<open>Properties\<close>

text \<open>
  C25: file names round trip. The name that \<open>queueFileName\<close> gives an item matches the pattern of
  its own queue file and of no other, and parsing it gives back the dag-run id, which may
  contain dots, underscores or even \<open>.json\<close>, and the time to the nanosecond.
\<close>

theorem queueFileName_roundtrip:
  assumes "pr = ''high_'' \<or> pr = ''low_''" "valid_utc t" "CHR 0x0A \<notin> set ident"
  shows "(queue_match q (queueFileName pr ident t) \<longleftrightarrow> q = pr)
    \<and> parseQueueFileName dir (queueFileName pr ident t) =
      Inr \<lparr> it_FileName = queueFileName pr ident t,
            it_DAGRun = \<lparr> dr_Name = dir, dr_ID = ident \<rparr>, it_QueuedAt = t \<rparr>"
proof -
  note m = match_item_queueFileName [OF assms]
  have v: "valid_date t" "u_year t < 10000" "u_nanos t < 10 ^ 9"
    using assms(2) by (simp_all add: valid_utc_def)
  show ?thesis
    by (auto simp: queue_match_def parseQueueFileName_def m time_parse_string [OF v(1,2)] num_pad [OF v(3)])
qed

theorem queueFileName_roundtrip_witness:
  "queueFileName ''low_'' ''run.json'' sample_utc = ''item_low_20260228_235907_000000042Z_run.json.json''
   \<and> (\<exists>it. parseQueueFileName ''q'' (queueFileName ''low_'' ''run.json'' sample_utc) = Inr it
        \<and> dr_ID (it_DAGRun it) = ''run.json'' \<and> it_QueuedAt it = sample_utc)"
proof
  show "queueFileName ''low_'' ''run.json'' sample_utc = ''item_low_20260228_235907_000000042Z_run.json.json''"
    by code_simp
  have "valid_utc sample_utc"
    by (simp add: valid_utc_def valid_date_def days_in_def leap_year_def sample_utc_def)
  from queueFileName_roundtrip [OF _ this, of "''low_''" "''run.json''" "''low_''" "''q''"]
  have "parseQueueFileName ''q'' (queueFileName ''low_'' ''run.json'' sample_utc) =
      Inr \<lparr> it_FileName = queueFileName ''low_'' ''run.json'' sample_utc,
            it_DAGRun = \<lparr> dr_Name = ''q'', dr_ID = ''run.json'' \<rparr>, it_QueuedAt = sample_utc \<rparr>" by simp
  then show "\<exists>it. parseQueueFileName ''q'' (queueFileName ''low_'' ''run.json'' sample_utc) = Inr it
      \<and> dr_ID (it_DAGRun it) = ''run.json'' \<and> it_QueuedAt it = sample_utc"
    by simp
qed

end
