(* ===== verification/Queue_Index.thy ===== *)
theory Queue_Index
  imports Queue_Names
begin

text \<open>
  Package \<open>filequeue\<close>, file \<open>index.go\<close>: the read index of a queue, which lists the file names
  of its items by priority, and the cursors with which clients page through it
  (\<open>Store.ListCursor\<close>). The clock reading \<open>now\<close> and the serialisation of cursors are arguments.
\<close>

section \<open>The index\<close>

record queue_index =
  qi_Version :: int
  qi_Revision :: int
  qi_High :: "string list"
  qi_Low :: "string list"

definition queueIndexVersion :: int where
  "queueIndexVersion = 1"

definition QueuePriorityHigh :: int where
  "QueuePriorityHigh = 0"

definition QueuePriorityLow :: int where
  "QueuePriorityLow = 1"

definition newQueueReadIndex :: "int \<Rightarrow> queue_index" where
  "newQueueReadIndex now =
     \<lparr> qi_Version = queueIndexVersion, qi_Revision = now, qi_High = [], qi_Low = [] \<rparr>"

definition ensureDefaults :: "int \<Rightarrow> queue_index \<Rightarrow> queue_index" where
  "ensureDefaults now idx =
     idx\<lparr>qi_Version := (if qi_Version idx = 0 then queueIndexVersion else qi_Version idx),
         qi_Revision := (if qi_Revision idx = 0 then now else qi_Revision idx)\<rparr>"

definition index_total :: "queue_index \<Rightarrow> int" where
  "index_total idx = int (length (qi_High idx)) + int (length (qi_Low idx))"

definition index_touch :: "int \<Rightarrow> queue_index \<Rightarrow> queue_index" where
  "index_touch now idx =
     idx\<lparr>qi_Revision := (if now \<le> qi_Revision idx then qi_Revision idx + 1 else now)\<rparr>"

definition index_append :: "int \<Rightarrow> int \<Rightarrow> string \<Rightarrow> queue_index \<Rightarrow> queue_index" where
  "index_append now priority fileName idx =
     index_touch now
       (if priority = QueuePriorityHigh then idx\<lparr>qi_High := qi_High idx @ [fileName]\<rparr>
        else if priority = QueuePriorityLow then idx\<lparr>qi_Low := qi_Low idx @ [fileName]\<rparr>
        else idx)"

fun removeQueueFileNameByID :: "string \<Rightarrow> string list \<Rightarrow> bool \<times> string list" where
  "removeQueueFileNameByID itemID [] = (False, [])"
| "removeQueueFileNameByID itemID (f # fs) =
     (if queueItemIDFromFileName f = itemID then (True, fs)
      else case removeQueueFileNameByID itemID fs of (b, fs') \<Rightarrow> (b, f # fs'))"

definition removeItemID :: "int \<Rightarrow> string \<Rightarrow> queue_index \<Rightarrow> bool \<times> queue_index" where
  "removeItemID now itemID idx =
     (if itemID = [] then (False, idx)
      else case removeQueueFileNameByID itemID (qi_High idx) of
        (rh, high) \<Rightarrow>
          (case removeQueueFileNameByID itemID (qi_Low idx) of
             (rl, low) \<Rightarrow>
               (let idx' = idx\<lparr>qi_High := high, qi_Low := low\<rparr>
                in if rh \<or> rl then (True, index_touch now idx') else (False, idx'))))"

definition itemFileNameAt :: "int \<Rightarrow> queue_index \<Rightarrow> string option" where
  "itemFileNameAt offset idx =
     (if offset < 0 then None
      else if offset < int (length (qi_High idx)) then Some (qi_High idx ! nat offset)
      else let o2 = offset - int (length (qi_High idx)) in
        if o2 < int (length (qi_Low idx)) then Some (qi_Low idx ! nat o2) else None)"

fun find_pos :: "string \<Rightarrow> int \<Rightarrow> string list \<Rightarrow> int option" where
  "find_pos itemID pos [] = None"
| "find_pos itemID pos (f # fs) =
     (if queueItemIDFromFileName f = itemID then Some pos else find_pos itemID (pos + 1) fs)"

definition findItemOffset :: "string \<Rightarrow> queue_index \<Rightarrow> int" where
  "findItemOffset itemID idx =
     (case find_pos itemID 0 (qi_High idx) of
        Some pos \<Rightarrow> pos
      | None \<Rightarrow>
          (case find_pos itemID 0 (qi_Low idx) of
             Some pos \<Rightarrow> int (length (qi_High idx)) + pos
           | None \<Rightarrow> - 1))"

section \<open>Cursors and pages\<close>

record read_cursor =
  rc_Version :: int
  rc_Queue :: string
  rc_Revision :: int
  rc_Offset :: int
  rc_AfterItemID :: string

definition ErrInvalidCursor :: go_error where
  "ErrInvalidCursor = Sentinel ''invalid cursor''"

definition resolveStart :: "read_cursor \<Rightarrow> queue_index \<Rightarrow> go_error + int" where
  "resolveStart c idx =
     (if rc_Offset c < 0 then Inl ErrInvalidCursor
      else if rc_AfterItemID c = []
      then (if rc_Offset c \<noteq> 0 then Inl ErrInvalidCursor else Inr 0)
      else if 0 < rc_Offset c
        \<and> (case itemFileNameAt (rc_Offset c - 1) idx of
             None \<Rightarrow> False
           | Some f \<Rightarrow> queueItemIDFromFileName f = rc_AfterItemID c)
      then Inr (rc_Offset c)
      else let off = findItemOffset (rc_AfterItemID c) idx in
        if 0 \<le> off then Inr (off + 1) else Inl ErrInvalidCursor)"

text \<open>The loop of \<open>slice\<close>: \<open>k\<close> positions from \<open>pos\<close> on.\<close>

fun slice_from :: "nat \<Rightarrow> int \<Rightarrow> queue_index \<Rightarrow> string list" where
  "slice_from 0 pos idx = []"
| "slice_from (Suc k) pos idx =
     (case itemFileNameAt pos idx of None \<Rightarrow> [] | Some f \<Rightarrow> f # slice_from k (pos + 1) idx)"

definition index_slice :: "int \<Rightarrow> int \<Rightarrow> queue_index \<Rightarrow> string list" where
  "index_slice start limit idx =
     (let start' = (if start < 0 then 0 else start) in
      if limit \<le> 0 \<or> index_total idx \<le> start' then []
      else let end' = min (start' + limit) (index_total idx)
        in slice_from (nat (end' - start')) start' idx)"

definition encodeQueueReadCursor ::
  "(read_cursor \<Rightarrow> string) \<Rightarrow> string \<Rightarrow> queue_index \<Rightarrow> int \<Rightarrow> string \<Rightarrow> string" where
  "encodeQueueReadCursor enc name idx offset fileName =
     (if fileName = [] then []
      else enc \<lparr> rc_Version = queueIndexVersion, rc_Queue = name, rc_Revision = qi_Revision idx,
        rc_Offset = offset, rc_AfterItemID = queueItemIDFromFileName fileName \<rparr>)"

definition decodeQueueReadCursor ::
  "(string \<Rightarrow> go_error + read_cursor) \<Rightarrow> string \<Rightarrow> string \<Rightarrow> go_error + read_cursor" where
  "decodeQueueReadCursor dec name raw =
     (if raw = []
      then Inr \<lparr> rc_Version = queueIndexVersion, rc_Queue = name, rc_Revision = 0, rc_Offset = 0,
        rc_AfterItemID = [] \<rparr>
      else case dec raw of
        Inl e \<Rightarrow> Inl e
      | Inr c \<Rightarrow> if rc_Version c \<noteq> queueIndexVersion \<or> rc_Queue c \<noteq> name
          then Inl ErrInvalidCursor else Inr c)"

record page =
  pg_Items :: "string list"
  pg_HasMore :: bool
  pg_NextCursor :: string

text \<open>\<open>ListCursor\<close> on the index that it has loaded.\<close>

definition list_page ::
  "(read_cursor \<Rightarrow> string) \<Rightarrow> (string \<Rightarrow> go_error + read_cursor) \<Rightarrow> string \<Rightarrow> queue_index \<Rightarrow>
   string \<Rightarrow> int \<Rightarrow> go_error + page" where
  "list_page enc dec name idx cursor limit0 =
     (let limit = (if limit0 \<le> 0 then 1 else limit0) in
      case decodeQueueReadCursor dec name cursor of
        Inl e \<Rightarrow> Inl e
      | Inr decoded \<Rightarrow>
          (case resolveStart decoded idx of
             Inl e \<Rightarrow> Inl e
           | Inr start \<Rightarrow>
               (let files = index_slice start limit idx;
                    hasMore = start + int (length files) < index_total idx
                in Inr \<lparr> pg_Items = files, pg_HasMore = hasMore,
                     pg_NextCursor = (if hasMore \<and> files \<noteq> []
                       then encodeQueueReadCursor enc name idx (start + int (length files)) (last files)
                       else []) \<rparr>)))"

text \<open>A client that follows the cursors to the end, with at most \<open>k\<close> requests.\<close>

fun walk_pages ::
  "nat \<Rightarrow> (read_cursor \<Rightarrow> string) \<Rightarrow> (string \<Rightarrow> go_error + read_cursor) \<Rightarrow> string \<Rightarrow> queue_index \<Rightarrow>
   string \<Rightarrow> int \<Rightarrow> string list option" where
  "walk_pages 0 enc dec name idx cursor limit = None"
| "walk_pages (Suc k) enc dec name idx cursor limit =
     (case list_page enc dec name idx cursor limit of
        Inl e \<Rightarrow> None
      | Inr pg \<Rightarrow>
          if pg_HasMore pg
          then map_option ((@) (pg_Items pg)) (walk_pages k enc dec name idx (pg_NextCursor pg) limit)
          else Some (pg_Items pg))"

section \<open>The index as one list\<close>

definition index_names :: "queue_index \<Rightarrow> string list" where
  "index_names idx = qi_High idx @ qi_Low idx"

abbreviation item_ids :: "string list \<Rightarrow> string list" where
  "item_ids fs \<equiv> map queueItemIDFromFileName fs"

lemma index_total_names: "index_total idx = int (length (index_names idx))"
  by (simp add: index_total_def index_names_def)

lemma itemFileNameAt_names:
  "itemFileNameAt i idx =
     (if 0 \<le> i \<and> i < int (length (index_names idx)) then Some (index_names idx ! nat i) else None)"
proof (cases "0 \<le> i \<and> i < int (length (qi_High idx))")
  case True
  then show ?thesis by (auto simp: itemFileNameAt_def index_names_def nth_append)
next
  case False
  then show ?thesis
    by (auto simp: itemFileNameAt_def index_names_def nth_append Let_def nat_diff_distrib)
qed

lemma find_pos_None: "find_pos x p fs = None \<longleftrightarrow> x \<notin> set (item_ids fs)"
  by (induction fs arbitrary: p) auto

lemma find_pos_nth:
  "distinct (item_ids fs) \<Longrightarrow> i < length fs \<Longrightarrow> find_pos (queueItemIDFromFileName (fs ! i)) p fs = Some (p + int i)"
proof (induction fs arbitrary: p i)
  case (Cons f fs)
  then show ?case by (cases i) (auto simp: nth_mem)
qed simp

lemma findItemOffset_nth:
  assumes "distinct (item_ids (index_names idx))" "i < length (index_names idx)"
  shows "findItemOffset (queueItemIDFromFileName (index_names idx ! i)) idx = int i"
proof (cases "i < length (qi_High idx)")
  case True
  then show ?thesis using assms find_pos_nth [of "qi_High idx" i 0]
    by (simp add: findItemOffset_def index_names_def nth_append)
next
  case False
  let ?j = "i - length (qi_High idx)"
  have j: "?j < length (qi_Low idx)" "index_names idx ! i = qi_Low idx ! ?j"
    using assms(2) False by (auto simp: index_names_def nth_append)
  then have "queueItemIDFromFileName (index_names idx ! i) \<in> set (item_ids (qi_Low idx))" by simp
  then have "find_pos (queueItemIDFromFileName (index_names idx ! i)) 0 (qi_High idx) = None"
    using assms(1) unfolding find_pos_None by (auto simp: index_names_def)
  then show ?thesis using assms(1) j False find_pos_nth [of "qi_Low idx" ?j 0]
    by (simp add: findItemOffset_def index_names_def)
qed

lemma findItemOffset_absent:
  "x \<notin> set (item_ids (index_names idx)) \<Longrightarrow> findItemOffset x idx = - 1"
  using find_pos_None [of x 0 "qi_High idx"] find_pos_None [of x 0 "qi_Low idx"]
  by (auto simp: findItemOffset_def index_names_def split: option.splits)

lemma slice_from_names:
  "0 \<le> pos \<Longrightarrow> nat pos + k \<le> length (index_names idx) \<Longrightarrow>
   slice_from k pos idx = take k (drop (nat pos) (index_names idx))"
proof (induction k arbitrary: pos)
  case (Suc k)
  then have p: "nat pos < length (index_names idx)" by simp
  have s: "nat (pos + 1) = Suc (nat pos)" using Suc.prems(1) by simp
  show ?case using Suc.IH [of "pos + 1"] Suc.prems p
    by (simp add: itemFileNameAt_names Cons_nth_drop_Suc [OF p, symmetric] s)
qed simp

lemma index_slice_names:
  assumes "0 \<le> start" "0 < limit"
  shows "index_slice start limit idx = take (nat limit) (drop (nat start) (index_names idx))"
proof (cases "start < index_total idx")
  case True
  let ?n = "length (index_names idx)"
  have n: "nat start < ?n" using True assms(1) by (simp add: index_total_names)
  let ?k = "nat (min (start + limit) (int ?n) - start)"
  have k: "?k = min (nat limit) (?n - nat start)" using True assms by (simp add: index_total_names)
  have "slice_from ?k start idx = take ?k (drop (nat start) (index_names idx))"
    using assms(1) n k by (intro slice_from_names) linarith+
  also have "\<dots> = take (nat limit) (drop (nat start) (index_names idx))"
    unfolding k by (simp add: min_def)
  finally show ?thesis using True assms by (simp add: index_slice_def index_total_names Let_def)
next
  case False
  then show ?thesis using assms by (simp add: index_slice_def index_total_names Let_def)
qed

lemma resolveStart_after:
  assumes "distinct (item_ids (index_names idx))" "i < length (index_names idx)" "0 \<le> rc_Offset c"
    and "rc_AfterItemID c = queueItemIDFromFileName (index_names idx ! i)" "rc_AfterItemID c \<noteq> []"
  shows "resolveStart c idx = Inr (int i + 1)"
proof (cases "0 < rc_Offset c \<and> (case itemFileNameAt (rc_Offset c - 1) idx of
             None \<Rightarrow> False | Some f \<Rightarrow> queueItemIDFromFileName f = rc_AfterItemID c)")
  case True
  then have o: "rc_Offset c - 1 < int (length (index_names idx))"
    and id: "queueItemIDFromFileName (index_names idx ! nat (rc_Offset c - 1)) = rc_AfterItemID c"
    by (auto simp: itemFileNameAt_names split: if_splits)
  have "nat (rc_Offset c - 1) = i"
    using distinct_map_nth_eq [OF assms(1), of "nat (rc_Offset c - 1)" i] o id assms(2,4) True by simp
  then have "rc_Offset c = int i + 1" using True by linarith
  with True assms(3,5) show ?thesis by (auto simp: resolveStart_def)
next
  case False
  then show ?thesis using assms findItemOffset_nth [OF assms(1,2)]
    by (auto simp: resolveStart_def Let_def)
qed

lemma resolveStart_gone:
  assumes "rc_AfterItemID c \<notin> set (item_ids (index_names idx))" "rc_AfterItemID c \<noteq> []"
  shows "resolveStart c idx = Inl ErrInvalidCursor"
proof -
  have "\<not> (case itemFileNameAt k idx of
             None \<Rightarrow> False | Some f \<Rightarrow> queueItemIDFromFileName f = rc_AfterItemID c)" for k
  proof (cases "0 \<le> k \<and> k < int (length (index_names idx))")
    case True
    then have "queueItemIDFromFileName (index_names idx ! nat k) \<in> set (item_ids (index_names idx))"
      by (auto intro!: imageI nth_mem)
    with True assms(1) show ?thesis by (auto simp: itemFileNameAt_names)
  qed (auto simp: itemFileNameAt_names)
  with assms findItemOffset_absent [OF assms(1)] show ?thesis by (simp add: resolveStart_def)
qed

text \<open>What the serialisation of cursors must provide.\<close>

definition cursor_codec :: "(read_cursor \<Rightarrow> string) \<Rightarrow> (string \<Rightarrow> go_error + read_cursor) \<Rightarrow> bool" where
  "cursor_codec enc dec \<longleftrightarrow> (\<forall>c. enc c \<noteq> [] \<and> dec (enc c) = Inr c)"

definition plain_index :: "queue_index \<Rightarrow> bool" where
  "plain_index idx \<longleftrightarrow> distinct (item_ids (index_names idx))
     \<and> (\<forall>f \<in> set (index_names idx). f \<noteq> [] \<and> queueItemIDFromFileName f \<noteq> [])"

text \<open>A cursor stands at a position if decoding and resolving it leads there.\<close>

definition cursor_at :: "(string \<Rightarrow> go_error + read_cursor) \<Rightarrow> string \<Rightarrow> queue_index \<Rightarrow> string \<Rightarrow> nat \<Rightarrow> bool" where
  "cursor_at dec name idx raw n \<longleftrightarrow>
     (\<exists>c. decodeQueueReadCursor dec name raw = Inr c \<and> resolveStart c idx = Inr (int n))"

lemma cursor_at_start: "cursor_at dec name idx [] 0"
  by (simp add: cursor_at_def decodeQueueReadCursor_def resolveStart_def)

lemma cursor_at_next:
  assumes "cursor_codec enc dec" "plain_index idx" "0 < n" "n \<le> length (index_names idx)"
    and "0 \<le> off"
  shows "cursor_at dec name idx
    (encodeQueueReadCursor enc name idx' off (index_names idx ! (n - 1))) n"
proof -
  let ?f = "index_names idx ! (n - 1)"
  have f: "?f \<in> set (index_names idx)" "n - 1 < length (index_names idx)" using assms(3,4) by auto
  then have ne: "?f \<noteq> []" "queueItemIDFromFileName ?f \<noteq> []" using assms(2) by (auto simp: plain_index_def)
  let ?c = "\<lparr> rc_Version = queueIndexVersion, rc_Queue = name, rc_Revision = qi_Revision idx',
      rc_Offset = off, rc_AfterItemID = queueItemIDFromFileName ?f \<rparr>"
  have "decodeQueueReadCursor dec name (encodeQueueReadCursor enc name idx' off ?f) = Inr ?c"
    using assms(1) ne by (simp add: decodeQueueReadCursor_def encodeQueueReadCursor_def cursor_codec_def)
  moreover have "resolveStart ?c idx = Inr (int n)"
    using resolveStart_after [of idx "n - 1" ?c] assms(2,3,5) f(2) ne
    by (simp add: plain_index_def of_nat_diff)
  ultimately show ?thesis by (auto simp: cursor_at_def)
qed

lemma list_page_at:
  assumes "cursor_at dec name idx raw n" "n \<le> length (index_names idx)"
  shows "\<exists>pg. list_page enc dec name idx raw limit = Inr pg
    \<and> pg_Items pg = take (nat (max 1 limit)) (drop n (index_names idx))
    \<and> pg_HasMore pg = (n + length (pg_Items pg) < length (index_names idx))
    \<and> (pg_HasMore pg \<longrightarrow> pg_NextCursor pg = encodeQueueReadCursor enc name idx
         (int (n + length (pg_Items pg))) (index_names idx ! (n + length (pg_Items pg) - 1)))"
proof -
  let ?l = "if limit \<le> 0 then 1 else limit"
  let ?fs = "take (nat (max 1 limit)) (drop n (index_names idx))"
  from assms(1) obtain c where c: "decodeQueueReadCursor dec name raw = Inr c"
    "resolveStart c idx = Inr (int n)" by (auto simp: cursor_at_def)
  have "index_slice (int n) ?l idx = take (nat ?l) (drop n (index_names idx))"
    by (subst index_slice_names) auto
  then have s: "index_slice (int n) ?l idx = ?fs" by (simp add: max_def)
  have "?fs \<noteq> []" "last ?fs = index_names idx ! (n + length ?fs - 1)"
    if "n + length ?fs < length (index_names idx)"
  proof -
    show ne: "?fs \<noteq> []" using that by auto
    then show "last ?fs = index_names idx ! (n + length ?fs - 1)"
      using that by (subst last_conv_nth [OF ne]) simp
  qed
  with c s show ?thesis
    by (auto simp: list_page_def index_total_names Let_def)
qed

lemma walk_pages_from:
  assumes codec: "cursor_codec enc dec" and idx: "plain_index idx"
  shows "cursor_at dec name idx raw n \<Longrightarrow> n \<le> length (index_names idx) \<Longrightarrow>
    length (index_names idx) - n < k \<Longrightarrow>
    walk_pages k enc dec name idx raw limit = Some (drop n (index_names idx))"
proof (induction k arbitrary: raw n)
  case (Suc k)
  let ?N = "length (index_names idx)"
  from list_page_at [OF Suc.prems(1,2), of enc limit] obtain pg where
    pg: "list_page enc dec name idx raw limit = Inr pg"
      "pg_Items pg = take (nat (max 1 limit)) (drop n (index_names idx))"
      "pg_HasMore pg = (n + length (pg_Items pg) < ?N)"
      "pg_HasMore pg \<longrightarrow> pg_NextCursor pg = encodeQueueReadCursor enc name idx
         (int (n + length (pg_Items pg))) (index_names idx ! (n + length (pg_Items pg) - 1))" by blast
  show ?case
  proof (cases "pg_HasMore pg")
    case False
    then have "pg_Items pg = drop n (index_names idx)" using pg(2,3) by simp
    with False pg(1) show ?thesis by simp
  next
    case True
    let ?m = "n + length (pg_Items pg)"
    have len: "0 < length (pg_Items pg)" "?m < ?N" "?m \<le> ?N" using True pg(2,3) by auto
    have "cursor_at dec name idx (pg_NextCursor pg) ?m"
      using cursor_at_next [OF codec idx, of ?m "int ?m" name idx] pg(4) True len by auto
    moreover have "?N - ?m < k" using Suc.prems(3) len(1,2) by linarith
    ultimately have "walk_pages k enc dec name idx (pg_NextCursor pg) limit
        = Some (drop ?m (index_names idx))" using Suc.IH len(3) by blast
    moreover have "pg_Items pg @ drop ?m (index_names idx) = drop n (index_names idx)"
      using pg(2) by (metis append_take_drop_id drop_drop add.commute append_eq_conv_conj)
    ultimately show ?thesis using True pg(1) by simp
  qed
qed simp

lemma removeQueueFileNameByID_filter:
  "distinct (item_ids fs) \<Longrightarrow> removeQueueFileNameByID x fs =
     (x \<in> set (item_ids fs), filter (\<lambda>f. queueItemIDFromFileName f \<noteq> x) fs)"
proof (induction fs)
  case (Cons f fs)
  show ?case
  proof (cases "queueItemIDFromFileName f = x")
    case True
    then have "filter (\<lambda>f. queueItemIDFromFileName f \<noteq> x) fs = fs"
      using Cons.prems by (auto simp: filter_id_conv) (metis image_eqI)
    with True show ?thesis by simp
  qed (use Cons in simp)
qed simp

lemma removeItemID_filter:
  assumes "distinct (item_ids (qi_High idx))" "distinct (item_ids (qi_Low idx))" "x \<noteq> []"
  shows "qi_High (snd (removeItemID now x idx)) = filter (\<lambda>f. queueItemIDFromFileName f \<noteq> x) (qi_High idx)"
    "qi_Low (snd (removeItemID now x idx)) = filter (\<lambda>f. queueItemIDFromFileName f \<noteq> x) (qi_Low idx)"
    "qi_Version (snd (removeItemID now x idx)) = qi_Version idx"
    "qi_Revision idx \<le> qi_Revision (snd (removeItemID now x idx))"
  using assms by (simp_all add: removeItemID_def removeQueueFileNameByID_filter Let_def index_touch_def)

section \<open>A sample serialisation\<close>

definition put_string :: "string \<Rightarrow> string" where
  "put_string s = concat (map (\<lambda>c. [CHR ''1'', c]) s) @ [CHR ''0'']"

fun get_string :: "string \<Rightarrow> string \<times> string" where
  "get_string [] = ([], [])"
| "get_string [c] = ([], [])"
| "get_string (c # d # r) =
     (if c = CHR ''1'' then (case get_string r of (s, t) \<Rightarrow> (d # s, t)) else ([], d # r))"

definition put_int :: "int \<Rightarrow> string" where
  "put_int i = put_string ((if i < 0 then CHR ''-'' else CHR ''+'') # replicate (nat \<bar>i\<bar>) CHR ''i'')"

definition get_int :: "string \<Rightarrow> int \<times> string" where
  "get_int r = (case get_string r of (s, t) \<Rightarrow>
     (if take 1 s = ''-'' then - int (length s - 1) else int (length s - 1), t))"

definition put_cursor :: "read_cursor \<Rightarrow> string" where
  "put_cursor c = put_int (rc_Version c) @ put_string (rc_Queue c) @ put_int (rc_Revision c)
     @ put_int (rc_Offset c) @ put_string (rc_AfterItemID c)"

definition get_cursor :: "string \<Rightarrow> go_error + read_cursor" where
  "get_cursor s =
     (case get_int s of (v, s1) \<Rightarrow> case get_string s1 of (q, s2) \<Rightarrow> case get_int s2 of (r, s3) \<Rightarrow>
      case get_int s3 of (off, s4) \<Rightarrow> case get_string s4 of (a, s5) \<Rightarrow>
      Inr \<lparr> rc_Version = v, rc_Queue = q, rc_Revision = r, rc_Offset = off, rc_AfterItemID = a \<rparr>)"

lemma get_put_string: "get_string (put_string s @ t) = (s, t)"
proof (induction s)
  case Nil
  then show ?case by (cases t) (simp_all add: put_string_def)
qed (simp add: put_string_def)

lemma get_put_int: "get_int (put_int i @ t) = (i, t)"
  by (simp add: put_int_def get_int_def get_put_string)

lemma put_cursor_codec: "cursor_codec put_cursor get_cursor"
proof -
  have "get_cursor (put_cursor c) = Inr c" for c
    using get_put_string [of "rc_AfterItemID c" "[]"]
    by (simp add: get_cursor_def put_cursor_def get_put_int get_put_string)
  moreover have "put_cursor c \<noteq> []" for c
    by (simp add: put_cursor_def put_int_def put_string_def)
  ultimately show ?thesis by (simp add: cursor_codec_def)
qed

definition sample_index :: queue_index where
  "sample_index = \<lparr> qi_Version = 1, qi_Revision = 7, qi_High = [''a.json''],
     qi_Low = [''b.json'', ''c.json''] \<rparr>"

lemma sample_index_plain: "plain_index sample_index"
  using queueItemID_json [of "''a''"] queueItemID_json [of "''b''"] queueItemID_json [of "''c''"]
  by (simp add: plain_index_def sample_index_def index_names_def)

section \<open>Properties\<close>

text \<open>
  C24: paging is complete. A client that starts with the empty cursor and follows the cursors of
  the answers gets every item of the index exactly once and in order, whatever the page size
  (a size below one counts as one), and is done after at most one request per item plus one.
\<close>

theorem walk_pages_complete:
  assumes "cursor_codec enc dec" "plain_index idx"
  shows "walk_pages (length (index_names idx) + 1) enc dec name idx [] limit = Some (index_names idx)"
  using walk_pages_from [OF assms cursor_at_start, of "length (index_names idx) + 1" name limit] by simp

theorem walk_pages_complete_witness:
  "walk_pages 4 put_cursor get_cursor ''q'' sample_index [] 2 = Some [''a.json'', ''b.json'', ''c.json'']"
  using walk_pages_complete [OF put_cursor_codec sample_index_plain, of "''q''" 2]
  by (simp add: sample_index_def index_names_def eval_nat_numeral del: walk_pages.simps)

text \<open>
  Cursors survive changes of the queue. A cursor handed out for one index and used with
  another continues right after the item it names, wherever that item has moved to; when the
  item is gone the cursor is rejected. No item is skipped or repeated on the way.
\<close>

theorem cursor_survives_changes:
  assumes "cursor_codec enc dec" "plain_index idx'" "fileName \<noteq> []" "queueItemIDFromFileName fileName \<noteq> []"
    and "0 \<le> offset"
  shows "case decodeQueueReadCursor dec name (encodeQueueReadCursor enc name idx offset fileName) of
      Inl e \<Rightarrow> False
    | Inr c \<Rightarrow>
        (case resolveStart c idx' of
           Inr n \<Rightarrow> 0 < n \<and> n \<le> index_total idx'
             \<and> queueItemIDFromFileName (index_names idx' ! nat (n - 1)) = queueItemIDFromFileName fileName
         | Inl e \<Rightarrow> e = ErrInvalidCursor
             \<and> queueItemIDFromFileName fileName \<notin> set (item_ids (index_names idx')))"
proof -
  let ?c = "\<lparr> rc_Version = queueIndexVersion, rc_Queue = name, rc_Revision = qi_Revision idx,
      rc_Offset = offset, rc_AfterItemID = queueItemIDFromFileName fileName \<rparr>"
  have d: "decodeQueueReadCursor dec name (encodeQueueReadCursor enc name idx offset fileName) = Inr ?c"
    using assms(1,3) by (simp add: decodeQueueReadCursor_def encodeQueueReadCursor_def cursor_codec_def)
  show ?thesis
  proof (cases "queueItemIDFromFileName fileName \<in> set (item_ids (index_names idx'))")
    case True
    then obtain i where i: "i < length (index_names idx')"
      "queueItemIDFromFileName (index_names idx' ! i) = queueItemIDFromFileName fileName"
      by (auto simp: in_set_conv_nth)
    then have "resolveStart ?c idx' = Inr (int i + 1)"
      using assms(2,4,5) by (intro resolveStart_after) (simp_all add: plain_index_def)
    with d i show ?thesis by (simp add: index_total_names)
  next
    case False
    then have "resolveStart ?c idx' = Inl ErrInvalidCursor" using assms(4) by (intro resolveStart_gone) simp_all
    with d False show ?thesis by simp
  qed
qed

theorem cursor_survives_changes_witness:
  "\<exists>c. decodeQueueReadCursor get_cursor ''q'' (encodeQueueReadCursor put_cursor ''q'' sample_index 2 ''b.json'') = Inr c
     \<and> (\<exists>n. resolveStart c (sample_index\<lparr>qi_High := []\<rparr>) = Inr n
          \<and> index_names (sample_index\<lparr>qi_High := []\<rparr>) ! nat (n - 1) = ''b.json'')"
proof -
  let ?idx = "sample_index\<lparr>qi_High := []\<rparr>"
  have ids: "queueItemIDFromFileName ''b.json'' = ''b''" "queueItemIDFromFileName ''c.json'' = ''c''"
    using queueItemID_json [of "''b''"] queueItemID_json [of "''c''"] by simp_all
  have names: "index_names ?idx = [''b.json'', ''c.json'']" by (simp add: index_names_def sample_index_def)
  have p: "plain_index ?idx" by (simp add: plain_index_def names ids)
  from cursor_survives_changes [OF put_cursor_codec p, of "''b.json''" 2 "''q''" sample_index]
  obtain c where c: "decodeQueueReadCursor get_cursor ''q''
      (encodeQueueReadCursor put_cursor ''q'' sample_index 2 ''b.json'') = Inr c"
    and r: "case resolveStart c ?idx of
        Inr n \<Rightarrow> 0 < n \<and> n \<le> index_total ?idx \<and> queueItemIDFromFileName (index_names ?idx ! nat (n - 1)) = ''b''
      | Inl e \<Rightarrow> e = ErrInvalidCursor \<and> ''b'' \<notin> set (item_ids (index_names ?idx))"
    by (auto simp: ids split: sum.splits)
  then obtain n where n: "resolveStart c ?idx = Inr n" "0 < n" "n \<le> 2"
    "queueItemIDFromFileName (index_names ?idx ! nat (n - 1)) = ''b''"
    by (cases "resolveStart c ?idx") (auto simp: names ids index_total_names)
  then have "n = 1 \<or> n = 2" by auto
  with n(4) have "n = 1" by (auto simp: names ids)
  with c n(1) show ?thesis by (simp add: names)
qed

end
