(* ===== verification/Queue_Interface.thy ===== *)
theory Queue_Interface
  imports Go_Base
begin

text \<open>
  What the users of a queue store rely on: a queue with two priorities, first in first out
  within each, high before low. The environment \<open>'e\<close> of an operation carries the clock and
  the outcome of file system calls; \<open>ok\<close> singles out the ones without failures.
\<close>

text \<open>Taking items one after the other.\<close>

fun drain :: "('e \<Rightarrow> 's \<Rightarrow> 'a option \<times> 's) \<Rightarrow> 'e list \<Rightarrow> 's \<Rightarrow> 'a list \<times> 's" where
  "drain deq [] s = ([], s)"
| "drain deq (e # es) s =
     (case deq e s of
        (None, s') \<Rightarrow> drain deq es s'
      | (Some x, s') \<Rightarrow> (case drain deq es s' of (xs, t) \<Rightarrow> (x # xs, t)))"

locale prio_queue =
  fixes invar :: "'s \<Rightarrow> bool"
    and high :: "'s \<Rightarrow> 'a list"
    and low :: "'s \<Rightarrow> 'a list"
    and ok :: "'e \<Rightarrow> bool"
    and deq :: "'e \<Rightarrow> 's \<Rightarrow> 'a option \<times> 's"
  assumes deq_invar: "invar s \<Longrightarrow> ok e \<Longrightarrow> invar (snd (deq e s))"
    and deq_high: "invar s \<Longrightarrow> ok e \<Longrightarrow> high s = x # xs \<Longrightarrow>
      fst (deq e s) = Some x \<and> high (snd (deq e s)) = xs \<and> low (snd (deq e s)) = low s"
    and deq_low: "invar s \<Longrightarrow> ok e \<Longrightarrow> high s = [] \<Longrightarrow> low s = x # xs \<Longrightarrow>
      fst (deq e s) = Some x \<and> high (snd (deq e s)) = [] \<and> low (snd (deq e s)) = xs"
    and deq_none: "invar s \<Longrightarrow> ok e \<Longrightarrow> high s = [] \<Longrightarrow> low s = [] \<Longrightarrow>
      fst (deq e s) = None \<and> high (snd (deq e s)) = [] \<and> low (snd (deq e s)) = []"
begin

lemma deq_list:
  assumes "invar s" "ok e"
  shows "fst (deq e s) = (case high s @ low s of [] \<Rightarrow> None | x # xs \<Rightarrow> Some x)"
    "high (snd (deq e s)) @ low (snd (deq e s)) = tl (high s @ low s)"
proof -
  consider x xs where "high s = x # xs" | x xs where "high s = []" "low s = x # xs"
    | "high s = []" "low s = []" by (cases "high s"; cases "low s") auto
  then have "fst (deq e s) = (case high s @ low s of [] \<Rightarrow> None | x # xs \<Rightarrow> Some x)
      \<and> high (snd (deq e s)) @ low (snd (deq e s)) = tl (high s @ low s)"
    using deq_high [OF assms] deq_low [OF assms] deq_none [OF assms] by cases auto
  then show "fst (deq e s) = (case high s @ low s of [] \<Rightarrow> None | x # xs \<Rightarrow> Some x)"
    "high (snd (deq e s)) @ low (snd (deq e s)) = tl (high s @ low s)" by simp_all
qed

lemma drain_in_order:
  "invar s \<Longrightarrow> \<forall>e \<in> set es. ok e \<Longrightarrow>
   fst (drain deq es s) = take (length es) (high s @ low s) \<and> invar (snd (drain deq es s))
   \<and> high (snd (drain deq es s)) @ low (snd (drain deq es s)) = drop (length es) (high s @ low s)"
proof (induction es arbitrary: s)
  case (Cons e es)
  obtain r s' where d: "deq e s = (r, s')" by fastforce
  have ok: "invar s" "ok e" using Cons.prems by auto
  have s': "invar s'" "r = (case high s @ low s of [] \<Rightarrow> None | x # xs \<Rightarrow> Some x)"
    "high s' @ low s' = tl (high s @ low s)"
    using deq_invar [OF ok] deq_list [OF ok] d by simp_all
  have "\<forall>e \<in> set es. ok e" using Cons.prems(2) by simp
  note ih = Cons.IH [OF s'(1) this]
  show ?case
  proof (cases "high s @ low s")
    case Nil
    with s'(2,3) ih d show ?thesis by simp
  next
    case (Cons x xs)
    with s'(2,3) ih d show ?thesis by (auto split: prod.splits)
  qed
qed simp

end

locale prio_store = prio_queue invar high low ok deq
  for invar :: "'s \<Rightarrow> bool" and high low :: "'s \<Rightarrow> 'a list" and ok :: "'e \<Rightarrow> bool"
    and deq :: "'e \<Rightarrow> 's \<Rightarrow> 'a option \<times> 's" +
  fixes enq :: "'e \<Rightarrow> bool \<Rightarrow> 'r \<Rightarrow> 's \<Rightarrow> 's"
    and accepts :: "'e \<Rightarrow> bool \<Rightarrow> 'r \<Rightarrow> 's \<Rightarrow> bool"
    and item :: "'e \<Rightarrow> bool \<Rightarrow> 'r \<Rightarrow> 'a"
  assumes enq_invar: "invar s \<Longrightarrow> ok e \<Longrightarrow> accepts e h r s \<Longrightarrow> invar (enq e h r s)"
    and enq_high: "invar s \<Longrightarrow> ok e \<Longrightarrow> accepts e True r s \<Longrightarrow>
      high (enq e True r s) = high s @ [item e True r] \<and> low (enq e True r s) = low s"
    and enq_low: "invar s \<Longrightarrow> ok e \<Longrightarrow> accepts e False r s \<Longrightarrow>
      high (enq e False r s) = high s \<and> low (enq e False r s) = low s @ [item e False r]"
begin

lemma enq_then_drain:
  assumes "invar s" "ok e" "accepts e h r s" "\<forall>e \<in> set es. ok e" "length es = length (high s @ low s) + 1"
  shows "fst (drain deq es (enq e h r s)) =
    (if h then high s @ [item e h r] @ low s else high s @ low s @ [item e h r])"
proof -
  have "invar (enq e h r s)" using assms(1-3) by (rule enq_invar)
  from drain_in_order [OF this assms(4)]
  have "fst (drain deq es (enq e h r s)) =
      take (length es) (high (enq e h r s) @ low (enq e h r s))" by simp
  moreover have "high (enq e h r s) @ low (enq e h r s) =
      (if h then high s @ [item e h r] @ low s else high s @ low s @ [item e h r])"
    using enq_high [OF assms(1,2)] enq_low [OF assms(1,2)] assms(3) by (cases h) auto
  ultimately show ?thesis using assms(5) by simp
qed

end

end
