(* ===== verification/Queue_Store.thy ===== *)
theory Queue_Store
  imports Queue_Index Queue_Interface "HOL-Library.Multiset"
begin

text \<open>
  Package \<open>filequeue\<close>: the queue files of one directory (\<open>queuefile.go\<close>, \<open>job.go\<close>), the queue of
  two priorities over them (\<open>queue.go\<close>) and the store operations that keep the read index in
  step (\<open>store.go\<close>, \<open>index.go\<close>). A directory is its item files, sorted by name as Go lists them,
  the index file with its modification time, the index cached in memory and whether the lock
  directory is there. The clock and the outcome of file system calls are the record \<open>qio\<close>.
  Operations of the store on different queues do not share state; locking is in \<open>Dir_Lock\<close>.
\<close>

section \<open>State\<close>

type_synonym item_file = "go_error + item_data"

record queue_dir =
  qd_exists :: bool
  qd_files :: "(string \<times> item_file) list"
  qd_index :: "(queue_index option \<times> time) option"
  qd_cache :: "(queue_index \<times> time) option"
  qd_locked :: bool

type_synonym queued_item = "string \<times> item_data"

record qio =
  qio_now :: int
  qio_time :: utc
  qio_modTime :: time
  qio_alloc :: nat
  qio_lockErr :: "go_error option"
  qio_mkdirErr :: "go_error option"
  qio_writeErr :: "go_error option"
  qio_removeErr :: "string \<Rightarrow> go_error option"
  qio_loadErr :: "go_error option"
  qio_saveErr :: "go_error option"
  qio_rmIndexErr :: "go_error option"
  qio_sort :: "queued_item list \<Rightarrow> queued_item list"

definition ErrQueueFileEmpty :: go_error where
  "ErrQueueFileEmpty = Sentinel ''queue file is empty''"

definition ErrQueueFileItemNotFound :: go_error where
  "ErrQueueFileItemNotFound = Sentinel ''queue file item not found''"

definition ErrQueueEmpty :: go_error where
  "ErrQueueEmpty = PkgSentinel ''filequeue'' ''queue is empty''"

definition ErrQueueItemNotFound :: go_error where
  "ErrQueueItemNotFound = PkgSentinel ''filequeue'' ''queue item not found''"

definition exec_ErrQueueEmpty :: go_error where
  "exec_ErrQueueEmpty = PkgSentinel ''exec'' ''queue is empty''"

definition exec_ErrQueueItemNotFound :: go_error where
  "exec_ErrQueueItemNotFound = PkgSentinel ''exec'' ''queue item not found''"

section \<open>Files of a directory\<close>

text \<open>Renaming into place replaces a file of the same name.\<close>

fun put_file :: "string \<Rightarrow> item_file \<Rightarrow> (string \<times> item_file) list \<Rightarrow> (string \<times> item_file) list" where
  "put_file n c [] = [(n, c)]"
| "put_file n c ((m, d) # fs) =
     (if n = m then (n, c) # fs
      else if n < m then (n, c) # (m, d) # fs
      else (m, d) # put_file n c fs)"

definition del_file :: "string \<Rightarrow> (string \<times> item_file) list \<Rightarrow> (string \<times> item_file) list" where
  "del_file n fs = filter (\<lambda>f. fst f \<noteq> n) fs"

text \<open>\<open>os.Remove\<close> on the directory succeeds only when it is empty.\<close>

definition remove_dir :: "queue_dir \<Rightarrow> queue_dir" where
  "remove_dir d =
     (if qd_exists d \<and> qd_files d = [] \<and> qd_index d = None \<and> \<not> qd_locked d
      then d\<lparr>qd_exists := False\<rparr> else d)"

section \<open>Jobs\<close>

record job =
  jb_id :: string
  jb_data :: item_data

definition ExtractJob :: "nat \<Rightarrow> string \<times> item_file \<Rightarrow> go_error + job" where
  "ExtractJob a f =
     (case snd f of
        Inl e \<Rightarrow> Inl (Wrap a ''failed to load job data'' e)
      | Inr data \<Rightarrow> Inr \<lparr> jb_id = queueItemIDFromFileName (fst f), jb_data = data \<rparr>)"

section \<open>The queue files of one priority\<close>

text \<open>\<open>sort.Slice\<close> need not be stable: all it promises is a sorted permutation.\<close>

definition sort_ok :: "(queued_item list \<Rightarrow> queued_item list) \<Rightarrow> bool" where
  "sort_ok srt \<longleftrightarrow> (\<forall>xs. mset (srt xs) = mset xs
     \<and> sorted_wrt (\<lambda>a b. \<not> utc_before (it_QueuedAt (snd b)) (it_QueuedAt (snd a))) (srt xs))"

fun parsed_items :: "string \<Rightarrow> string \<Rightarrow> (string \<times> item_file) list \<Rightarrow> queued_item list" where
  "parsed_items prefix name [] = []"
| "parsed_items prefix name ((n, c) # fs) =
     (if \<not> queue_match prefix n then parsed_items prefix name fs
      else case parseQueueFileName name n of
        Inl e \<Rightarrow> parsed_items prefix name fs
      | Inr item \<Rightarrow> (n, item) # parsed_items prefix name fs)"

definition listItems :: "qio \<Rightarrow> string \<Rightarrow> string \<Rightarrow> queue_dir \<Rightarrow> queued_item list" where
  "listItems io prefix name d = qio_sort io (parsed_items prefix name (qd_files d))"

definition Push :: "qio \<Rightarrow> string \<Rightarrow> dag_run_ref \<Rightarrow> queue_dir \<Rightarrow> (go_error + string) \<times> queue_dir" where
  "Push io prefix run d =
     (let fileName = queueFileName prefix (dr_ID run) (qio_time io) in
      case qio_mkdirErr io of
        Some e \<Rightarrow> (Inl (Wrap (qio_alloc io) ''failed to create directory'' e), d)
      | None \<Rightarrow>
          (case qio_writeErr io of
             Some e \<Rightarrow> (Inl (Wrap (qio_alloc io) ''failed to write data to queue file'' e),
               d\<lparr>qd_exists := True\<rparr>)
           | None \<Rightarrow> (Inr fileName,
               d\<lparr>qd_exists := True,
                 qd_files := put_file fileName
                   (Inr \<lparr> it_FileName = fileName, it_DAGRun = run, it_QueuedAt = qio_time io \<rparr>)
                   (qd_files d)\<rparr>)))"

definition Pop :: "qio \<Rightarrow> string \<Rightarrow> string \<Rightarrow> queue_dir \<Rightarrow> (go_error + job) \<times> queue_dir" where
  "Pop io prefix name d =
     (if \<not> qd_exists d then (Inl ErrQueueFileEmpty, d)
      else case listItems io prefix name d of
        [] \<Rightarrow> (Inl ErrQueueFileEmpty, d)
      | (f, item) # _ \<Rightarrow>
          (case map_of (qd_files d) f of
             None \<Rightarrow> (Inl (Errorf (qio_alloc io) ''failed to unwrap job''), d)
           | Some c \<Rightarrow>
               (case ExtractJob (qio_alloc io) (f, c) of
                  Inl e \<Rightarrow> (Inl (Wrap (qio_alloc io) ''failed to unwrap job from file'' e), d)
                | Inr j \<Rightarrow>
                    (case qio_removeErr io f of
                       Some e \<Rightarrow> (Inl (Wrap (qio_alloc io) ''failed to remove queue file'' e), d)
                     | None \<Rightarrow> (Inr j, d\<lparr>qd_files := del_file f (qd_files d)\<rparr>)))))"

fun pop_matching ::
  "qio \<Rightarrow> dag_run_ref \<Rightarrow> queued_item list \<Rightarrow> (string \<times> item_file) list \<Rightarrow>
   job list \<times> (string \<times> item_file) list" where
  "pop_matching io run [] fs = ([], fs)"
| "pop_matching io run ((f, item) # items) fs =
     (case Option.bind (map_of fs f) (\<lambda>c. case c of Inl e \<Rightarrow> None | Inr data \<Rightarrow> Some data) of
        None \<Rightarrow> pop_matching io run items fs
      | Some data \<Rightarrow>
          if dr_Name (it_DAGRun data) = dr_Name run \<and> dr_ID (it_DAGRun data) = dr_ID run
          then case qio_removeErr io f of
                 Some e \<Rightarrow> pop_matching io run items fs
               | None \<Rightarrow>
                   (case pop_matching io run items (del_file f fs) of
                      (js, fs') \<Rightarrow> (\<lparr> jb_id = queueItemIDFromFileName f, jb_data = data \<rparr> # js, fs'))
          else pop_matching io run items fs)"

definition PopByDAGRunID ::
  "qio \<Rightarrow> string \<Rightarrow> string \<Rightarrow> dag_run_ref \<Rightarrow> queue_dir \<Rightarrow> job list \<times> queue_dir" where
  "PopByDAGRunID io prefix name run d =
     (if \<not> qd_exists d then ([], d)
      else case pop_matching io run (listItems io prefix name d) (qd_files d) of
        (js, fs) \<Rightarrow> (js, d\<lparr>qd_files := fs\<rparr>))"

definition file_FindByDAGRunID :: "qio \<Rightarrow> string \<Rightarrow> string \<Rightarrow> string \<Rightarrow> queue_dir \<Rightarrow> go_error + string" where
  "file_FindByDAGRunID io prefix name dagRunID d =
     (if \<not> qd_exists d then Inl ErrQueueFileItemNotFound
      else case find (\<lambda>it. dr_ID (it_DAGRun (snd it)) = dagRunID) (listItems io prefix name d) of
        None \<Rightarrow> Inl ErrQueueFileItemNotFound
      | Some it \<Rightarrow> Inr (fst it))"

definition file_List :: "qio \<Rightarrow> string \<Rightarrow> string \<Rightarrow> queue_dir \<Rightarrow> string list" where
  "file_List io prefix name d = (if \<not> qd_exists d then [] else map fst (listItems io prefix name d))"

definition file_Len :: "qio \<Rightarrow> string \<Rightarrow> string \<Rightarrow> queue_dir \<Rightarrow> int" where
  "file_Len io prefix name d =
     (if \<not> qd_exists d then 0 else int (length (listItems io prefix name d)))"

section \<open>The queue with two priorities\<close>

definition dual_Find :: "qio \<Rightarrow> string \<Rightarrow> string \<Rightarrow> queue_dir \<Rightarrow> go_error + string" where
  "dual_Find io name dagRunID d =
     (case file_FindByDAGRunID io ''high_'' name dagRunID d of
        Inr f \<Rightarrow> Inr f
      | Inl e \<Rightarrow>
          (case file_FindByDAGRunID io ''low_'' name dagRunID d of
             Inr f \<Rightarrow> Inr f
           | Inl e \<Rightarrow> Inl ErrQueueItemNotFound))"

definition dual_DequeueByDAGRunID ::
  "qio \<Rightarrow> string \<Rightarrow> dag_run_ref \<Rightarrow> queue_dir \<Rightarrow> job list \<times> queue_dir" where
  "dual_DequeueByDAGRunID io name run d =
     (case PopByDAGRunID io ''high_'' name run d of
        (hs, d1) \<Rightarrow> (case PopByDAGRunID io ''low_'' name run d1 of
          (ls, d2) \<Rightarrow> (hs @ ls, remove_dir d2)))"

fun delete_items ::
  "qio \<Rightarrow> string list \<Rightarrow> int \<Rightarrow> (string \<times> item_file) list \<Rightarrow>
   int \<times> go_error option \<times> (string \<times> item_file) list" where
  "delete_items io [] n fs = (n, None, fs)"
| "delete_items io (x # xs) n fs =
     (if x = [] \<or> path_base (x @ ''.json'') = ''.json'' then delete_items io xs n fs
      else let f = path_base (x @ ''.json'') in
        if f \<notin> fst ` set fs then delete_items io xs n fs
        else case qio_removeErr io f of
          Some e \<Rightarrow> (n, Some (Wrap (qio_alloc io) ''failed to remove queue item'' e), fs)
        | None \<Rightarrow> delete_items io xs (n + 1) (del_file f fs))"

definition dual_DeleteByItemIDs ::
  "qio \<Rightarrow> string list \<Rightarrow> queue_dir \<Rightarrow> int \<times> go_error option \<times> queue_dir" where
  "dual_DeleteByItemIDs io xs d =
     (case delete_items io xs 0 (qd_files d) of
        (n, Some e, fs) \<Rightarrow> (n, Some e, d\<lparr>qd_files := fs\<rparr>)
      | (n, None, fs) \<Rightarrow> (n, None, remove_dir (d\<lparr>qd_files := fs\<rparr>)))"

definition dual_List :: "qio \<Rightarrow> string \<Rightarrow> queue_dir \<Rightarrow> string list" where
  "dual_List io name d = file_List io ''high_'' name d @ file_List io ''low_'' name d"

definition dual_Len :: "qio \<Rightarrow> string \<Rightarrow> queue_dir \<Rightarrow> int" where
  "dual_Len io name d = file_Len io ''high_'' name d + file_Len io ''low_'' name d"

definition dual_Enqueue ::
  "qio \<Rightarrow> int \<Rightarrow> dag_run_ref \<Rightarrow> queue_dir \<Rightarrow> (go_error + string) \<times> queue_dir" where
  "dual_Enqueue io priority run d =
     (if priority = QueuePriorityHigh then Push io ''high_'' run d
      else if priority = QueuePriorityLow then Push io ''low_'' run d
      else (Inl (Errorf (qio_alloc io) ''invalid queue priority''), d))"

definition dual_Dequeue :: "qio \<Rightarrow> string \<Rightarrow> queue_dir \<Rightarrow> (go_error + job) \<times> queue_dir" where
  "dual_Dequeue io name d =
     (case Pop io ''high_'' name d of
        (Inr j, d1) \<Rightarrow> (Inr j, d1)
      | (Inl e, d1) \<Rightarrow>
          if \<not> errors_is e ErrQueueFileEmpty then (Inl e, d1)
          else (case Pop io ''low_'' name d1 of
             (Inr j, d2) \<Rightarrow> (Inr j, d2)
           | (Inl e, d2) \<Rightarrow>
               if \<not> errors_is e ErrQueueFileEmpty then (Inl e, d2)
               else (Inl ErrQueueEmpty, remove_dir d2)))"

section \<open>Loading and saving the index\<close>

definition saveQueueIndex :: "qio \<Rightarrow> queue_index \<Rightarrow> queue_dir \<Rightarrow> go_error option \<times> queue_dir" where
  "saveQueueIndex io idx d =
     (if index_total idx = 0
      then (case qio_rmIndexErr io of
              Some e \<Rightarrow> (Some (Wrap (qio_alloc io) ''failed to remove queue index'' e), d\<lparr>qd_cache := None\<rparr>)
            | None \<Rightarrow> (None, d\<lparr>qd_cache := None, qd_index := None\<rparr>))
      else
        (let idx' = ensureDefaults (qio_now io) idx in
         case qio_saveErr io of
           Some e \<Rightarrow> (Some (Wrap (qio_alloc io) ''failed to install queue index'' e), d)
         | None \<Rightarrow> (None, d\<lparr>qd_exists := True, qd_index := Some (Some idx', qio_modTime io),
             qd_cache := Some (idx', qio_modTime io)\<rparr>)))"

definition rebuildQueueIndex :: "qio \<Rightarrow> queue_dir \<Rightarrow> (go_error + queue_index) \<times> queue_dir" where
  "rebuildQueueIndex io d =
     (if \<not> qd_exists d then (Inr (newQueueReadIndex (qio_now io)), d)
      else case qio_loadErr io of
        Some e \<Rightarrow> (Inl (Wrap (qio_alloc io) ''failed to read queue directory'' e), d)
      | None \<Rightarrow>
          (let names = map fst (qd_files d);
               idx = (newQueueReadIndex (qio_now io))
                 \<lparr>qi_High := sort (filter isHighQueueFileName names),
                  qi_Low := sort (filter (\<lambda>n. \<not> isHighQueueFileName n \<and> isLowQueueFileName n) names)\<rparr>
           in case saveQueueIndex io idx d of
                (Some e, d') \<Rightarrow> (Inl e, d')
              | (None, d') \<Rightarrow> (Inr idx, d')))"

definition loadOrRebuildQueueIndex :: "qio \<Rightarrow> queue_dir \<Rightarrow> (go_error + queue_index) \<times> queue_dir" where
  "loadOrRebuildQueueIndex io d =
     (if \<not> qd_exists d then (Inr (newQueueReadIndex (qio_now io)), d\<lparr>qd_cache := None\<rparr>)
      else case qio_loadErr io of
        Some e \<Rightarrow> (Inl (Wrap (qio_alloc io) ''failed to stat queue directory'' e), d)
      | None \<Rightarrow>
          (case qd_index d of
             None \<Rightarrow> rebuildQueueIndex io d
           | Some (content, m) \<Rightarrow>
               (case qd_cache d of
                  Some (idx, m') \<Rightarrow> if m' = m then (Inr idx, d)
                    else (case content of
                            None \<Rightarrow> rebuildQueueIndex io d
                          | Some idx \<Rightarrow> if qi_Version idx \<noteq> queueIndexVersion then rebuildQueueIndex io d
                              else (Inr (ensureDefaults (qio_now io) idx),
                                d\<lparr>qd_cache := Some (ensureDefaults (qio_now io) idx, m)\<rparr>))
                | None \<Rightarrow>
                    (case content of
                       None \<Rightarrow> rebuildQueueIndex io d
                     | Some idx \<Rightarrow> if qi_Version idx \<noteq> queueIndexVersion then rebuildQueueIndex io d
                         else (Inr (ensureDefaults (qio_now io) idx),
                           d\<lparr>qd_cache := Some (ensureDefaults (qio_now io) idx, m)\<rparr>)))))"

definition invalidateQueueIndex :: "qio \<Rightarrow> queue_dir \<Rightarrow> queue_dir" where
  "invalidateQueueIndex io d =
     d\<lparr>qd_cache := None, qd_index := (if qio_rmIndexErr io = None then None else qd_index d)\<rparr>"

section \<open>The store\<close>

text \<open>What every change does to the index: load it, apply the change, save it; on a failure the
  index is dropped and will be rebuilt from the files.\<close>

definition refresh_index :: "qio \<Rightarrow> (queue_index \<Rightarrow> queue_index) \<Rightarrow> queue_dir \<Rightarrow> queue_dir" where
  "refresh_index io change d =
     (case loadOrRebuildQueueIndex io d of
        (Inl e, d1) \<Rightarrow> invalidateQueueIndex io d1
      | (Inr idx, d1) \<Rightarrow>
          (case saveQueueIndex io (change idx) d1 of
             (Some e, d2) \<Rightarrow> invalidateQueueIndex io d2
           | (None, d2) \<Rightarrow> d2))"

definition lock_dir_of :: "queue_dir \<Rightarrow> queue_dir" where
  "lock_dir_of d = d\<lparr>qd_exists := True, qd_locked := True\<rparr>"

definition unlock_dir_of :: "queue_dir \<Rightarrow> queue_dir" where
  "unlock_dir_of d = d\<lparr>qd_locked := False\<rparr>"

definition DequeueByName :: "qio \<Rightarrow> string \<Rightarrow> queue_dir \<Rightarrow> (go_error + job) \<times> queue_dir" where
  "DequeueByName io name d =
     (case qio_lockErr io of
        Some e \<Rightarrow> (Inl (Wrap (qio_alloc io) ''failed to lock queue'' e), d)
      | None \<Rightarrow>
          (case dual_Dequeue io name (lock_dir_of d) of
             (Inl e, d1) \<Rightarrow>
               (Inl (if errors_is e ErrQueueEmpty then exec_ErrQueueEmpty
                     else Wrap (qio_alloc io) ''failed to dequeue dag-run'' e), unlock_dir_of d1)
           | (Inr j, d1) \<Rightarrow>
               (Inr j, unlock_dir_of
                 (refresh_index io (\<lambda>idx. snd (removeItemID (qio_now io) (jb_id j) idx)) d1))))"

definition remove_ids :: "int \<Rightarrow> string list \<Rightarrow> queue_index \<Rightarrow> queue_index" where
  "remove_ids now xs idx = fold (\<lambda>x i. snd (removeItemID now x i)) xs idx"

definition store_DequeueByDAGRunID ::
  "qio \<Rightarrow> string \<Rightarrow> dag_run_ref \<Rightarrow> queue_dir \<Rightarrow> (go_error + job list) \<times> queue_dir" where
  "store_DequeueByDAGRunID io name run d =
     (case qio_lockErr io of
        Some e \<Rightarrow> (Inl (Wrap (qio_alloc io) ''failed to lock queue'' e), d)
      | None \<Rightarrow>
          (case dual_DequeueByDAGRunID io name run (lock_dir_of d) of
             (items, d1) \<Rightarrow>
               if items = [] then (Inl exec_ErrQueueItemNotFound, unlock_dir_of d1)
               else (Inr items, unlock_dir_of
                 (refresh_index io (remove_ids (qio_now io) (map jb_id items)) d1))))"

definition store_DeleteByItemIDs ::
  "qio \<Rightarrow> string list \<Rightarrow> queue_dir \<Rightarrow> int \<times> go_error option \<times> queue_dir" where
  "store_DeleteByItemIDs io xs d =
     (case qio_lockErr io of
        Some e \<Rightarrow> (0, Some (Wrap (qio_alloc io) ''failed to lock queue'' e), d)
      | None \<Rightarrow>
          (case dual_DeleteByItemIDs io xs (lock_dir_of d) of
             (n, Some e, d1) \<Rightarrow> (n, Some e, unlock_dir_of d1)
           | (n, None, d1) \<Rightarrow> (n, None, unlock_dir_of (refresh_index io (remove_ids (qio_now io) xs) d1))))"

definition store_Enqueue :: "qio \<Rightarrow> int \<Rightarrow> dag_run_ref \<Rightarrow> queue_dir \<Rightarrow> go_error option \<times> queue_dir" where
  "store_Enqueue io p run d =
     (case loadOrRebuildQueueIndex io d of
        (Inl e, d1) \<Rightarrow> (Some e, d1)
      | (Inr idx, d1) \<Rightarrow>
          (case dual_Enqueue io p run d1 of
             (Inl e, d2) \<Rightarrow> (Some (Wrap (qio_alloc io) ''failed to enqueue dag-run'' e), d2)
           | (Inr fileName, d2) \<Rightarrow>
               (None, (case saveQueueIndex io (index_append (qio_now io) p fileName idx) d2 of
                  (Some e, d3) \<Rightarrow> invalidateQueueIndex io d3
                | (None, d3) \<Rightarrow> d3))))"

definition store_Len :: "qio \<Rightarrow> queue_dir \<Rightarrow> (go_error + int) \<times> queue_dir" where
  "store_Len io d =
     (case loadOrRebuildQueueIndex io d of
        (Inl e, d1) \<Rightarrow> (Inl e, d1)
      | (Inr idx, d1) \<Rightarrow> (Inr (index_total idx), d1))"

definition store_List :: "qio \<Rightarrow> queue_dir \<Rightarrow> (go_error + string list) \<times> queue_dir" where
  "store_List io d =
     (case loadOrRebuildQueueIndex io d of
        (Inl e, d1) \<Rightarrow> (Inl (Wrap (qio_alloc io) ''failed to list dag-runs'' e), d1)
      | (Inr idx, d1) \<Rightarrow> (Inr (qi_High idx @ qi_Low idx), d1))"

definition ListCursor ::
  "(read_cursor \<Rightarrow> string) \<Rightarrow> (string \<Rightarrow> go_error + read_cursor) \<Rightarrow> qio \<Rightarrow> string \<Rightarrow> string \<Rightarrow> int \<Rightarrow>
   queue_dir \<Rightarrow> (go_error + page) \<times> queue_dir" where
  "ListCursor enc dec io name cursor limit d =
     (case loadOrRebuildQueueIndex io d of
        (Inl e, d1) \<Rightarrow> (Inl (Wrap (qio_alloc io) ''failed to list queue files'' e), d1)
      | (Inr idx, d1) \<Rightarrow> (list_page enc dec name idx cursor limit, d1))"

text \<open>\<open>ListByDAGName\<close> reads the files that the index lists and skips those it cannot read.\<close>

definition ListByDAGName :: "qio \<Rightarrow> string \<Rightarrow> queue_dir \<Rightarrow> (go_error + string list) \<times> queue_dir" where
  "ListByDAGName io dagName d =
     (case store_List io d of
        (Inl e, d1) \<Rightarrow> (Inl e, d1)
      | (Inr names, d1) \<Rightarrow> (Inr (filter (\<lambda>n. case map_of (qd_files d1) n of
            Some (Inr data) \<Rightarrow> dr_Name (it_DAGRun data) = dagName
          | _ \<Rightarrow> False) names), d1))"

definition hasQueueItemEntries :: "queue_dir \<Rightarrow> bool" where
  "hasQueueItemEntries d = list_ex (\<lambda>f. isHighQueueFileName (fst f) \<or> isLowQueueFileName (fst f)) (qd_files d)"

definition QueueList :: "(string \<times> queue_dir) list \<Rightarrow> string list" where
  "QueueList dirs = map fst (filter (\<lambda>nd. hasQueueItemEntries (snd nd)) dirs)"

text \<open>\<open>All\<close> globs the item files of every queue, high ones first, each group sorted by path.\<close>

definition store_All :: "(string \<times> queue_dir) list \<Rightarrow> string list" where
  "store_All dirs =
     (let glob = (\<lambda>p. sort (concat (map (\<lambda>(q, d). map (\<lambda>n. q @ ''/'' @ n) (filter p (map fst (qd_files d)))) dirs)))
      in glob isHighQueueFileName @ glob isLowQueueFileName)"

section \<open>Invariant\<close>

text \<open>
  The item files the program writes: a well-formed name, contents that agree with it, and per
  priority different times, so that the order of names is the order of queueing.
\<close>

definition clean_id :: "string \<Rightarrow> bool" where
  "clean_id s \<longleftrightarrow> CHR ''/'' \<notin> set s \<and> CHR 0x0A \<notin> set s"

definition is_prio :: "string \<Rightarrow> bool" where
  "is_prio pr \<longleftrightarrow> pr = ''high_'' \<or> pr = ''low_''"

definition file_ok :: "string \<times> item_file \<Rightarrow> bool" where
  "file_ok f \<longleftrightarrow> (\<exists>pr run t. is_prio pr \<and> valid_utc t \<and> clean_id (dr_ID run)
     \<and> fst f = queueFileName pr (dr_ID run) t
     \<and> snd f = Inr \<lparr> it_FileName = fst f, it_DAGRun = run, it_QueuedAt = t \<rparr>)"

definition files_of :: "string \<Rightarrow> queue_dir \<Rightarrow> (string \<times> item_file) list" where
  "files_of pr d = filter (\<lambda>f. queue_match pr (fst f)) (qd_files d)"

abbreviation names_of :: "string \<Rightarrow> queue_dir \<Rightarrow> string list" where
  "names_of pr d \<equiv> map fst (files_of pr d)"

definition file_time :: "string \<times> item_file \<Rightarrow> utc" where
  "file_time f = (case snd f of Inr data \<Rightarrow> it_QueuedAt data | Inl e \<Rightarrow> sample_utc)"

definition files_inv :: "queue_dir \<Rightarrow> bool" where
  "files_inv d \<longleftrightarrow> sorted_wrt (<) (map fst (qd_files d)) \<and> (\<forall>f \<in> set (qd_files d). file_ok f)
     \<and> (\<forall>pr. is_prio pr \<longrightarrow> sorted_wrt (\<lambda>f g. utc_before (file_time f) (file_time g)) (files_of pr d))
     \<and> (\<not> qd_exists d \<longrightarrow> qd_files d = [] \<and> qd_index d = None)"

text \<open>The index, on disk or cached, lists exactly the item files in that order.\<close>

definition index_matches :: "queue_index \<Rightarrow> queue_dir \<Rightarrow> bool" where
  "index_matches idx d \<longleftrightarrow> qi_Version idx = queueIndexVersion
     \<and> qi_High idx = names_of ''high_'' d \<and> qi_Low idx = names_of ''low_'' d"

definition index_inv :: "queue_dir \<Rightarrow> bool" where
  "index_inv d \<longleftrightarrow> (\<forall>content m. qd_index d = Some (content, m) \<longrightarrow>
     (\<exists>idx. content = Some idx \<and> index_matches idx d)
     \<and> (\<forall>idx. qd_cache d = Some (idx, m) \<longrightarrow> index_matches idx d))"

definition store_inv :: "queue_dir \<Rightarrow> bool" where
  "store_inv d \<longleftrightarrow> files_inv d \<and> index_inv d \<and> \<not> qd_locked d"

definition io_ok :: "qio \<Rightarrow> bool" where
  "io_ok io \<longleftrightarrow> qio_lockErr io = None \<and> qio_mkdirErr io = None \<and> qio_writeErr io = None
     \<and> qio_removeErr io = (\<lambda>_. None) \<and> qio_loadErr io = None \<and> qio_saveErr io = None
     \<and> qio_rmIndexErr io = None \<and> sort_ok (qio_sort io) \<and> valid_utc (qio_time io)"

text \<open>The queue of a priority: its jobs in order.\<close>

definition job_of :: "string \<times> item_file \<Rightarrow> job" where
  "job_of f = \<lparr> jb_id = queueItemIDFromFileName (fst f),
     jb_data = (case snd f of Inr data \<Rightarrow> data | Inl e \<Rightarrow>
       \<lparr> it_FileName = [], it_DAGRun = \<lparr> dr_Name = [], dr_ID = [] \<rparr>, it_QueuedAt = sample_utc \<rparr>) \<rparr>"

definition queue_jobs :: "string \<Rightarrow> queue_dir \<Rightarrow> job list" where
  "queue_jobs pr d = map job_of (files_of pr d)"

end
