(* ===== verification/Queue_Refine.thy ===== *)
theory Queue_Refine
  imports Queue_Store
begin

text \<open>
  The file queue implements the interface of \<open>Queue_Interface\<close>: as long as items are queued at
  increasing times and the file system does not fail, the store keeps its invariant, the index
  agrees with the files, and items leave in the order of priority and time.
\<close>

section \<open>Well-formed item files\<close>

lemma file_okE:
  assumes "file_ok f"
  obtains pr run where "is_prio pr" "clean_id (dr_ID run)" "valid_utc (file_time f)"
    "fst f = queueFileName pr (dr_ID run) (file_time f)"
    "snd f = Inr \<lparr> it_FileName = fst f, it_DAGRun = run, it_QueuedAt = file_time f \<rparr>"
  using assms unfolding file_ok_def file_time_def by auto

lemma match_name:
  assumes "is_prio pr" "valid_utc t" "clean_id ident"
  shows "match_item (queueFileName pr ident t) =
    Some (pr, date_string t, clock_string t, pad 9 (u_nanos t), ident)"
  using match_item_queueFileName assms by (simp add: is_prio_def clean_id_def)

lemma file_ok_match:
  assumes "file_ok f"
  shows "\<exists>pr. is_prio pr \<and> (\<forall>q. queue_match q (fst f) \<longleftrightarrow> q = pr)"
    and "\<exists>ident. parseQueueFileName name (fst f) = Inr \<lparr> it_FileName = fst f,
      it_DAGRun = \<lparr> dr_Name = name, dr_ID = ident \<rparr>, it_QueuedAt = file_time f \<rparr>"
proof -
  obtain pr run where f: "is_prio pr" "clean_id (dr_ID run)" "valid_utc (file_time f)"
    "fst f = queueFileName pr (dr_ID run) (file_time f)"
    "snd f = Inr \<lparr> it_FileName = fst f, it_DAGRun = run, it_QueuedAt = file_time f \<rparr>"
    by (rule file_okE [OF assms])
  note m = match_name [OF f(1,3,2), folded f(4)]
  show "\<exists>pr. is_prio pr \<and> (\<forall>q. queue_match q (fst f) \<longleftrightarrow> q = pr)"
    using f(1) by (auto simp: queue_match_def m)
  have v: "valid_date (file_time f)" "u_year (file_time f) < 10000" "u_nanos (file_time f) < 10 ^ 9"
    using f(3) by (simp_all add: valid_utc_def)
  show "\<exists>ident. parseQueueFileName name (fst f) = Inr \<lparr> it_FileName = fst f,
      it_DAGRun = \<lparr> dr_Name = name, dr_ID = ident \<rparr>, it_QueuedAt = file_time f \<rparr>"
    by (simp add: parseQueueFileName_def m time_parse_string [OF v(1,2)] num_pad [OF v(3)])
qed

lemma high_low_names:
  "isHighQueueFileName (queueFileName ''high_'' i t)" "\<not> isLowQueueFileName (queueFileName ''high_'' i t)"
  "isLowQueueFileName (queueFileName ''low_'' i t)" "\<not> isHighQueueFileName (queueFileName ''low_'' i t)"
proof -
  have "has_suffix (queueFileName pr i t) ''.json''" for pr
    using has_suffix_append [of "itemPrefix @ pr @ date_string t @ ''_'' @ clock_string t @ ''_''
      @ pad 9 (u_nanos t) @ ''Z_'' @ i" "''.json''"]
    unfolding queueFileName_shape append_assoc .
  moreover have "has_prefix (queueFileName ''high_'' i t) ''item_high_''"
    "\<not> has_prefix (queueFileName ''high_'' i t) ''item_low_''"
    "has_prefix (queueFileName ''low_'' i t) ''item_low_''"
    "\<not> has_prefix (queueFileName ''low_'' i t) ''item_high_''"
    by (simp_all add: has_prefix_def queueFileName_shape itemPrefix_def)
  ultimately show "isHighQueueFileName (queueFileName ''high_'' i t)"
    "\<not> isLowQueueFileName (queueFileName ''high_'' i t)"
    "isLowQueueFileName (queueFileName ''low_'' i t)" "\<not> isHighQueueFileName (queueFileName ''low_'' i t)"
    by (simp_all add: isHighQueueFileName_def isLowQueueFileName_def)
qed

lemma file_ok_high_low:
  assumes "file_ok f"
  shows "isHighQueueFileName (fst f) \<longleftrightarrow> queue_match ''high_'' (fst f)"
    "\<not> isHighQueueFileName (fst f) \<and> isLowQueueFileName (fst f) \<longleftrightarrow> queue_match ''low_'' (fst f)"
proof -
  obtain pr run where f: "is_prio pr" "clean_id (dr_ID run)" "valid_utc (file_time f)"
    "fst f = queueFileName pr (dr_ID run) (file_time f)"
    "snd f = Inr \<lparr> it_FileName = fst f, it_DAGRun = run, it_QueuedAt = file_time f \<rparr>"
    by (rule file_okE [OF assms])
  note m = match_name [OF f(1,3,2), folded f(4)]
  have "isHighQueueFileName (fst f) \<longleftrightarrow> pr = ''high_''" "isLowQueueFileName (fst f) \<longleftrightarrow> pr = ''low_''"
    using f(1) high_low_names unfolding f(4) is_prio_def by auto
  moreover have "queue_match q (fst f) \<longleftrightarrow> q = pr" for q by (auto simp: queue_match_def m)
  ultimately show "isHighQueueFileName (fst f) \<longleftrightarrow> queue_match ''high_'' (fst f)"
    "\<not> isHighQueueFileName (fst f) \<and> isLowQueueFileName (fst f) \<longleftrightarrow> queue_match ''low_'' (fst f)"
    using f(1) by (auto simp: is_prio_def)
qed

lemma file_ok_id:
  assumes "file_ok f"
  shows "fst f = queueItemIDFromFileName (fst f) @ ''.json''"
proof -
  obtain pr run where f: "is_prio pr" "clean_id (dr_ID run)" "valid_utc (file_time f)"
    "fst f = queueFileName pr (dr_ID run) (file_time f)"
    "snd f = Inr \<lparr> it_FileName = fst f, it_DAGRun = run, it_QueuedAt = file_time f \<rparr>"
    by (rule file_okE [OF assms])
  have "CHR ''/'' \<notin> set (fst f)" unfolding f(4)
    using f(1,2) by (intro queueFileName_chars) (auto simp: clean_id_def is_prio_def)
  moreover obtain s where s: "fst f = s @ ''.json''"
    unfolding f(4) queueFileName_shape by (metis append_assoc)
  ultimately show ?thesis using queueItemID_json [of s] by auto
qed

section \<open>Lists of files\<close>

lemma put_file_sorted:
  "sorted_wrt (<) (map fst fs) \<Longrightarrow> sorted_wrt (<) (map fst (put_file n c fs))
   \<and> fst ` set (put_file n c fs) = insert n (fst ` set fs)"
proof (induction n c fs rule: put_file.induct)
  case (2 n c m d fs)
  then show ?case by (cases "n = m"; cases "n < m") auto
qed simp

lemma set_put_file: "set (put_file n c fs) \<subseteq> insert (n, c) (set fs)"
  by (induction n c fs rule: put_file.induct) auto

lemma filter_put_file_last:
  assumes "P n"
  shows "sorted_wrt (<) (map fst fs) \<Longrightarrow> \<forall>f \<in> set fs. P (fst f) \<longrightarrow> fst f < n \<Longrightarrow>
    filter (\<lambda>f. P (fst f)) (put_file n c fs) = filter (\<lambda>f. P (fst f)) fs @ [(n, c)]"
proof (induction fs)
  case (Cons f fs)
  obtain m d where f: "f = (m, d)" by fastforce
  have rest: "filter (\<lambda>f. P (fst f)) fs = []" "\<not> P m" if "n < m"
    using Cons.prems that f by (force simp: filter_empty_conv)+
  have "n \<noteq> m" using Cons.prems(2) assms f by auto
  then show ?case using Cons f rest assms by auto
qed (use assms in simp)

lemma filter_put_file_other:
  "\<not> P n \<Longrightarrow> filter (\<lambda>f. P (fst f)) (put_file n c fs) = filter (\<lambda>f. P (fst f)) fs"
  by (induction fs) auto

lemma files_of_del: "files_of pr (d\<lparr>qd_files := del_file n (qd_files d)\<rparr>) =
    filter (\<lambda>f. fst f \<noteq> n) (files_of pr d)"
  by (simp add: files_of_def del_file_def conj_commute)

lemma sorted_wrt_filter_sub:
  "sorted_wrt R xs \<Longrightarrow> sorted_wrt R (filter P xs)"
  by (induction xs) auto

lemma names_distinct: "files_inv d \<Longrightarrow> distinct (map fst (qd_files d))"
  by (simp add: files_inv_def strict_sorted_iff)

lemma files_inv_ok: "files_inv d \<Longrightarrow> f \<in> set (qd_files d) \<Longrightarrow> file_ok f"
  by (simp add: files_inv_def)

section \<open>Listing is in order\<close>

lemma sort_ok_unique:
  assumes "sort_ok srt" "sorted_wrt (\<lambda>a b. utc_before (it_QueuedAt (snd a)) (it_QueuedAt (snd b))) xs"
  shows "srt xs = xs"
proof -
  let ?k = "\<lambda>a :: queued_item. utc_rank (it_QueuedAt (snd a))"
  have m: "mset (srt xs) = mset xs" and s: "sorted (map ?k (srt xs))"
    using assms(1) by (auto simp: sort_ok_def sorted_wrt_map utc_before_def not_less)
  have sx: "sorted_wrt (<) (map ?k xs)" using assms(2) by (simp add: sorted_wrt_map utc_before_def)
  then have dx: "sorted (map ?k xs)" "distinct (map ?k xs)" by (simp_all add: strict_sorted_iff)
  have "mset (map ?k (srt xs)) = mset (map ?k xs)" using m by simp
  from properties_for_sort [OF this s] sorted_sort_id [OF dx(1)]
  have e: "map ?k (srt xs) = map ?k xs" by simp
  have set: "set (srt xs) = set xs" using m by (rule mset_eq_setD)
  have "inj_on ?k (set (srt xs) \<union> set xs)" using dx(2) by (simp add: distinct_map set)
  then show ?thesis by (rule map_inj_on [OF e])
qed

lemma parsed_items_ok:
  "\<forall>f \<in> set fs. file_ok f \<Longrightarrow>
   map fst (parsed_items pr name fs) = map fst (filter (\<lambda>f. queue_match pr (fst f)) fs)
   \<and> map (it_QueuedAt \<circ> snd) (parsed_items pr name fs) = map file_time (filter (\<lambda>f. queue_match pr (fst f)) fs)"
proof (induction fs)
  case (Cons f fs)
  obtain n c where f: "f = (n, c)" by fastforce
  have "file_ok f" using Cons.prems by simp
  from file_ok_match(2) [OF this, of name] Cons f show ?case by auto
qed simp

lemma listItems_ok:
  assumes "files_inv d" "sort_ok (qio_sort io)" "is_prio pr"
  shows "map fst (listItems io pr name d) = names_of pr d"
proof -
  have ok: "\<forall>f \<in> set (qd_files d). file_ok f" using assms(1) by (simp add: files_inv_def)
  note p = parsed_items_ok [OF ok, of pr name, folded files_of_def]
  have "sorted_wrt (\<lambda>f g. utc_before (file_time f) (file_time g)) (files_of pr d)"
    using assms(1,3) by (simp add: files_inv_def)
  then have "sorted_wrt utc_before (map file_time (files_of pr d))" by (simp add: sorted_wrt_map)
  then have "sorted_wrt utc_before (map (it_QueuedAt \<circ> snd) (parsed_items pr name (qd_files d)))"
    using p by simp
  then have "listItems io pr name d = parsed_items pr name (qd_files d)"
    unfolding listItems_def by (intro sort_ok_unique [OF assms(2)]) (simp add: sorted_wrt_map)
  with p show ?thesis by simp
qed

section \<open>Popping\<close>

lemma listItems_Nil: "files_inv d \<Longrightarrow> io_ok io \<Longrightarrow> is_prio pr \<Longrightarrow> files_of pr d = [] \<Longrightarrow>
    listItems io pr name d = []"
  using listItems_ok [of d io pr name] by (simp add: io_ok_def)

lemma listItems_Cons:
  assumes "files_inv d" "io_ok io" "is_prio pr" "files_of pr d = f # fs"
  shows "\<exists>item items. listItems io pr name d = (fst f, item) # items"
proof -
  have "map fst (listItems io pr name d) = fst f # map fst fs"
    using listItems_ok [of d io pr name] assms by (simp add: io_ok_def)
  then show ?thesis by (cases "listItems io pr name d") auto
qed

lemma Pop_none:
  "files_inv d \<Longrightarrow> io_ok io \<Longrightarrow> is_prio pr \<Longrightarrow> files_of pr d = [] \<Longrightarrow>
   Pop io pr name d = (Inl ErrQueueFileEmpty, d)"
  by (simp add: Pop_def listItems_Nil)

lemma Pop_first:
  assumes "files_inv d" "io_ok io" "is_prio pr" "files_of pr d = f # fs"
  shows "Pop io pr name d = (Inr (job_of f), d\<lparr>qd_files := del_file (fst f) (qd_files d)\<rparr>)"
proof -
  obtain item items where l: "listItems io pr name d = (fst f, item) # items"
    using listItems_Cons [OF assms] by blast
  have "f \<in> set (files_of pr d)" using assms(4) by simp
  then have f: "f \<in> set (qd_files d)" by (simp add: files_of_def)
  then have e: "qd_exists d" using assms(1) by (auto simp: files_inv_def)
  have m: "map_of (qd_files d) (fst f) = Some (snd f)"
    using f names_distinct [OF assms(1)] by (metis map_of_is_SomeI prod.collapse)
  obtain data where "snd f = Inr data"
    using files_inv_ok [OF assms(1) f] by (auto simp: file_ok_def)
  with e l m assms(2) show ?thesis by (simp add: Pop_def ExtractJob_def io_ok_def job_of_def)
qed

lemma files_inv_del:
  assumes "files_inv d"
  shows "files_inv (d\<lparr>qd_files := del_file n (qd_files d)\<rparr>)"
proof -
  have "sorted_wrt (<) (map fst (del_file n (qd_files d)))"
    using assms sorted_wrt_filter_sub [of "\<lambda>f g. fst f < fst g" "qd_files d" "\<lambda>f. fst f \<noteq> n"]
    by (simp add: files_inv_def del_file_def sorted_wrt_map)
  moreover have "sorted_wrt (\<lambda>f g. utc_before (file_time f) (file_time g))
      (files_of pr (d\<lparr>qd_files := del_file n (qd_files d)\<rparr>))" if "is_prio pr" for pr
    using assms that unfolding files_of_del by (intro sorted_wrt_filter_sub) (simp add: files_inv_def)
  ultimately show ?thesis using assms unfolding files_inv_def by (simp add: del_file_def)
qed

lemma files_of_del_first:
  assumes "files_inv d" "files_of pr d = f # fs" "is_prio pr" "is_prio q" "pr \<noteq> q"
  shows "files_of pr (d\<lparr>qd_files := del_file (fst f) (qd_files d)\<rparr>) = fs"
    and "files_of q (d\<lparr>qd_files := del_file (fst f) (qd_files d)\<rparr>) = files_of q d"
proof -
  have dist: "distinct (names_of r d)" for r
    unfolding files_of_def using names_distinct [OF assms(1)] by (simp add: distinct_map_filter)
  have "fst f \<notin> fst ` set fs" using dist [of pr] assms(2) by simp
  then have "\<forall>g \<in> set fs. fst g \<noteq> fst f" by (metis imageI)
  then show "files_of pr (d\<lparr>qd_files := del_file (fst f) (qd_files d)\<rparr>) = fs"
    unfolding files_of_del assms(2) by simp
  have "f \<in> set (files_of pr d)" using assms(2) by simp
  then have f: "f \<in> set (qd_files d)" "queue_match pr (fst f)" by (simp_all add: files_of_def)
  obtain p where p: "\<And>q. queue_match q (fst f) \<longleftrightarrow> q = p"
    using file_ok_match(1) [OF files_inv_ok [OF assms(1) f(1)]] by blast
  have "\<not> queue_match q (fst f)" using f(2) assms(5) by (simp add: p)
  then show "files_of q (d\<lparr>qd_files := del_file (fst f) (qd_files d)\<rparr>) = files_of q d"
    unfolding files_of_del by (auto simp: files_of_def intro!: filter_cong)
qed

section \<open>The index follows\<close>

text \<open>The index on disk and in memory lists \<open>h\<close> and \<open>l\<close>, whatever the files are by now.\<close>

definition index_lists :: "string list \<Rightarrow> string list \<Rightarrow> queue_index \<Rightarrow> bool" where
  "index_lists h l idx \<longleftrightarrow> qi_Version idx = queueIndexVersion \<and> qi_High idx = h \<and> qi_Low idx = l"

definition index_for :: "string list \<Rightarrow> string list \<Rightarrow> queue_dir \<Rightarrow> bool" where
  "index_for h l d \<longleftrightarrow> (\<forall>content m. qd_index d = Some (content, m) \<longrightarrow>
     (\<exists>idx. content = Some idx \<and> index_lists h l idx)
     \<and> (\<forall>idx. qd_cache d = Some (idx, m) \<longrightarrow> index_lists h l idx))"

lemma index_inv_for: "index_inv d \<longleftrightarrow> index_for (names_of ''high_'' d) (names_of ''low_'' d) d"
  by (simp add: index_inv_def index_for_def index_matches_def index_lists_def)

lemma ensureDefaults_lists: "index_lists h l idx \<Longrightarrow> index_lists h l (ensureDefaults now idx)"
  by (simp add: index_lists_def ensureDefaults_def queueIndexVersion_def)

text \<open>Only the index fields may differ.\<close>

definition same_files :: "queue_dir \<Rightarrow> queue_dir \<Rightarrow> bool" where
  "same_files d d' \<longleftrightarrow> qd_files d' = qd_files d \<and> qd_locked d' = qd_locked d
     \<and> (qd_exists d \<longrightarrow> qd_exists d')"

lemma same_files_names: "same_files d d' \<Longrightarrow> files_of pr d' = files_of pr d"
  by (simp add: same_files_def files_of_def)

lemma save_index:
  assumes "io_ok io" "index_lists h l idx" "qd_exists d"
  shows "\<exists>d'. saveQueueIndex io idx d = (None, d') \<and> same_files d d' \<and> index_for h l d'"
proof (cases "index_total idx = 0")
  case True
  with assms show ?thesis by (simp add: saveQueueIndex_def io_ok_def same_files_def index_for_def)
next
  case False
  with assms ensureDefaults_lists [OF assms(2)] show ?thesis
    by (simp add: saveQueueIndex_def io_ok_def same_files_def index_for_def Let_def)
qed

lemma rebuild_index:
  assumes "files_inv d" "io_ok io" "qd_exists d"
  shows "\<exists>idx d'. rebuildQueueIndex io d = (Inr idx, d') \<and> same_files d d'
    \<and> index_lists (names_of ''high_'' d) (names_of ''low_'' d) idx
    \<and> index_for (names_of ''high_'' d) (names_of ''low_'' d) d'"
proof -
  have ok: "\<forall>f \<in> set (qd_files d). file_ok f" using assms(1) by (simp add: files_inv_def)
  have names: "filter isHighQueueFileName (map fst (qd_files d)) = names_of ''high_'' d"
    "filter (\<lambda>n. \<not> isHighQueueFileName n \<and> isLowQueueFileName n) (map fst (qd_files d)) = names_of ''low_'' d"
    unfolding files_of_def filter_map comp_def
    by (rule arg_cong [of _ _ "map fst"], rule filter_cong, rule refl, rule file_ok_high_low, simp add: ok)+
  have "sorted (map fst (qd_files d))" using assms(1) by (simp add: files_inv_def strict_sorted_iff)
  then have "sort (names_of pr d) = names_of pr d" for pr
    unfolding files_of_def by (intro sorted_sort_id sorted_filter)
  then have i: "index_lists (names_of ''high_'' d) (names_of ''low_'' d) ((newQueueReadIndex (qio_now io))
      \<lparr>qi_High := sort (filter isHighQueueFileName (map fst (qd_files d))),
       qi_Low := sort (filter (\<lambda>n. \<not> isHighQueueFileName n \<and> isLowQueueFileName n) (map fst (qd_files d)))\<rparr>)"
    by (simp add: names index_lists_def newQueueReadIndex_def)
  from save_index [OF assms(2) i assms(3)] i assms show ?thesis
    by (auto simp: rebuildQueueIndex_def io_ok_def Let_def)
qed

lemma load_index:
  assumes "files_inv d" "io_ok io" "index_for h l d" "qd_exists d"
  shows "\<exists>idx d'. loadOrRebuildQueueIndex io d = (Inr idx, d') \<and> same_files d d'
    \<and> (index_lists h l idx \<and> index_for h l d'
      \<or> index_lists (names_of ''high_'' d) (names_of ''low_'' d) idx
        \<and> index_for (names_of ''high_'' d) (names_of ''low_'' d) d')"
proof (cases "qd_index d")
  case None
  with assms rebuild_index [OF assms(1,2,4)] show ?thesis
    by (auto simp: loadOrRebuildQueueIndex_def io_ok_def)
next
  case (Some im)
  then obtain idx m where i: "qd_index d = Some (Some idx, m)" "index_lists h l idx"
    and c: "\<And>ci. qd_cache d = Some (ci, m) \<Longrightarrow> index_lists h l ci"
    using assms(3) by (cases im) (auto simp: index_for_def)
  have v: "qi_Version idx = queueIndexVersion" using i(2) by (simp add: index_lists_def)
  show ?thesis
  proof (cases "\<exists>ci. qd_cache d = Some (ci, m)")
    case True
    then obtain ci where ci: "qd_cache d = Some (ci, m)" by blast
    with assms i c show ?thesis by (simp add: loadOrRebuildQueueIndex_def io_ok_def same_files_def)
  next
    case False
    let ?i = "ensureDefaults (qio_now io) idx"
    have "loadOrRebuildQueueIndex io d = (Inr ?i, d\<lparr>qd_cache := Some (?i, m)\<rparr>)"
      using assms(2,4) i(1) v False
      by (cases "qd_cache d") (auto simp: loadOrRebuildQueueIndex_def io_ok_def)
    moreover have "index_for h l (d\<lparr>qd_cache := Some (?i, m)\<rparr>)" "index_lists h l ?i"
      using i ensureDefaults_lists [OF i(2)] by (simp_all add: index_for_def)
    ultimately show ?thesis by (simp add: same_files_def)
  qed
qed

lemma refresh_index_ok:
  assumes "files_inv d" "io_ok io" "index_for h l d" "qd_exists d"
    and "\<And>idx. index_lists h l idx \<or> index_lists (names_of ''high_'' d) (names_of ''low_'' d) idx \<Longrightarrow>
      index_lists (names_of ''high_'' d) (names_of ''low_'' d) (change idx)"
  shows "same_files d (refresh_index io change d) \<and> index_inv (refresh_index io change d)"
proof -
  obtain idx d1 where l: "loadOrRebuildQueueIndex io d = (Inr idx, d1)" "same_files d d1"
    and i: "index_lists h l idx \<or> index_lists (names_of ''high_'' d) (names_of ''low_'' d) idx"
    using load_index [OF assms(1-4)] by blast
  have "qd_exists d1" using l(2) assms(4) by (simp add: same_files_def)
  from save_index [OF assms(2) assms(5) [OF i] this] obtain d2 where
    s: "saveQueueIndex io (change idx) d1 = (None, d2)" "same_files d1 d2"
      "index_for (names_of ''high_'' d) (names_of ''low_'' d) d2" by blast
  have sf: "same_files d d2" using l(2) s(2) by (simp add: same_files_def)
  with s(3) l(1) s(1) show ?thesis by (simp add: refresh_index_def index_inv_for same_files_names)
qed

section \<open>Dequeueing\<close>

lemma files_inv_filter:
  assumes "files_inv d"
  shows "files_inv (d\<lparr>qd_files := filter P (qd_files d)\<rparr>)"
    and "files_of pr (d\<lparr>qd_files := filter P (qd_files d)\<rparr>) = filter P (files_of pr d)"
proof -
  show fo: "files_of pr (d\<lparr>qd_files := filter P (qd_files d)\<rparr>) = filter P (files_of pr d)" for pr
    by (auto simp: files_of_def intro!: filter_cong)
  have "sorted_wrt (<) (map fst (filter P (qd_files d)))"
    using assms sorted_wrt_filter_sub [of "\<lambda>f g. fst f < fst g" "qd_files d" P]
    by (simp add: files_inv_def sorted_wrt_map)
  moreover have "sorted_wrt (\<lambda>f g. utc_before (file_time f) (file_time g))
      (files_of pr (d\<lparr>qd_files := filter P (qd_files d)\<rparr>))" if "is_prio pr" for pr
    using assms that unfolding fo by (intro sorted_wrt_filter_sub) (simp add: files_inv_def)
  ultimately show "files_inv (d\<lparr>qd_files := filter P (qd_files d)\<rparr>)" using assms unfolding files_inv_def by simp
qed

lemma remove_ids_lists:
  assumes "index_lists h l idx" "distinct (item_ids h)" "distinct (item_ids l)" "[] \<notin> set xs"
  shows "index_lists (filter (\<lambda>n. queueItemIDFromFileName n \<notin> set xs) h)
    (filter (\<lambda>n. queueItemIDFromFileName n \<notin> set xs) l) (remove_ids now xs idx)"
  using assms
proof (induction xs arbitrary: idx h l)
  case (Cons x xs)
  let ?i = "snd (removeItemID now x idx)"
  have i: "index_lists (filter (\<lambda>n. queueItemIDFromFileName n \<noteq> x) h)
      (filter (\<lambda>n. queueItemIDFromFileName n \<noteq> x) l) ?i"
    using removeItemID_filter [of idx x now] Cons.prems by (auto simp: index_lists_def)
  from Cons.IH [OF i] Cons.prems show ?case
    by (simp add: remove_ids_def distinct_map_filter conj_commute)
qed (simp add: remove_ids_def)

lemma item_ids_inj:
  assumes "files_inv d" "f \<in> set (qd_files d)" "g \<in> set (qd_files d)"
    "queueItemIDFromFileName (fst f) = queueItemIDFromFileName (fst g)"
  shows "f = g"
proof -
  have "fst f = fst g"
    using file_ok_id [OF files_inv_ok [OF assms(1,2)]] file_ok_id [OF files_inv_ok [OF assms(1,3)]] assms(4)
    by simp
  then show ?thesis using names_distinct [OF assms(1)] assms(2,3) by (auto simp: distinct_map inj_on_def)
qed

lemma item_ids_distinct: "files_inv d \<Longrightarrow> distinct (item_ids (names_of pr d))"
proof -
  assume inv: "files_inv d"
  have "inj_on (queueItemIDFromFileName \<circ> fst) (set (qd_files d))"
    using item_ids_inj [OF inv] by (auto simp: inj_on_def)
  then have "inj_on (queueItemIDFromFileName \<circ> fst) (set (files_of pr d))"
    by (rule inj_on_subset) (auto simp: files_of_def)
  moreover have "distinct (files_of pr d)"
    using names_distinct [OF inv] by (simp add: files_of_def distinct_map)
  ultimately show ?thesis by (simp add: distinct_map comp_def)
qed

lemma item_id_nonempty: "file_ok f \<Longrightarrow> queueItemIDFromFileName (fst f) \<noteq> []"
proof
  assume f: "file_ok f" and "queueItemIDFromFileName (fst f) = []"
  then have "fst f = ''.json''" using file_ok_id [OF f] by simp
  moreover have "take 1 (fst f) = ''i''"
    using f by (auto simp: file_ok_def queueFileName_shape itemPrefix_def)
  ultimately show False by simp
qed

lemma index_remove_where:
  assumes "files_inv d"
    and d': "d' = d\<lparr>qd_files := filter (\<lambda>f. \<not> P f) (qd_files d)\<rparr>"
    and xs: "set xs = (queueItemIDFromFileName \<circ> fst) ` {f \<in> set (qd_files d). P f}"
    and idx: "index_lists (names_of ''high_'' d) (names_of ''low_'' d) idx
      \<or> index_lists (names_of ''high_'' d') (names_of ''low_'' d') idx"
  shows "index_lists (names_of ''high_'' d') (names_of ''low_'' d') (remove_ids now xs idx)"
proof -
  have ne: "[] \<notin> set xs" using item_id_nonempty files_inv_ok [OF assms(1)] by (force simp: xs)
  have mem: "queueItemIDFromFileName (fst f) \<in> set xs \<longleftrightarrow> P f" if "f \<in> set (qd_files d)" for f
    using item_ids_inj [OF assms(1) that] that by (auto simp: xs)
  have sub: "set (files_of pr d) \<subseteq> set (qd_files d)" for pr by (auto simp: files_of_def)
  have fo: "files_of pr d' = filter (\<lambda>f. \<not> P f) (files_of pr d)" for pr
    unfolding d' by (rule files_inv_filter(2) [OF assms(1)])
  have names': "filter (\<lambda>n. queueItemIDFromFileName n \<notin> set xs) (names_of pr d) = names_of pr d'" for pr
    unfolding fo filter_map comp_def using mem sub [of pr] by (intro arg_cong [of _ _ "map fst"] filter_cong) auto
  have idem: "filter (\<lambda>n. queueItemIDFromFileName n \<notin> set xs) (names_of pr d') = names_of pr d'" for pr
    unfolding names' [symmetric] by (simp add: filter_id_conv)
  have dist: "distinct (item_ids (names_of pr d))" "distinct (item_ids (names_of pr d'))" for pr
    using item_ids_distinct assms(1) files_inv_filter(1) [OF assms(1)] unfolding d' by blast+
  from idx show ?thesis
  proof
    assume "index_lists (names_of ''high_'' d) (names_of ''low_'' d) idx"
    from remove_ids_lists [OF this dist(1) dist(1) ne] show ?thesis unfolding names' .
  next
    assume "index_lists (names_of ''high_'' d') (names_of ''low_'' d') idx"
    from remove_ids_lists [OF this dist(2) dist(2) ne] show ?thesis unfolding idem .
  qed
qed

lemma index_remove:
  assumes "files_inv d" "f \<in> set (qd_files d)"
    and idx: "index_lists (names_of ''high_'' d) (names_of ''low_'' d) idx
      \<or> index_lists (names_of ''high_'' d') (names_of ''low_'' d') idx"
    and d': "d' = d\<lparr>qd_files := del_file (fst f) (qd_files d)\<rparr>"
  shows "index_lists (names_of ''high_'' d') (names_of ''low_'' d')
    (snd (removeItemID now (queueItemIDFromFileName (fst f)) idx))"
proof -
  have d2: "d' = d\<lparr>qd_files := filter (\<lambda>g. \<not> fst g = fst f) (qd_files d)\<rparr>" by (simp add: d' del_file_def)
  have xs: "set [queueItemIDFromFileName (fst f)] =
      (queueItemIDFromFileName \<circ> fst) ` {g \<in> set (qd_files d). fst g = fst f}"
    using assms(2) by auto
  from index_remove_where [OF assms(1) d2 xs idx] show ?thesis by (simp add: remove_ids_def)
qed

lemma store_inv_locked:
  assumes "store_inv d"
  shows "files_inv (lock_dir_of d)" "index_inv (lock_dir_of d)" "qd_exists (lock_dir_of d)"
    "files_of pr (lock_dir_of d) = files_of pr d"
  using assms by (simp_all add: store_inv_def files_inv_def index_inv_def index_matches_def files_of_def
      lock_dir_of_def)

lemma store_inv_unlocked:
  assumes "files_inv d" "index_inv d"
  shows "store_inv (unlock_dir_of d)" "files_of pr (unlock_dir_of d) = files_of pr d"
  using assms by (simp_all add: store_inv_def files_inv_def index_inv_def index_matches_def files_of_def
      unlock_dir_of_def)

lemma files_inv_same: "same_files d d' \<Longrightarrow> qd_exists d \<Longrightarrow> files_inv d \<Longrightarrow> files_inv d'"
  by (simp add: files_inv_def same_files_def files_of_def)

lemma take_file:
  assumes "store_inv d" "io_ok io" "is_prio pr" "files_of pr d = f # fs" "is_prio q" "pr \<noteq> q"
    and d1: "d1 = (lock_dir_of d)\<lparr>qd_files := del_file (fst f) (qd_files d)\<rparr>"
    and r: "r = unlock_dir_of (refresh_index io (\<lambda>idx. snd (removeItemID (qio_now io)
      (queueItemIDFromFileName (fst f)) idx)) d1)"
  shows "store_inv r \<and> files_of pr r = fs \<and> files_of q r = files_of q d"
proof -
  let ?d0 = "lock_dir_of d"
  note l = store_inv_locked [OF assms(1)]
  have d1': "d1 = ?d0\<lparr>qd_files := del_file (fst f) (qd_files ?d0)\<rparr>" by (simp add: d1 lock_dir_of_def)
  have "f \<in> set (files_of pr d)" using assms(4) by simp
  then have f: "f \<in> set (qd_files ?d0)" by (simp add: files_of_def lock_dir_of_def)
  have inv1: "files_inv d1" unfolding d1' using l(1) by (rule files_inv_del)
  have e1: "qd_exists d1" by (simp add: d1 lock_dir_of_def)
  have "index_for (names_of ''high_'' ?d0) (names_of ''low_'' ?d0) d1"
    using l(2) by (simp add: index_inv_for index_for_def d1')
  then have ref: "same_files d1 (refresh_index io (\<lambda>idx. snd (removeItemID (qio_now io)
      (queueItemIDFromFileName (fst f)) idx)) d1) \<and> index_inv (refresh_index io (\<lambda>idx. snd (removeItemID (qio_now io)
      (queueItemIDFromFileName (fst f)) idx)) d1)"
    by (rule refresh_index_ok [OF inv1 assms(2) _ e1]) (rule index_remove [OF l(1) f _ d1'])
  then have "store_inv r" unfolding r using files_inv_same [OF _ e1 inv1] store_inv_unlocked(1) by blast
  moreover have "files_of pr d1 = fs" "files_of q d1 = files_of q ?d0"
    unfolding d1' using files_of_del_first [OF l(1) _ assms(3,5,6), of f fs] assms(4) l(4) by simp_all
  moreover have "files_of p r = files_of p d1" for p
    unfolding r using ref by (simp add: files_of_def unlock_dir_of_def same_files_def)
  ultimately show ?thesis using l(4) by simp
qed

lemma is_prio_simps [simp]: "is_prio ''high_''" "is_prio ''low_''"
  by (simp_all add: is_prio_def)

lemma DequeueByName_high:
  assumes "store_inv d" "io_ok io" "files_of ''high_'' d = f # fs"
  shows "\<exists>r. DequeueByName io name d = (Inr (job_of f), r) \<and> store_inv r
    \<and> files_of ''high_'' r = fs \<and> files_of ''low_'' r = files_of ''low_'' d"
proof -
  note l = store_inv_locked [OF assms(1)]
  have "Pop io ''high_'' name (lock_dir_of d) = (Inr (job_of f),
      (lock_dir_of d)\<lparr>qd_files := del_file (fst f) (qd_files d)\<rparr>)"
    using Pop_first [OF l(1) assms(2)] l(4) assms(3) by (simp add: lock_dir_of_def)
  with take_file [OF assms(1,2) is_prio_simps(1) assms(3) is_prio_simps(2) _ refl refl] assms(2)
  show ?thesis by (simp add: DequeueByName_def dual_Dequeue_def io_ok_def job_of_def)
qed

lemma DequeueByName_low:
  assumes "store_inv d" "io_ok io" "files_of ''high_'' d = []" "files_of ''low_'' d = f # fs"
  shows "\<exists>r. DequeueByName io name d = (Inr (job_of f), r) \<and> store_inv r
    \<and> files_of ''high_'' r = [] \<and> files_of ''low_'' r = fs"
proof -
  note l = store_inv_locked [OF assms(1)]
  have "Pop io ''high_'' name (lock_dir_of d) = (Inl ErrQueueFileEmpty, lock_dir_of d)"
    using Pop_none [OF l(1) assms(2)] l(4) assms(3) by simp
  moreover have "Pop io ''low_'' name (lock_dir_of d) = (Inr (job_of f),
      (lock_dir_of d)\<lparr>qd_files := del_file (fst f) (qd_files d)\<rparr>)"
    using Pop_first [OF l(1) assms(2)] l(4) assms(4) by (simp add: lock_dir_of_def)
  ultimately show ?thesis
    using take_file [OF assms(1,2) is_prio_simps(2) assms(4) is_prio_simps(1) _ refl refl] assms(2,3)
    by (simp add: DequeueByName_def dual_Dequeue_def io_ok_def job_of_def)
qed

lemma DequeueByName_empty:
  assumes "store_inv d" "io_ok io" "files_of ''high_'' d = []" "files_of ''low_'' d = []"
  shows "\<exists>r. DequeueByName io name d = (Inl exec_ErrQueueEmpty, r) \<and> store_inv r
    \<and> files_of ''high_'' r = [] \<and> files_of ''low_'' r = []"
proof -
  note l = store_inv_locked [OF assms(1)]
  have "Pop io pr name (lock_dir_of d) = (Inl ErrQueueFileEmpty, lock_dir_of d)" if "is_prio pr" for pr
    using Pop_none [OF l(1) assms(2) that] l(4) assms(3,4) that by (auto simp: is_prio_def)
  moreover have "remove_dir (lock_dir_of d) = lock_dir_of d" by (simp add: remove_dir_def lock_dir_of_def)
  ultimately show ?thesis
    using assms store_inv_unlocked [OF l(1,2)] l(4)
    by (simp add: DequeueByName_def dual_Dequeue_def io_ok_def)
qed

section \<open>Enqueueing\<close>

definition later :: "qio \<Rightarrow> string \<Rightarrow> dag_run_ref \<Rightarrow> queue_dir \<Rightarrow> bool" where
  "later io pr run d \<longleftrightarrow> clean_id (dr_ID run)
     \<and> (\<forall>f \<in> set (files_of pr d). utc_before (file_time f) (qio_time io))"

definition new_file :: "qio \<Rightarrow> string \<Rightarrow> dag_run_ref \<Rightarrow> string \<times> item_file" where
  "new_file io pr run =
     (let n = queueFileName pr (dr_ID run) (qio_time io)
      in (n, Inr \<lparr> it_FileName = n, it_DAGRun = run, it_QueuedAt = qio_time io \<rparr>))"

lemma new_file_ok:
  assumes "io_ok io" "is_prio pr" "clean_id (dr_ID run)"
  shows "file_ok (new_file io pr run)" "file_time (new_file io pr run) = qio_time io"
    "queue_match q (fst (new_file io pr run)) \<longleftrightarrow> q = pr"
proof -
  show "file_ok (new_file io pr run)"
    unfolding file_ok_def new_file_def Let_def using assms by (auto simp: io_ok_def)
  show "file_time (new_file io pr run) = qio_time io" by (simp add: new_file_def file_time_def Let_def)
  have "valid_utc (qio_time io)" using assms(1) by (simp add: io_ok_def)
  from match_name [OF assms(2) this assms(3)] show "queue_match q (fst (new_file io pr run)) \<longleftrightarrow> q = pr"
    by (auto simp: queue_match_def new_file_def Let_def)
qed

lemma push_files:
  assumes "files_inv d" "io_ok io" "is_prio pr" "later io pr run d"
    and d': "d' = d\<lparr>qd_exists := True, qd_files :=
      put_file (fst (new_file io pr run)) (snd (new_file io pr run)) (qd_files d)\<rparr>"
  shows "files_of pr d' = files_of pr d @ [new_file io pr run]"
    "q \<noteq> pr \<Longrightarrow> files_of q d' = files_of q d" "files_inv d'"
proof -
  let ?f = "new_file io pr run"
  have cl: "clean_id (dr_ID run)" using assms(4) by (simp add: later_def)
  note new = new_file_ok [OF assms(2,3) cl]
  have srt: "sorted_wrt (<) (map fst (qd_files d))" using assms(1) by (simp add: files_inv_def)
  have less: "fst g < fst ?f" if g: "g \<in> set (qd_files d)" "queue_match pr (fst g)" for g
  proof -
    obtain p run' where p: "is_prio p" "clean_id (dr_ID run')" "valid_utc (file_time g)"
      "fst g = queueFileName p (dr_ID run') (file_time g)"
      "snd g = Inr \<lparr> it_FileName = fst g, it_DAGRun = run', it_QueuedAt = file_time g \<rparr>"
      by (rule file_okE [OF files_inv_ok [OF assms(1) g(1)]])
    have "p = pr" using g(2) match_name [OF p(1,3,2), folded p(4)] by (simp add: queue_match_def)
    moreover have "utc_before (file_time g) (qio_time io)"
      using assms(4) g by (cases g) (simp add: later_def files_of_def)
    moreover have "valid_utc (qio_time io)" using assms(2) by (simp add: io_ok_def)
    ultimately show ?thesis using queueFileName_less [OF p(3)] p(4) by (simp add: new_file_def Let_def)
  qed
  show pr: "files_of pr d' = files_of pr d @ [?f]"
    using filter_put_file_last [of "queue_match pr" "fst ?f" "qd_files d" "snd ?f"] srt less new(3)
    by (simp add: files_of_def d')
  have other: "files_of q d' = files_of q d" if "q \<noteq> pr" for q
    using filter_put_file_other [of "queue_match q" "fst ?f" "snd ?f" "qd_files d"] new(3) that
    by (simp add: files_of_def d')
  then show "q \<noteq> pr \<Longrightarrow> files_of q d' = files_of q d" by blast
  have "sorted_wrt (\<lambda>f g. utc_before (file_time f) (file_time g)) (files_of q d')" if "is_prio q" for q
    using pr other [of q] assms(1,4) that new(2)
    by (cases "q = pr") (auto simp: files_inv_def sorted_wrt_append later_def)
  moreover have "sorted_wrt (<) (map fst (qd_files d'))" using put_file_sorted [OF srt] by (simp add: d')
  moreover have "file_ok g" if "g \<in> set (qd_files d')" for g
  proof -
    have "g = ?f \<or> g \<in> set (qd_files d)"
      using that set_put_file [of "fst ?f" "snd ?f" "qd_files d"] by (auto simp: d')
    then show ?thesis using new(1) files_inv_ok [OF assms(1)] by blast
  qed
  ultimately show "files_inv d'" unfolding files_inv_def by (simp add: d')
qed

lemma load_index_inv:
  assumes "store_inv d" "io_ok io"
  shows "\<exists>idx d'. loadOrRebuildQueueIndex io d = (Inr idx, d') \<and> same_files d d'
    \<and> qd_exists d' = qd_exists d \<and> index_inv d'
    \<and> index_lists (names_of ''high_'' d) (names_of ''low_'' d) idx"
proof (cases "qd_exists d")
  case True
  have "index_for (names_of ''high_'' d) (names_of ''low_'' d) d"
    using assms(1) by (simp add: store_inv_def index_inv_for)
  with load_index [OF _ assms(2) this True] assms(1) obtain idx d' where
    l: "loadOrRebuildQueueIndex io d = (Inr idx, d')" "same_files d d'"
    "index_lists (names_of ''high_'' d) (names_of ''low_'' d) idx"
    "index_for (names_of ''high_'' d) (names_of ''low_'' d) d'" by (auto simp: store_inv_def)
  then have "index_inv d'" by (simp add: index_inv_for same_files_names)
  moreover have "qd_exists d'" using l(2) True by (simp add: same_files_def)
  ultimately show ?thesis using l True by auto
next
  case False
  then have "qd_files d = []" "qd_index d = None" using assms(1) by (auto simp: store_inv_def files_inv_def)
  with False show ?thesis
    by (simp add: loadOrRebuildQueueIndex_def same_files_def index_inv_def index_lists_def
        newQueueReadIndex_def files_of_def)
qed

lemma store_Enqueue_ok:
  assumes "store_inv d" "io_ok io" "later io pr run d"
    and p: "p = QueuePriorityHigh \<and> pr = ''high_'' \<and> q = ''low_''
      \<or> p = QueuePriorityLow \<and> pr = ''low_'' \<and> q = ''high_''"
  shows "\<exists>r. store_Enqueue io p run d = (None, r) \<and> store_inv r
    \<and> files_of pr r = files_of pr d @ [new_file io pr run] \<and> files_of q r = files_of q d"
proof -
  let ?f = "new_file io pr run"
  obtain idx d1 where l: "loadOrRebuildQueueIndex io d = (Inr idx, d1)" "same_files d d1"
    "qd_exists d1 = qd_exists d" "index_inv d1"
    "index_lists (names_of ''high_'' d) (names_of ''low_'' d) idx" using load_index_inv [OF assms(1,2)] by blast
  define d2 where "d2 = d1\<lparr>qd_exists := True, qd_files := put_file (fst ?f) (snd ?f) (qd_files d1)\<rparr>"
  have pr: "is_prio pr" "q \<noteq> pr" using p by auto
  have "\<not> qd_exists d1 \<longrightarrow> qd_index d1 = None"
    using l(1,3) assms(1) by (auto simp: store_inv_def files_inv_def loadOrRebuildQueueIndex_def split: if_splits)
  then have inv1: "files_inv d1" using assms(1) l(2,3) by (auto simp: store_inv_def files_inv_def same_files_def files_of_def)
  have lat: "later io pr run d1" using assms(3) same_files_names [OF l(2)] by (simp add: later_def)
  note push = push_files [OF inv1 assms(2) pr(1) lat d2_def]
  have enq: "dual_Enqueue io p run d1 = (Inr (fst ?f), d2)"
    using p assms(2)
    by (auto simp: dual_Enqueue_def Push_def io_ok_def d2_def new_file_def Let_def QueuePriorityHigh_def
        QueuePriorityLow_def)
  have names: "names_of s d1 = names_of s d" for s by (simp add: same_files_names [OF l(2)])
  have idx': "index_lists (names_of ''high_'' d2) (names_of ''low_'' d2) (index_append (qio_now io) p (fst ?f) idx)"
    using p push(1,2) l(5) names
    by (auto simp: index_lists_def index_append_def index_touch_def QueuePriorityHigh_def QueuePriorityLow_def)
  have "qd_exists d2" by (simp add: d2_def)
  from save_index [OF assms(2) idx' this] obtain r where
    s: "saveQueueIndex io (index_append (qio_now io) p (fst ?f) idx) d2 = (None, r)" "same_files d2 r"
      "index_for (names_of ''high_'' d2) (names_of ''low_'' d2) r" by blast
  have "index_inv r" using s(3) by (simp add: index_inv_for same_files_names [OF s(2)])
  moreover have "files_inv r" using files_inv_same [OF s(2) \<open>qd_exists d2\<close> push(3)] .
  moreover have "\<not> qd_locked r"
    using s(2) l(2) assms(1) by (simp add: same_files_def d2_def store_inv_def)
  ultimately have "store_inv r" by (simp add: store_inv_def)
  moreover have "store_Enqueue io p run d = (None, r)" using l(1) enq s(1) by (simp add: store_Enqueue_def)
  moreover have "files_of s r = files_of s d2" "files_of s d1 = files_of s d" for s
    by (simp_all add: same_files_names [OF s(2)] same_files_names [OF l(2)])
  ultimately show ?thesis using push(1,2) pr(2) by auto
qed

section \<open>The store as a queue with two priorities\<close>

definition store_deq :: "string \<Rightarrow> qio \<Rightarrow> queue_dir \<Rightarrow> job option \<times> queue_dir" where
  "store_deq name io d =
     (case DequeueByName io name d of (Inl e, d') \<Rightarrow> (None, d') | (Inr j, d') \<Rightarrow> (Some j, d'))"

definition store_enq :: "qio \<Rightarrow> bool \<Rightarrow> dag_run_ref \<Rightarrow> queue_dir \<Rightarrow> queue_dir" where
  "store_enq io h run d =
     snd (store_Enqueue io (if h then QueuePriorityHigh else QueuePriorityLow) run d)"

abbreviation prio_of :: "bool \<Rightarrow> string" where
  "prio_of h \<equiv> (if h then ''high_'' else ''low_'')"

lemma queue_jobs_Nil: "queue_jobs pr d = [] \<longleftrightarrow> files_of pr d = []"
  by (simp add: queue_jobs_def)

lemma queue_jobs_Cons: "queue_jobs pr d = j # js \<longleftrightarrow> (\<exists>f fs. files_of pr d = f # fs \<and> j = job_of f \<and> js = map job_of fs)"
  by (auto simp: queue_jobs_def)

interpretation store: prio_store store_inv "queue_jobs ''high_''" "queue_jobs ''low_''" io_ok
  "store_deq name" store_enq "\<lambda>io h run d. later io (prio_of h) run d"
  "\<lambda>io h run. job_of (new_file io (prio_of h) run)" for name
proof
  fix d :: queue_dir and io :: qio and j js
  assume inv: "store_inv d" "io_ok io"
  show "store_inv (snd (store_deq name io d))"
  proof -
    consider f fs where "files_of ''high_'' d = f # fs"
      | f fs where "files_of ''high_'' d = []" "files_of ''low_'' d = f # fs"
      | "files_of ''high_'' d = []" "files_of ''low_'' d = []"
      by (cases "files_of ''high_'' d"; cases "files_of ''low_'' d") auto
    then show ?thesis
    proof cases
      case 1
      from DequeueByName_high [OF inv this, of name] show ?thesis by (auto simp: store_deq_def)
    next
      case 2
      from DequeueByName_low [OF inv this, of name] show ?thesis by (auto simp: store_deq_def)
    next
      case 3
      from DequeueByName_empty [OF inv this, of name] show ?thesis by (auto simp: store_deq_def)
    qed
  qed
  show "fst (store_deq name io d) = Some j \<and> queue_jobs ''high_'' (snd (store_deq name io d)) = js
      \<and> queue_jobs ''low_'' (snd (store_deq name io d)) = queue_jobs ''low_'' d"
    if "queue_jobs ''high_'' d = j # js"
    using that DequeueByName_high [OF inv, of _ _ name] by (auto simp: queue_jobs_Cons store_deq_def) (auto simp: queue_jobs_def)
  show "fst (store_deq name io d) = Some j \<and> queue_jobs ''high_'' (snd (store_deq name io d)) = []
      \<and> queue_jobs ''low_'' (snd (store_deq name io d)) = js"
    if "queue_jobs ''high_'' d = []" "queue_jobs ''low_'' d = j # js"
    using that DequeueByName_low [OF inv, of _ _ name]
    by (auto simp: queue_jobs_Cons queue_jobs_Nil store_deq_def) (auto simp: queue_jobs_def)
  show "fst (store_deq name io d) = None \<and> queue_jobs ''high_'' (snd (store_deq name io d)) = []
      \<and> queue_jobs ''low_'' (snd (store_deq name io d)) = []"
    if "queue_jobs ''high_'' d = []" "queue_jobs ''low_'' d = []"
    using that DequeueByName_empty [OF inv, of name] by (auto simp: queue_jobs_Nil store_deq_def)
next
  fix d :: queue_dir and io :: qio and h run
  assume inv: "store_inv d" "io_ok io"
  have enq: "\<exists>r. store_Enqueue io (if h then QueuePriorityHigh else QueuePriorityLow) run d = (None, r)
      \<and> store_inv r \<and> files_of (prio_of h) r = files_of (prio_of h) d @ [new_file io (prio_of h) run]
      \<and> files_of (prio_of (\<not> h)) r = files_of (prio_of (\<not> h)) d" if "later io (prio_of h) run d" for h
    using store_Enqueue_ok [OF inv that] by (cases h) auto
  show "store_inv (store_enq io h run d)" if "later io (prio_of h) run d"
    using enq [OF that] by (auto simp: store_enq_def)
  show "queue_jobs ''high_'' (store_enq io True run d) =
      queue_jobs ''high_'' d @ [job_of (new_file io (prio_of True) run)]
      \<and> queue_jobs ''low_'' (store_enq io True run d) = queue_jobs ''low_'' d"
    if "later io (prio_of True) run d"
    using enq [of True] that by (auto simp: store_enq_def queue_jobs_def)
  show "queue_jobs ''high_'' (store_enq io False run d) = queue_jobs ''high_'' d
      \<and> queue_jobs ''low_'' (store_enq io False run d) =
        queue_jobs ''low_'' d @ [job_of (new_file io (prio_of False) run)]"
    if "later io (prio_of False) run d"
    using enq [of False] that by (auto simp: store_enq_def queue_jobs_def)
qed

section \<open>Removing the items of one dag-run\<close>

definition of_run :: "dag_run_ref \<Rightarrow> string \<times> item_file \<Rightarrow> bool" where
  "of_run run f = (case snd f of
     Inl e \<Rightarrow> False
   | Inr data \<Rightarrow> dr_Name (it_DAGRun data) = dr_Name run \<and> dr_ID (it_DAGRun data) = dr_ID run)"

lemma pop_matching_spec:
  "map fst items = map fst gs \<Longrightarrow> set gs \<subseteq> set fs \<Longrightarrow> distinct (map fst fs) \<Longrightarrow> distinct (map fst gs) \<Longrightarrow>
   qio_removeErr io = (\<lambda>_. None) \<Longrightarrow>
   pop_matching io run items fs =
     (map job_of (filter (of_run run) gs), filter (\<lambda>f. fst f \<notin> fst ` set (filter (of_run run) gs)) fs)"
proof (induction gs arbitrary: items fs)
  case (Cons g gs)
  then obtain item items' where it: "items = (fst g, item) # items'" "map fst items' = map fst gs"
    by (cases items) auto
  have m: "map_of fs (fst g) = Some (snd g)"
    using Cons.prems(2,3) by (metis list.set_intros(1) map_of_is_SomeI prod.collapse subsetD)
  have sub: "set gs \<subseteq> set fs" "distinct (map fst gs)" using Cons.prems(2,4) by auto
  show ?case
  proof (cases "of_run run g")
    case False
    then have "pop_matching io run items fs = pop_matching io run items' fs"
      using m by (auto simp: it(1) of_run_def split: sum.splits)
    with Cons.IH [OF it(2) sub(1) Cons.prems(3) sub(2) Cons.prems(5)] False show ?thesis by simp
  next
    case True
    then obtain data where data: "snd g = Inr data" by (auto simp: of_run_def split: sum.splits)
    have "fst h \<noteq> fst g" if "h \<in> set gs" for h
      using Cons.prems(4) that by (metis distinct.simps(2) image_eqI list.set_map list.simps(9))
    then have "set gs \<subseteq> set (del_file (fst g) fs)" using sub(1) by (auto simp: del_file_def)
    moreover have "distinct (map fst (del_file (fst g) fs))"
      using Cons.prems(3) by (simp add: del_file_def distinct_map_filter)
    ultimately have "pop_matching io run items' (del_file (fst g) fs) =
      (map job_of (filter (of_run run) gs),
       filter (\<lambda>f. fst f \<notin> fst ` set (filter (of_run run) gs)) (del_file (fst g) fs))"
      using Cons.IH [OF it(2)] sub(2) Cons.prems(5) by blast
    moreover have "pop_matching io run items fs =
        (case pop_matching io run items' (del_file (fst g) fs) of (js, fs') \<Rightarrow> (job_of g # js, fs'))"
      using m True data Cons.prems(5) by (simp add: it(1) of_run_def job_of_def)
    ultimately show ?thesis using True by (auto simp: del_file_def intro!: filter_cong)
  qed
qed simp

lemma filter_matched:
  assumes "distinct (map fst fs)" "set gs \<subseteq> set fs"
  shows "filter (\<lambda>f. fst f \<notin> fst ` set (filter P gs)) fs = filter (\<lambda>f. \<not> (f \<in> set gs \<and> P f)) fs"
proof (rule filter_cong)
  fix f assume f: "f \<in> set fs"
  have "f = g" if "g \<in> set fs" "fst f = fst g" for g
    using assms(1) f that by (auto simp: distinct_map inj_on_def)
  then show "(fst f \<notin> fst ` set (filter P gs)) = (\<not> (f \<in> set gs \<and> P f))" using assms(2) by auto
qed simp

lemma PopByDAGRunID_ok:
  assumes "files_inv d" "io_ok io" "is_prio pr" "qd_exists d"
  shows "PopByDAGRunID io pr name run d = (map job_of (filter (of_run run) (files_of pr d)),
    d\<lparr>qd_files := filter (\<lambda>f. \<not> (queue_match pr (fst f) \<and> of_run run f)) (qd_files d)\<rparr>)"
proof -
  have dist: "distinct (map fst (qd_files d))" using names_distinct [OF assms(1)] .
  have sub: "set (files_of pr d) \<subseteq> set (qd_files d)" by (auto simp: files_of_def)
  have "map fst (listItems io pr name d) = names_of pr d"
    using listItems_ok [OF assms(1)] assms(2,3) by (simp add: io_ok_def)
  from pop_matching_spec [OF this sub dist] dist assms(2)
  have "pop_matching io run (listItems io pr name d) (qd_files d) =
    (map job_of (filter (of_run run) (files_of pr d)),
     filter (\<lambda>f. fst f \<notin> fst ` set (filter (of_run run) (files_of pr d))) (qd_files d))"
    by (simp add: files_of_def distinct_map_filter io_ok_def)
  moreover have "filter (\<lambda>f. \<not> (f \<in> set (files_of pr d) \<and> of_run run f)) (qd_files d) =
      filter (\<lambda>f. \<not> (queue_match pr (fst f) \<and> of_run run f)) (qd_files d)"
    by (rule filter_cong) (auto simp: files_of_def)
  ultimately have "pop_matching io run (listItems io pr name d) (qd_files d) =
    (map job_of (filter (of_run run) (files_of pr d)),
     filter (\<lambda>f. \<not> (queue_match pr (fst f) \<and> of_run run f)) (qd_files d))"
    by (simp only: filter_matched [OF dist sub])
  then show ?thesis using assms(4) by (simp only: PopByDAGRunID_def) simp
qed

lemma dual_DequeueByDAGRunID_ok:
  assumes "files_inv d" "io_ok io" "qd_exists d" "qd_locked d"
  shows "dual_DequeueByDAGRunID io name run d =
    (map job_of (filter (of_run run) (files_of ''high_'' d) @ filter (of_run run) (files_of ''low_'' d)),
     d\<lparr>qd_files := filter (\<lambda>f. \<not> of_run run f) (qd_files d)\<rparr>)"
proof -
  let ?P1 = "\<lambda>f. \<not> (queue_match ''high_'' (fst f) \<and> of_run run f)"
  let ?P2 = "\<lambda>f. \<not> (queue_match ''low_'' (fst f) \<and> of_run run f)"
  let ?d1 = "d\<lparr>qd_files := filter ?P1 (qd_files d)\<rparr>"
  have inv1: "files_inv ?d1" using files_inv_filter(1) [OF assms(1)] .
  have prio: "queue_match ''low_'' (fst f) \<longleftrightarrow> \<not> queue_match ''high_'' (fst f)" if f: "f \<in> set (qd_files d)" for f
  proof -
    obtain p where "is_prio p" "\<And>q. queue_match q (fst f) \<longleftrightarrow> q = p"
      using file_ok_match(1) [OF files_inv_ok [OF assms(1) f]] by blast
    then show ?thesis by (auto simp: is_prio_def)
  qed
  have "files_of ''low_'' ?d1 = filter ?P1 (files_of ''low_'' d)" by (rule files_inv_filter(2) [OF assms(1)])
  also have "\<dots> = files_of ''low_'' d" using prio unfolding files_of_def filter_filter by (intro filter_cong) auto
  finally have low: "files_of ''low_'' ?d1 = files_of ''low_'' d" .
  have fs: "filter ?P2 (filter ?P1 (qd_files d)) = filter (\<lambda>f. \<not> of_run run f) (qd_files d)"
    using prio by (auto intro!: filter_cong)
  have h: "PopByDAGRunID io ''high_'' name run d = (map job_of (filter (of_run run) (files_of ''high_'' d)), ?d1)"
    using PopByDAGRunID_ok [OF assms(1,2) is_prio_simps(1) assms(3)] .
  have l: "PopByDAGRunID io ''low_'' name run ?d1 =
      (map job_of (filter (of_run run) (files_of ''low_'' d)), ?d1\<lparr>qd_files := filter ?P2 (qd_files ?d1)\<rparr>)"
    using PopByDAGRunID_ok [OF inv1 assms(2) is_prio_simps(2)] assms(3) low by simp
  show ?thesis using fs assms(4) by (simp only: dual_DequeueByDAGRunID_def h l prod.case) (simp add: remove_dir_def)
qed

lemma store_DequeueByDAGRunID_ok:
  assumes "store_inv d" "io_ok io"
  shows "\<exists>r. snd (store_DequeueByDAGRunID io name run d) = r \<and> store_inv r
    \<and> (\<forall>pr. files_of pr r = filter (\<lambda>f. \<not> of_run run f) (files_of pr d))
    \<and> fst (store_DequeueByDAGRunID io name run d) =
      (let js = map job_of (filter (of_run run) (files_of ''high_'' d @ files_of ''low_'' d))
       in if js = [] then Inl exec_ErrQueueItemNotFound else Inr js)"
proof -
  let ?d0 = "lock_dir_of d"
  let ?js = "map job_of (filter (of_run run) (files_of ''high_'' d @ files_of ''low_'' d))"
  let ?d1 = "?d0\<lparr>qd_files := filter (\<lambda>f. \<not> of_run run f) (qd_files ?d0)\<rparr>"
  let ?r = "refresh_index io (remove_ids (qio_now io) (map jb_id ?js)) ?d1"
  note l = store_inv_locked [OF assms(1)]
  have deq: "dual_DequeueByDAGRunID io name run ?d0 = (?js, ?d1)"
    using dual_DequeueByDAGRunID_ok [OF l(1) assms(2) l(3), of name run] l(4) by (simp add: lock_dir_of_def)
  have inv1: "files_inv ?d1" "\<And>pr. files_of pr ?d1 = filter (\<lambda>f. \<not> of_run run f) (files_of pr d)"
    using files_inv_filter [OF l(1)] l(4) by auto
  have e1: "qd_exists ?d1" by (simp add: lock_dir_of_def)
  have io: "qio_lockErr io = None" using assms(2) by (simp add: io_ok_def)
  have all: "set (files_of ''high_'' d @ files_of ''low_'' d) = set (qd_files ?d0)"
  proof -
    have "queue_match ''high_'' (fst f) \<or> queue_match ''low_'' (fst f)" if "f \<in> set (qd_files ?d0)" for f
      using file_ok_match(1) [OF files_inv_ok [OF l(1) that]] by (auto simp: is_prio_def)
    then show ?thesis by (auto simp: files_of_def lock_dir_of_def)
  qed
  then have xs: "set (map jb_id ?js) = (queueItemIDFromFileName \<circ> fst) ` {f \<in> set (qd_files ?d0). of_run run f}"
    by (auto simp: job_of_def image_image)
  have "index_for (names_of ''high_'' ?d0) (names_of ''low_'' ?d0) ?d1"
    using l(2) by (simp add: index_inv_for index_for_def)
  then have ref: "same_files ?d1 ?r \<and> index_inv ?r"
    by (rule refresh_index_ok [OF inv1(1) assms(2) _ e1]) (rule index_remove_where [OF l(1) refl xs])
  then have r: "store_inv (unlock_dir_of ?r)" "files_of pr (unlock_dir_of ?r) = files_of pr ?d1" for pr
    using files_inv_same [OF _ e1 inv1(1)] store_inv_unlocked [of ?r] same_files_names [of ?d1 ?r pr] by auto
  have same: "index_inv ?d1" if "?js = []"
  proof -
    have "qd_files ?d1 = qd_files ?d0" using that all by (auto simp: filter_id_conv filter_empty_conv)
    then show ?thesis using l(2) by (simp add: index_inv_def index_matches_def files_of_def)
  qed
  show ?thesis
  proof (cases "?js = []")
    case True
    then show ?thesis using deq io store_inv_unlocked [OF inv1(1) same [OF True]] inv1(2)
      by (simp add: store_DequeueByDAGRunID_def Let_def)
  next
    case False
    then show ?thesis using deq io r inv1(2) by (simp only: store_DequeueByDAGRunID_def Let_def) simp
  qed
qed

end
