(* ===== verification/Queue_Spec.thy ===== *)
theory Queue_Spec
  imports Queue_Refine
begin

text \<open>
  What a queue store promises to its callers, over whole sequences of calls: two lists of jobs,
  high priority before low, and the results of every call determined by them. The store of
  \<open>Queue_Store\<close>, with its files, names, index file and cache, refines it.
\<close>

section \<open>Calls and results\<close>

datatype queue_op =
  OpEnqueue qio bool dag_run_ref
| OpDequeue qio
| OpRemove qio dag_run_ref
| OpList qio
| OpLen qio

datatype queue_result =
  Accepted
| GotJob job
| GotJobs "job list"
| GotNames "string list"
| GotCount int
| Failed go_error

fun op_io :: "queue_op \<Rightarrow> qio" where
  "op_io (OpEnqueue io h run) = io"
| "op_io (OpDequeue io) = io"
| "op_io (OpRemove io run) = io"
| "op_io (OpList io) = io"
| "op_io (OpLen io) = io"

fun store_apply :: "string \<Rightarrow> queue_op \<Rightarrow> queue_dir \<Rightarrow> queue_result \<times> queue_dir" where
  "store_apply name (OpEnqueue io h run) d =
     (case store_Enqueue io (if h then QueuePriorityHigh else QueuePriorityLow) run d of
        (None, d') \<Rightarrow> (Accepted, d') | (Some e, d') \<Rightarrow> (Failed e, d'))"
| "store_apply name (OpDequeue io) d =
     (case DequeueByName io name d of (Inr j, d') \<Rightarrow> (GotJob j, d') | (Inl e, d') \<Rightarrow> (Failed e, d'))"
| "store_apply name (OpRemove io run) d =
     (case store_DequeueByDAGRunID io name run d of
        (Inr js, d') \<Rightarrow> (GotJobs js, d') | (Inl e, d') \<Rightarrow> (Failed e, d'))"
| "store_apply name (OpList io) d =
     (case store_List io d of (Inr ns, d') \<Rightarrow> (GotNames ns, d') | (Inl e, d') \<Rightarrow> (Failed e, d'))"
| "store_apply name (OpLen io) d =
     (case store_Len io d of (Inr n, d') \<Rightarrow> (GotCount n, d') | (Inl e, d') \<Rightarrow> (Failed e, d'))"

fun store_trace :: "string \<Rightarrow> queue_op list \<Rightarrow> queue_dir \<Rightarrow> queue_result list \<times> queue_dir" where
  "store_trace name [] d = ([], d)"
| "store_trace name (c # cs) d =
     (case store_apply name c d of (r, d') \<Rightarrow>
        (case store_trace name cs d' of (rs, e) \<Rightarrow> (r # rs, e)))"

section \<open>The specification\<close>

type_synonym spec_queue = "job list \<times> job list"

definition job_is :: "dag_run_ref \<Rightarrow> job \<Rightarrow> bool" where
  "job_is run j \<longleftrightarrow> dr_Name (it_DAGRun (jb_data j)) = dr_Name run \<and> dr_ID (it_DAGRun (jb_data j)) = dr_ID run"

definition new_job :: "qio \<Rightarrow> bool \<Rightarrow> dag_run_ref \<Rightarrow> job" where
  "new_job io h run =
     (let n = queueFileName (prio_of h) (dr_ID run) (qio_time io)
      in \<lparr> jb_id = queueItemIDFromFileName n,
           jb_data = \<lparr> it_FileName = n, it_DAGRun = run, it_QueuedAt = qio_time io \<rparr> \<rparr>)"

fun spec_apply :: "queue_op \<Rightarrow> spec_queue \<Rightarrow> queue_result \<times> spec_queue" where
  "spec_apply (OpEnqueue io h run) (hs, ls) =
     (Accepted, if h then (hs @ [new_job io h run], ls) else (hs, ls @ [new_job io h run]))"
| "spec_apply (OpDequeue io) (j # hs, ls) = (GotJob j, hs, ls)"
| "spec_apply (OpDequeue io) ([], j # ls) = (GotJob j, [], ls)"
| "spec_apply (OpDequeue io) ([], []) = (Failed exec_ErrQueueEmpty, [], [])"
| "spec_apply (OpRemove io run) (hs, ls) =
     (let js = filter (job_is run) (hs @ ls)
      in (if js = [] then Failed exec_ErrQueueItemNotFound else GotJobs js,
          filter (\<lambda>j. \<not> job_is run j) hs, filter (\<lambda>j. \<not> job_is run j) ls))"
| "spec_apply (OpList io) (hs, ls) = (GotNames (map (\<lambda>j. jb_id j @ ''.json'') (hs @ ls)), hs, ls)"
| "spec_apply (OpLen io) (hs, ls) = (GotCount (int (length hs + length ls)), hs, ls)"

fun spec_trace :: "queue_op list \<Rightarrow> spec_queue \<Rightarrow> queue_result list \<times> spec_queue" where
  "spec_trace [] q = ([], q)"
| "spec_trace (c # cs) q =
     (case spec_apply c q of (r, q') \<Rightarrow> (case spec_trace cs q' of (rs, e) \<Rightarrow> (r # rs, e)))"

section \<open>Refinement\<close>

definition queue_abs :: "queue_dir \<Rightarrow> spec_queue" where
  "queue_abs d = (queue_jobs ''high_'' d, queue_jobs ''low_'' d)"

text \<open>Calls without file system failures, on a clock that advances between them.\<close>

fun op_ok :: "queue_op \<Rightarrow> bool" where
  "op_ok (OpEnqueue io h run) \<longleftrightarrow> io_ok io \<and> clean_id (dr_ID run)"
| "op_ok c \<longleftrightarrow> io_ok (op_io c)"

definition clock_ok :: "queue_op list \<Rightarrow> queue_dir \<Rightarrow> bool" where
  "clock_ok cs d \<longleftrightarrow> sorted_wrt (\<lambda>a b. utc_before (qio_time (op_io a)) (qio_time (op_io b))) cs
     \<and> (\<forall>c \<in> set cs. \<forall>f \<in> set (qd_files d). utc_before (file_time f) (qio_time (op_io c)))"

lemma op_ok_io: "op_ok c \<Longrightarrow> io_ok (op_io c)"
  by (cases c) auto

lemma job_is_of: "file_ok f \<Longrightarrow> job_is run (job_of f) \<longleftrightarrow> of_run run f"
  by (auto simp: file_ok_def job_is_def of_run_def job_of_def)

lemma jobs_filter:
  assumes "files_inv d"
  shows "map job_of (filter (\<lambda>f. of_run run f) (files_of pr d)) = filter (job_is run) (queue_jobs pr d)"
    "map job_of (filter (\<lambda>f. \<not> of_run run f) (files_of pr d)) = filter (\<lambda>j. \<not> job_is run j) (queue_jobs pr d)"
  unfolding queue_jobs_def filter_map comp_def using job_is_of files_inv_ok [OF assms]
  by (auto simp: files_of_def intro!: arg_cong [of _ _ "map job_of"] filter_cong)

lemma names_jobs: "files_inv d \<Longrightarrow> names_of pr d = map (\<lambda>j. jb_id j @ ''.json'') (queue_jobs pr d)"
  unfolding queue_jobs_def map_map comp_def using file_ok_id files_inv_ok
  by (auto simp: files_of_def job_of_def intro!: map_cong)

lemma new_job_of: "new_job io h run = job_of (new_file io (prio_of h) run)"
  by (simp add: new_job_def job_of_def new_file_def Let_def)

text \<open>Every file of the directory is of one of the two priorities.\<close>

lemma files_split: "files_inv d \<Longrightarrow> set (qd_files d) = set (files_of ''high_'' d) \<union> set (files_of ''low_'' d)"
  using file_ok_match(1) files_inv_ok by (fastforce simp: files_of_def is_prio_def)

lemma load_store_inv:
  assumes "store_inv d" "io_ok io"
  obtains idx d' where "loadOrRebuildQueueIndex io d = (Inr idx, d')" "store_inv d'"
    "\<And>pr. files_of pr d' = files_of pr d"
    "index_lists (names_of ''high_'' d) (names_of ''low_'' d) idx"
proof -
  obtain idx d' where l: "loadOrRebuildQueueIndex io d = (Inr idx, d')" "same_files d d'"
    "qd_exists d' = qd_exists d" "index_inv d'" "index_lists (names_of ''high_'' d) (names_of ''low_'' d) idx"
    using load_index_inv [OF assms] by blast
  have "qd_index d' = None" if "\<not> qd_exists d"
    using that l(1) assms(1) by (auto simp: store_inv_def files_inv_def loadOrRebuildQueueIndex_def rebuildQueueIndex_def)
  then have "store_inv d'"
    using l(2-4) assms(1) by (auto simp: store_inv_def files_inv_def same_files_def files_of_def)
  then show thesis using that l same_files_names [OF l(2)] by blast
qed

definition op_refines :: "string \<Rightarrow> queue_op \<Rightarrow> queue_dir \<Rightarrow> bool" where
  "op_refines name c d \<longleftrightarrow> (\<exists>r d'. store_apply name c d = (r, d') \<and> store_inv d'
     \<and> spec_apply c (queue_abs d) = (r, queue_abs d')
     \<and> (\<forall>f \<in> set (qd_files d'). f \<in> set (qd_files d) \<or> file_time f = qio_time (op_io c)))"

lemma op_refinesI:
  assumes "store_inv d" "store_apply name c d = (r, d')" "store_inv d'"
    "spec_apply c (queue_abs d) = (r, queue_abs d')"
    "\<And>pr f. is_prio pr \<Longrightarrow> f \<in> set (files_of pr d') \<Longrightarrow>
      f \<in> set (files_of pr d) \<or> file_time f = qio_time (op_io c)"
  shows "op_refines name c d"
proof -
  have "files_inv d" "files_inv d'" using assms(1,3) by (simp_all add: store_inv_def)
  note fs = files_split [OF this(1)] files_split [OF this(2)]
  have "\<forall>f \<in> set (qd_files d'). f \<in> set (qd_files d) \<or> file_time f = qio_time (op_io c)"
    unfolding fs using assms(5) [OF is_prio_simps(1)] assms(5) [OF is_prio_simps(2)] by blast
  with assms(2-4) show ?thesis unfolding op_refines_def by blast
qed

lemma enqueue_refines:
  assumes "store_inv d" "io_ok io" "later io (prio_of h) run d"
  shows "op_refines name (OpEnqueue io h run) d"
proof -
  have p: "(if h then QueuePriorityHigh else QueuePriorityLow) = QueuePriorityHigh
      \<and> prio_of h = ''high_'' \<and> prio_of (\<not> h) = ''low_''
      \<or> (if h then QueuePriorityHigh else QueuePriorityLow) = QueuePriorityLow
      \<and> prio_of h = ''low_'' \<and> prio_of (\<not> h) = ''high_''" by (cases h) simp_all
  obtain r where r: "store_Enqueue io (if h then QueuePriorityHigh else QueuePriorityLow) run d = (None, r)"
    "store_inv r" "files_of (prio_of h) r = files_of (prio_of h) d @ [new_file io (prio_of h) run]"
    "files_of (prio_of (\<not> h)) r = files_of (prio_of (\<not> h)) d"
    using store_Enqueue_ok [OF assms p] by blast
  have t: "file_time (new_file io (prio_of h) run) = qio_time io"
    by (simp add: file_time_def new_file_def Let_def)
  have "f \<in> set (files_of pr d) \<or> file_time f = qio_time io" if "is_prio pr" "f \<in> set (files_of pr r)" for pr f
    using r(3,4) t that by (cases h) (auto simp: is_prio_def)
  then show ?thesis
    using r by (intro op_refinesI [OF assms(1), of _ _ Accepted r])
      (cases h; auto simp: queue_abs_def queue_jobs_def new_job_of)+
qed

lemma dequeue_refines:
  assumes "store_inv d" "io_ok io"
  shows "op_refines name (OpDequeue io) d"
proof -
  consider f fs where "files_of ''high_'' d = f # fs"
    | f fs where "files_of ''high_'' d = []" "files_of ''low_'' d = f # fs"
    | "files_of ''high_'' d = []" "files_of ''low_'' d = []"
    by (cases "files_of ''high_'' d"; cases "files_of ''low_'' d") auto
  then show ?thesis
  proof cases
    case 1
    from DequeueByName_high [OF assms 1, of name] obtain d' where
      "DequeueByName io name d = (Inr (job_of f), d')" "store_inv d'"
      "files_of ''high_'' d' = fs" "files_of ''low_'' d' = files_of ''low_'' d" by auto
    with 1 show ?thesis by (intro op_refinesI [OF assms(1), of _ _ "GotJob (job_of f)" d'])
      (auto simp: queue_abs_def queue_jobs_def is_prio_def)
  next
    case 2
    from DequeueByName_low [OF assms 2, of name] obtain d' where
      "DequeueByName io name d = (Inr (job_of f), d')" "store_inv d'"
      "files_of ''high_'' d' = []" "files_of ''low_'' d' = fs" by auto
    with 2 show ?thesis by (intro op_refinesI [OF assms(1), of _ _ "GotJob (job_of f)" d'])
      (auto simp: queue_abs_def queue_jobs_def is_prio_def)
  next
    case 3
    from DequeueByName_empty [OF assms 3, of name] obtain d' where
      "DequeueByName io name d = (Inl exec_ErrQueueEmpty, d')" "store_inv d'"
      "files_of ''high_'' d' = []" "files_of ''low_'' d' = []" by auto
    with 3 show ?thesis by (intro op_refinesI [OF assms(1), of _ _ "Failed exec_ErrQueueEmpty" d'])
      (auto simp: queue_abs_def queue_jobs_def is_prio_def)
  qed
qed

lemma remove_refines:
  assumes "store_inv d" "io_ok io"
  shows "op_refines name (OpRemove io run) d"
proof -
  have inv: "files_inv d" using assms(1) by (simp add: store_inv_def)
  let ?js = "filter (job_is run) (queue_jobs ''high_'' d @ queue_jobs ''low_'' d)"
  let ?res = "if ?js = [] then Failed exec_ErrQueueItemNotFound else GotJobs ?js"
  have js: "map job_of (filter (of_run run) (files_of ''high_'' d @ files_of ''low_'' d)) = ?js"
    using jobs_filter(1) [OF inv] by simp
  obtain d' where r: "snd (store_DequeueByDAGRunID io name run d) = d'" "store_inv d'"
    "\<forall>pr. files_of pr d' = filter (\<lambda>f. \<not> of_run run f) (files_of pr d)"
    "fst (store_DequeueByDAGRunID io name run d) = (if ?js = [] then Inl exec_ErrQueueItemNotFound else Inr ?js)"
    using store_DequeueByDAGRunID_ok [OF assms, of name run] unfolding js Let_def by blast
  have abs: "queue_jobs pr d' = filter (\<lambda>j. \<not> job_is run j) (queue_jobs pr d)" for pr
    using jobs_filter(2) [OF inv] r(3) by (simp add: queue_jobs_def)
  have deq: "store_DequeueByDAGRunID io name run d = (if ?js = [] then Inl exec_ErrQueueItemNotFound else Inr ?js, d')"
    by (rule prod_eqI) (simp_all only: fst_conv snd_conv r(1,4))
  show ?thesis
  proof (rule op_refinesI [OF assms(1), of _ _ ?res d'])
    show "store_apply name (OpRemove io run) d = (?res, d')" unfolding store_apply.simps deq by simp
    show "spec_apply (OpRemove io run) (queue_abs d) = (?res, queue_abs d')"
      unfolding queue_abs_def spec_apply.simps abs Let_def ..
  qed (use r(2,3) in auto)
qed

lemma reads_refine:
  assumes "store_inv d" "io_ok io"
  shows "op_refines name (OpList io) d" "op_refines name (OpLen io) d"
proof -
  have inv: "files_inv d" using assms(1) by (simp add: store_inv_def)
  from load_store_inv [OF assms] obtain idx d' where l: "loadOrRebuildQueueIndex io d = (Inr idx, d')"
    "store_inv d'" "\<And>pr. files_of pr d' = files_of pr d"
    "index_lists (names_of ''high_'' d) (names_of ''low_'' d) idx" by blast
  have abs: "queue_abs d' = queue_abs d" using l(3) by (simp add: queue_abs_def queue_jobs_def)
  show "op_refines name (OpList io) d"
    by (rule op_refinesI [OF assms(1), of _ _ "GotNames (names_of ''high_'' d @ names_of ''low_'' d)" d'])
      (use l abs names_jobs [OF inv] in \<open>auto simp: store_List_def index_lists_def queue_abs_def\<close>)
  show "op_refines name (OpLen io) d"
    by (rule op_refinesI [OF assms(1), of _ _ "GotCount (int (length (files_of ''high_'' d) + length (files_of ''low_'' d)))" d'])
      (use l abs in \<open>auto simp: store_Len_def index_lists_def index_total_def queue_abs_def queue_jobs_def\<close>)
qed

lemma store_apply_refines:
  assumes "store_inv d" "op_ok c" "\<forall>f \<in> set (qd_files d). utc_before (file_time f) (qio_time (op_io c))"
  shows "op_refines name c d"
proof (cases c)
  case (OpEnqueue io h run)
  with assms(2,3) have "io_ok io" "later io (prio_of h) run d" by (auto simp: later_def files_of_def)
  with enqueue_refines [OF assms(1)] show ?thesis by (simp add: OpEnqueue)
qed (use dequeue_refines remove_refines reads_refine assms(1) op_ok_io [OF assms(2)] in auto)

lemma store_trace_refines:
  "store_inv d \<Longrightarrow> \<forall>c \<in> set cs. op_ok c \<Longrightarrow> clock_ok cs d \<Longrightarrow>
   \<exists>rs d'. store_trace name cs d = (rs, d') \<and> store_inv d' \<and> spec_trace cs (queue_abs d) = (rs, queue_abs d')"
proof (induction cs arbitrary: d)
  case (Cons c cs)
  have "op_ok c" "\<forall>f \<in> set (qd_files d). utc_before (file_time f) (qio_time (op_io c))"
    using Cons.prems(2,3) by (auto simp: clock_ok_def)
  from store_apply_refines [OF Cons.prems(1) this, of name] obtain r d' where
    a: "store_apply name c d = (r, d')" "store_inv d'" "spec_apply c (queue_abs d) = (r, queue_abs d')"
    "\<forall>f \<in> set (qd_files d'). f \<in> set (qd_files d) \<or> file_time f = qio_time (op_io c)"
    unfolding op_refines_def by blast
  have "clock_ok cs d'" using Cons.prems(3) a(4) by (fastforce simp: clock_ok_def)
  from Cons.IH [OF a(2) _ this] Cons.prems(2) obtain rs e where
    "store_trace name cs d' = (rs, e)" "store_inv e" "spec_trace cs (queue_abs d') = (rs, queue_abs e)" by auto
  with a show ?case by simp
qed simp


section \<open>The store keeps its promises\<close>


definition empty_queue_dir :: queue_dir where
  "empty_queue_dir = \<lparr> qd_exists = False, qd_files = [], qd_index = None, qd_cache = None, qd_locked = False \<rparr>"

definition sample_io :: "nat \<Rightarrow> qio" where
  "sample_io n = \<lparr> qio_now = 0, qio_time = sample_utc\<lparr>u_nanos := n\<rparr>, qio_modTime = 0, qio_alloc = 0,
     qio_lockErr = None, qio_mkdirErr = None, qio_writeErr = None, qio_removeErr = (\<lambda>_. None),
     qio_loadErr = None, qio_saveErr = None, qio_rmIndexErr = None,
     qio_sort = sort_key (\<lambda>it. utc_rank (it_QueuedAt (snd it))) \<rparr>"

lemma sort_key_ok: "sort_ok (sort_key (\<lambda>it. utc_rank (it_QueuedAt (snd it))))"
  unfolding sort_ok_def
proof (intro allI conjI)
  fix xs :: "queued_item list"
  have "sorted (map (\<lambda>it. utc_rank (it_QueuedAt (snd it))) (sort_key (\<lambda>it. utc_rank (it_QueuedAt (snd it))) xs))"
    by simp
  then show "sorted_wrt (\<lambda>a b. \<not> utc_before (it_QueuedAt (snd b)) (it_QueuedAt (snd a)))
      (sort_key (\<lambda>it. utc_rank (it_QueuedAt (snd it))) xs)"
    by (simp add: sorted_wrt_map utc_before_def not_less)
qed simp

lemma sample_io_ok: "n < 1000000000 \<Longrightarrow> io_ok (sample_io n)"
  by (simp add: io_ok_def sample_io_def sort_key_ok valid_utc_def valid_date_def days_in_def leap_year_def sample_utc_def)

lemma sample_io_time: "utc_before (qio_time (sample_io m)) (qio_time (sample_io n)) \<longleftrightarrow> m < n"
  by (simp add: sample_io_def utc_before_def utc_rank_def date_rank_def clock_rank_def)

lemma empty_store_inv: "store_inv empty_queue_dir"
  by (simp add: store_inv_def files_inv_def index_inv_def empty_queue_dir_def files_of_def)

definition sample_ops :: "queue_op list" where
  "sample_ops =
     [OpEnqueue (sample_io 1) False \<lparr> dr_Name = ''d'', dr_ID = ''a'' \<rparr>,
      OpEnqueue (sample_io 2) True \<lparr> dr_Name = ''d'', dr_ID = ''b'' \<rparr>,
      OpLen (sample_io 3), OpDequeue (sample_io 4),
      OpRemove (sample_io 5) \<lparr> dr_Name = ''d'', dr_ID = ''b'' \<rparr>,
      OpDequeue (sample_io 6), OpDequeue (sample_io 7)]"


end
