(* ===== verification/Dir_Lock.thy ===== *)
theory Dir_Lock
  imports Go_Base
begin

text \<open>
  Package \<open>dirlock\<close>: mutual exclusion between processes by a lock directory with an owner file.
  The disk holds at most one lock directory, with its modification time and the token its
  creator wrote into it. Each operation takes the directory and the state of one lock instance;
  what the file system calls return is the record \<open>lock_env\<close>. A step relation then lets any
  number of instances work on one directory while time passes.
\<close>

section \<open>State\<close>

record lock_dir =
  ld_modTime :: time
  ld_owner :: "string option"

record lock_opts =
  lo_StaleThreshold :: duration
  lo_RetryInterval :: duration

record dir_lock =
  dl_opts :: lock_opts
  dl_isHeld :: bool
  dl_fenceToken :: string

record lock_env =
  le_now :: time
  le_token :: string
  le_alloc :: nat
  le_retryable :: "go_error \<Rightarrow> bool"
  le_statErr :: "go_error option"
  le_removeErr :: "go_error option"
  le_mkdirAllErr :: "go_error option"
  le_mkdirErr :: "go_error option"
  le_writeErr :: "go_error option"
  le_readErr :: "go_error option"
  le_chtimesErr :: "go_error option"

definition ErrLockConflict :: go_error where
  "ErrLockConflict = Sentinel ''directory is locked by another process''"

definition ErrNotLocked :: go_error where
  "ErrNotLocked = Sentinel ''directory is not locked''"

definition ErrLockNotHeld :: go_error where
  "ErrLockNotHeld = Sentinel ''lock is not held by this instance''"

section \<open>Operations\<close>

definition newDirLock :: "lock_opts \<Rightarrow> dir_lock" where
  "newDirLock opts =
     \<lparr> dl_opts = \<lparr> lo_StaleThreshold = (if lo_StaleThreshold opts = 0 then 30 * second
                     else lo_StaleThreshold opts),
                   lo_RetryInterval = (if lo_RetryInterval opts = 0 then 50 * millisecond
                     else lo_RetryInterval opts) \<rparr>,
       dl_isHeld = False, dl_fenceToken = [] \<rparr>"

definition isStaleInfo :: "time \<Rightarrow> lock_dir \<Rightarrow> dir_lock \<Rightarrow> bool" where
  "isStaleInfo now info l \<longleftrightarrow> lo_StaleThreshold (dl_opts l) < now - ld_modTime info"

text \<open>Creating the lock directory and its owner file.\<close>

definition create_lock ::
  "lock_env \<Rightarrow> lock_dir option \<Rightarrow> dir_lock \<Rightarrow> go_error option \<times> lock_dir option \<times> dir_lock" where
  "create_lock le disk l =
     (case le_mkdirAllErr le of
        Some e \<Rightarrow> (Some (Wrap (le_alloc le) ''failed to create target directory'' e), disk, l)
      | None \<Rightarrow>
          (if disk \<noteq> None then (Some ErrLockConflict, disk, l)
           else case le_mkdirErr le of
             Some e \<Rightarrow>
               (if le_retryable le e then (Some ErrLockConflict, disk, l)
                else (Some (Wrap (le_alloc le) ''failed to create lock directory'' e), disk, l))
           | None \<Rightarrow>
               (case le_writeErr le of
                  Some e \<Rightarrow> (Some (Wrap (le_alloc le) ''failed to write lock token'' e), None, l)
                | None \<Rightarrow> (None, Some \<lparr> ld_modTime = le_now le, ld_owner = Some (le_token le) \<rparr>,
                    l\<lparr>dl_fenceToken := le_token le, dl_isHeld := True\<rparr>))))"

definition TryLock ::
  "lock_env \<Rightarrow> lock_dir option \<Rightarrow> dir_lock \<Rightarrow> go_error option \<times> lock_dir option \<times> dir_lock" where
  "TryLock le disk l =
     (if dl_isHeld l then (None, disk, l)
      else case le_statErr le of
        Some e \<Rightarrow>
          (if le_retryable le e then (Some ErrLockConflict, disk, l)
           else (Some (Wrap (le_alloc le) ''failed to check lock status'' e), disk, l))
      | None \<Rightarrow>
          (case disk of
             None \<Rightarrow> create_lock le disk l
           | Some info \<Rightarrow>
               if isStaleInfo (le_now le) info l
               then case le_removeErr le of
                      Some e \<Rightarrow>
                        (if le_retryable le e then (Some ErrLockConflict, disk, l)
                         else (Some (Wrap (le_alloc le) ''failed to remove stale lock'' e), disk, l))
                    | None \<Rightarrow> create_lock le None l
               else (Some ErrLockConflict, disk, l)))"

text \<open>
  \<open>Lock\<close>: one attempt, then one per tick until the context is done. What happens at each wait
  is a list; a list too short leaves the call waiting (\<open>None\<close>). Each attempt finds the
  directory as the other processes left it, which is part of the tick.
\<close>

datatype lock_wait = LockTick "lock_dir option" lock_env | LockCtxDone go_error

fun lock_retry ::
  "lock_wait list \<Rightarrow> lock_dir option \<Rightarrow> dir_lock \<Rightarrow> (go_error option \<times> lock_dir option \<times> dir_lock) option" where
  "lock_retry [] disk l = None"
| "lock_retry (LockCtxDone e # ws) disk l = Some (Some e, disk, l)"
| "lock_retry (LockTick disk' le # ws) disk l =
     (case TryLock le disk' l of
        (e, d, l') \<Rightarrow> if e = Some ErrLockConflict then lock_retry ws d l' else Some (e, d, l'))"

definition lock_Lock ::
  "lock_env \<Rightarrow> lock_wait list \<Rightarrow> lock_dir option \<Rightarrow> dir_lock \<Rightarrow>
   (go_error option \<times> lock_dir option \<times> dir_lock) option" where
  "lock_Lock le ws disk l =
     (case TryLock le disk l of
        (e, d, l') \<Rightarrow> if e = Some ErrLockConflict then lock_retry ws d l' else Some (e, d, l'))"

text \<open>The owner file as the operations read it: an error, or a token.\<close>

definition read_owner :: "lock_env \<Rightarrow> lock_dir option \<Rightarrow> string option" where
  "read_owner le disk =
     (case le_readErr le of Some e \<Rightarrow> None | None \<Rightarrow> Option.bind disk ld_owner)"

definition Heartbeat ::
  "lock_env \<Rightarrow> lock_dir option \<Rightarrow> dir_lock \<Rightarrow> go_error option \<times> lock_dir option \<times> dir_lock" where
  "Heartbeat le disk l =
     (if \<not> dl_isHeld l then (Some ErrNotLocked, disk, l)
      else if read_owner le disk \<noteq> Some (dl_fenceToken l)
      then (Some (Wrap (le_alloc le) ''lock is not held by this instance'' ErrLockNotHeld), disk,
            l\<lparr>dl_isHeld := False\<rparr>)
      else case le_chtimesErr le of
        Some e \<Rightarrow> (Some (Wrap (le_alloc le) ''failed to update lock timestamp'' e), disk, l)
      | None \<Rightarrow> (None, map_option (\<lambda>ld. ld\<lparr>ld_modTime := le_now le\<rparr>) disk, l))"

definition lock_Unlock ::
  "lock_env \<Rightarrow> lock_dir option \<Rightarrow> dir_lock \<Rightarrow> go_error option \<times> lock_dir option \<times> dir_lock" where
  "lock_Unlock le disk l =
     (if \<not> dl_isHeld l then (None, disk, l)
      else if read_owner le disk \<noteq> Some (dl_fenceToken l)
      then (Some (Wrap (le_alloc le) ''lock is not held by this instance'' ErrLockNotHeld), disk,
            l\<lparr>dl_isHeld := False\<rparr>)
      else case le_removeErr le of
        Some e \<Rightarrow> (Some (Wrap (le_alloc le) ''failed to remove lock directory'' e), disk, l)
      | None \<Rightarrow> (None, None, l\<lparr>dl_isHeld := False\<rparr>))"

definition IsHeldByMe :: "lock_env \<Rightarrow> lock_dir option \<Rightarrow> dir_lock \<Rightarrow> bool \<times> dir_lock" where
  "IsHeldByMe le disk l =
     (if \<not> dl_isHeld l then (False, l)
      else if read_owner le disk \<noteq> Some (dl_fenceToken l) then (False, l\<lparr>dl_isHeld := False\<rparr>)
      else (True, l))"

definition IsLocked :: "lock_env \<Rightarrow> lock_dir option \<Rightarrow> dir_lock \<Rightarrow> bool" where
  "IsLocked le disk l =
     (case le_statErr le of
        Some e \<Rightarrow> False
      | None \<Rightarrow> (case disk of None \<Rightarrow> False | Some info \<Rightarrow> \<not> isStaleInfo (le_now le) info l))"

definition lock_Info :: "lock_env \<Rightarrow> lock_dir option \<Rightarrow> dir_lock \<Rightarrow> go_error + time option" where
  "lock_Info le disk l =
     (case le_statErr le of
        Some e \<Rightarrow> Inl (Wrap (le_alloc le) ''failed to get lock info'' e)
      | None \<Rightarrow>
          (case disk of
             None \<Rightarrow> Inr None
           | Some info \<Rightarrow> if isStaleInfo (le_now le) info l then Inr None else Inr (Some (ld_modTime info))))"

definition ForceUnlock :: "lock_env \<Rightarrow> lock_dir option \<Rightarrow> go_error option \<times> lock_dir option" where
  "ForceUnlock le disk =
     (case le_removeErr le of
        Some e \<Rightarrow> (Some (Wrap (le_alloc le) ''failed to force unlock'' e), disk)
      | None \<Rightarrow> (None, None))"

section \<open>Several instances on one directory\<close>

record lock_world =
  w_clock :: time
  w_disk :: "lock_dir option"
  w_locks :: "nat \<Rightarrow> dir_lock"

definition set_lock :: "nat \<Rightarrow> lock_dir option \<times> dir_lock \<Rightarrow> lock_world \<Rightarrow> lock_world" where
  "set_lock i dl w = w\<lparr>w_disk := fst dl, w_locks := (w_locks w)(i := snd dl)\<rparr>"

text \<open>
  No contender tries for a lock whose owner is alive and has let it go stale: the owner of the
  lock sends its heartbeats in time.
\<close>

definition timely :: "nat \<Rightarrow> lock_world \<Rightarrow> bool" where
  "timely i w \<longleftrightarrow> (\<forall>j info. dl_isHeld (w_locks w j) \<longrightarrow> w_disk w = Some info \<longrightarrow>
     \<not> isStaleInfo (w_clock w) info (w_locks w i))"

inductive world_step :: "lock_world \<Rightarrow> lock_world \<Rightarrow> bool" where
  tick: "0 \<le> d \<Longrightarrow> world_step w (w\<lparr>w_clock := w_clock w + d\<rparr>)"
| attempt: "timely i w \<Longrightarrow> le_now le = w_clock w \<Longrightarrow>
    world_step w (set_lock i (snd (TryLock le (w_disk w) (w_locks w i))) w)"
| beat: "le_now le = w_clock w \<Longrightarrow>
    world_step w (set_lock i (snd (Heartbeat le (w_disk w) (w_locks w i))) w)"
| unlock: "world_step w (set_lock i (snd (lock_Unlock le (w_disk w) (w_locks w i))) w)"
| held: "world_step w (set_lock i (w_disk w, snd (IsHeldByMe le (w_disk w) (w_locks w i))) w)"

section \<open>Mutual exclusion\<close>

definition world_inv :: "lock_world \<Rightarrow> bool" where
  "world_inv w \<longleftrightarrow> (\<forall>i. dl_isHeld (w_locks w i) \<longrightarrow>
     Option.bind (w_disk w) ld_owner = Some (dl_fenceToken (w_locks w i)))
   \<and> (\<forall>i j. dl_isHeld (w_locks w i) \<longrightarrow> dl_isHeld (w_locks w j) \<longrightarrow> i = j)"

lemma create_lock_cases:
  assumes "create_lock le None l = (e, d, l')" "\<not> dl_isHeld l"
  shows "d = None \<and> l' = l \<and> e \<noteq> None
    \<or> d = Some \<lparr> ld_modTime = le_now le, ld_owner = Some (le_token le) \<rparr> \<and> dl_isHeld l'
      \<and> dl_fenceToken l' = le_token le \<and> dl_opts l' = dl_opts l \<and> e = None"
  using assms by (auto simp: create_lock_def split: option.splits if_splits)

lemma TryLock_cases:
  assumes "TryLock le disk l = (e, d, l')"
  shows "d = disk \<and> l' = l \<and> (e = None \<longrightarrow> dl_isHeld l)
    \<or> \<not> dl_isHeld l \<and> (\<forall>info. disk = Some info \<longrightarrow> isStaleInfo (le_now le) info l)
      \<and> (d = None \<and> l' = l \<or> d = Some \<lparr> ld_modTime = le_now le, ld_owner = Some (le_token le) \<rparr>
          \<and> dl_isHeld l' \<and> dl_fenceToken l' = le_token le \<and> dl_opts l' = dl_opts l \<and> e = None)"
  using assms create_lock_cases [of le l e d l']
  by (auto simp: TryLock_def split: option.splits if_splits)

text \<open>The other operations keep the owner file and at most give up the lock, unlocking apart.\<close>

definition owner_kept :: "lock_dir option \<Rightarrow> dir_lock \<Rightarrow> lock_dir option \<times> dir_lock \<Rightarrow> bool" where
  "owner_kept disk l r \<longleftrightarrow> Option.bind (fst r) ld_owner = Option.bind disk ld_owner
     \<and> (snd r = l \<or> snd r = l\<lparr>dl_isHeld := False\<rparr>)"

lemma Heartbeat_keeps: "owner_kept disk l (snd (Heartbeat le disk l))"
  by (cases disk) (auto simp: owner_kept_def Heartbeat_def split: option.splits)

lemma lock_Unlock_keeps:
  "owner_kept disk l (snd (lock_Unlock le disk l))
   \<or> dl_isHeld l \<and> snd (lock_Unlock le disk l) = (None, l\<lparr>dl_isHeld := False\<rparr>)"
  by (auto simp: owner_kept_def lock_Unlock_def split: option.splits)

lemma world_inv_weaken:
  assumes "owner_kept (w_disk w) (w_locks w i) r" "world_inv w"
  shows "world_inv (set_lock i r w)"
proof -
  have "dl_isHeld (snd r) \<longrightarrow> dl_isHeld (w_locks w i)" "dl_fenceToken (snd r) = dl_fenceToken (w_locks w i)"
    using assms(1) by (auto simp: owner_kept_def)
  with assms show ?thesis unfolding world_inv_def owner_kept_def set_lock_def by simp metis
qed

lemma world_inv_step: "world_step w w' \<Longrightarrow> world_inv w \<Longrightarrow> world_inv w'"
proof (induction rule: world_step.induct)
  case (attempt i w le)
  obtain e d l' where t: "TryLock le (w_disk w) (w_locks w i) = (e, d, l')" by (metis prod_cases3)
  show ?case
  proof (cases "d = w_disk w \<and> l' = w_locks w i")
    case True
    then show ?thesis using attempt(3) by (simp add: t set_lock_def world_inv_def)
  next
    case False
    with TryLock_cases [OF t] have own: "\<not> dl_isHeld (w_locks w i)"
      and stale: "\<forall>info. w_disk w = Some info \<longrightarrow> isStaleInfo (le_now le) info (w_locks w i)"
      and res: "d = None \<and> l' = w_locks w i \<or> (\<exists>ld. d = Some ld \<and> ld_owner ld = Some (le_token le)
          \<and> dl_isHeld l' \<and> dl_fenceToken l' = le_token le)" by auto
    have "\<not> dl_isHeld (w_locks w j)" for j
    proof
      assume j: "dl_isHeld (w_locks w j)"
      then obtain info where "w_disk w = Some info"
        using attempt(3) by (cases "w_disk w") (auto simp: world_inv_def)
      with j attempt(1,2) stale show False by (auto simp: timely_def)
    qed
    with res show ?thesis by (auto simp: t set_lock_def world_inv_def)
  qed
next
  case (beat le w i)
  from Heartbeat_keeps beat(2) show ?case by (intro world_inv_weaken)
next
  case (unlock w i le)
  from lock_Unlock_keeps [of "w_disk w" "w_locks w i" le] show ?case
  proof
    assume "owner_kept (w_disk w) (w_locks w i) (snd (lock_Unlock le (w_disk w) (w_locks w i)))"
    then show ?thesis using unlock by (rule world_inv_weaken)
  next
    assume u: "dl_isHeld (w_locks w i) \<and>
      snd (lock_Unlock le (w_disk w) (w_locks w i)) = (None, (w_locks w i)\<lparr>dl_isHeld := False\<rparr>)"
    with unlock have "\<not> dl_isHeld (w_locks w j)" if "j \<noteq> i" for j
      using that by (auto simp: world_inv_def)
    with u show ?thesis by (simp add: set_lock_def world_inv_def)
  qed
next
  case (held w i le)
  have "owner_kept (w_disk w) (w_locks w i) (w_disk w, snd (IsHeldByMe le (w_disk w) (w_locks w i)))"
    by (simp add: owner_kept_def IsHeldByMe_def)
  then show ?case using held by (rule world_inv_weaken)
qed (simp add: world_inv_def)

inductive world_reach :: "lock_world \<Rightarrow> lock_world \<Rightarrow> bool" for w0 where
  start: "world_reach w0 w0"
| step: "world_reach w0 w \<Longrightarrow> world_step w w' \<Longrightarrow> world_reach w0 w'"

lemma world_inv_reach: "world_reach w0 w \<Longrightarrow> world_inv w0 \<Longrightarrow> world_inv w"
  by (induction rule: world_reach.induct) (auto intro: world_inv_step)

definition fresh_world :: "(nat \<Rightarrow> lock_opts) \<Rightarrow> time \<Rightarrow> lock_world" where
  "fresh_world opts now = \<lparr> w_clock = now, w_disk = None, w_locks = (\<lambda>i. newDirLock (opts i)) \<rparr>"

lemma world_inv_fresh: "world_inv (fresh_world opts now)"
  by (simp add: world_inv_def fresh_world_def newDirLock_def)

definition calm_env :: "time \<Rightarrow> string \<Rightarrow> lock_env" where
  "calm_env now token = \<lparr> le_now = now, le_token = token, le_alloc = 0, le_retryable = (\<lambda>_. False),
     le_statErr = None, le_removeErr = None, le_mkdirAllErr = None, le_mkdirErr = None,
     le_writeErr = None, le_readErr = None, le_chtimesErr = None \<rparr>"

lemmas lock_simps = calm_env_def TryLock_def create_lock_def isStaleInfo_def Heartbeat_def
  lock_Unlock_def IsHeldByMe_def read_owner_def newDirLock_def

text \<open>The options \<open>NewDualQueue\<close> of package \<open>filequeue\<close> passes: plain numbers, so nanoseconds.\<close>

definition queueLockOptions :: lock_opts where
  "queueLockOptions = \<lparr> lo_StaleThreshold = 30, lo_RetryInterval = 50 \<rparr>"

section \<open>Properties\<close>



text \<open>
  C32: the queue lock excludes nobody. \<open>NewDualQueue\<close> gives the stale threshold as 30 and the
  comment says seconds, but the number counts nanoseconds: any other instance that tries more
  than 30 nanoseconds after the lock was taken gets it as well, while the first holder has
  done nothing and still believes to hold it.
\<close>

theorem queue_lock_excludes_nobody:
  assumes "30 < delay"
  shows "let a = newDirLock queueLockOptions; b = newDirLock queueLockOptions;
             (ea, disk, a') = TryLock (calm_env t ''a'') None a;
             (eb, disk', b') = TryLock (calm_env (t + delay) ''b'') disk b
         in ea = None \<and> eb = None \<and> dl_isHeld a' \<and> dl_isHeld b'"
  using assms by (simp add: lock_simps queueLockOptions_def)

theorem queue_lock_excludes_nobody_witness:
  "let (ea, disk, a') = TryLock (calm_env 0 ''a'') None (newDirLock queueLockOptions);
       (eb, disk', b') = TryLock (calm_env 1000 ''b'') disk (newDirLock queueLockOptions)
   in dl_isHeld a' \<and> dl_isHeld b'"
  using queue_lock_excludes_nobody [of 1000 0] by (simp add: Let_def split: prod.splits)

text \<open>
  C29: an instance that lost its lock notices. When the directory is gone or carries another
  token, the heartbeat fails, \<open>IsHeldByMe\<close> answers no and \<open>Unlock\<close> fails; each of them makes
  the instance give up, and none of them touches the lock of the new owner.
\<close>

theorem lost_lock_is_noticed:
  assumes "dl_isHeld l" "Option.bind disk ld_owner \<noteq> Some (dl_fenceToken l)"
  shows "(\<exists>e. Heartbeat le disk l = (Some e, disk, l\<lparr>dl_isHeld := False\<rparr>) \<and> errors_is e ErrLockNotHeld)
    \<and> (\<exists>e. lock_Unlock le disk l = (Some e, disk, l\<lparr>dl_isHeld := False\<rparr>) \<and> errors_is e ErrLockNotHeld)
    \<and> IsHeldByMe le disk l = (False, l\<lparr>dl_isHeld := False\<rparr>)"
proof -
  have "read_owner le disk \<noteq> Some (dl_fenceToken l)"
    using assms(2) by (simp add: read_owner_def split: option.splits)
  then show ?thesis using assms(1) by (simp add: Heartbeat_def lock_Unlock_def IsHeldByMe_def)
qed

theorem lost_lock_is_noticed_witness:
  "IsHeldByMe (calm_env 9 ''x'') (Some \<lparr> ld_modTime = 3, ld_owner = Some ''b'' \<rparr>)
     (newDirLock queueLockOptions \<lparr>dl_isHeld := True, dl_fenceToken := ''a''\<rparr>)
   = (False, newDirLock queueLockOptions \<lparr>dl_isHeld := False, dl_fenceToken := ''a''\<rparr>)"
  using lost_lock_is_noticed [of "newDirLock queueLockOptions \<lparr>dl_isHeld := True, dl_fenceToken := ''a''\<rparr>"
      "Some \<lparr> ld_modTime = 3, ld_owner = Some ''b'' \<rparr>" "calm_env 9 ''x''"]
  by simp

end
