(* ===== verification/Cron_Schedule.thy ===== *)
theory Cron_Schedule
  imports Go_Time "HOL-Library.Monad_Syntax"
begin

text \<open>
  Package \<open>core\<close>, files \<open>schedule.go\<close> and \<open>overlap_policy.go\<close>: cron and one-off schedules, their
  parsing, their canonical form and the fingerprint under which the scheduler stores them. The
  cron parser is a third-party package, so parsing an expression is the argument \<open>prs\<close>; what the
  parsed schedule does is its function \<open>Next\<close>. Strings are ASCII.
\<close>

section \<open>Text\<close>

text \<open>\<open>strings.Fields\<close>.\<close>

fun fields_acc :: "string \<Rightarrow> string \<Rightarrow> string list" where
  "fields_acc acc [] = (if acc = [] then [] else [rev acc])"
| "fields_acc acc (c # s) =
     (if is_space c then (if acc = [] then fields_acc [] s else rev acc # fields_acc [] s)
      else fields_acc (c # acc) s)"

definition str_fields :: "string \<Rightarrow> string list" where
  "str_fields s = fields_acc [] s"

text \<open>\<open>strconv.Itoa\<close>, \<open>strconv.Atoi\<close> with a sign, and the verb \<open>%q\<close>.\<close>

fun itoa_nat :: "nat \<Rightarrow> string" where
  "itoa_nat n = (if n < 10 then [digit_char n] else itoa_nat (n div 10) @ [digit_char (n mod 10)])"

declare itoa_nat.simps [simp del]

definition atoi :: "string \<Rightarrow> int option" where
  "atoi s = (case s of
     [] \<Rightarrow> None
   | c # r \<Rightarrow>
       if c = CHR ''+'' then atoi_digits r
       else if c = CHR ''-'' then
         (case digits_value 0 r of
            None \<Rightarrow> None
          | Some n \<Rightarrow> if r \<noteq> [] \<and> min_int64 \<le> - int n then Some (- int n) else None)
       else atoi_digits s)"

definition hex_char :: "nat \<Rightarrow> char" where
  "hex_char d = (if d < 10 then digit_char d else char_of (87 + d))"

definition quote_char :: "char \<Rightarrow> string" where
  "quote_char c =
     (let n = (of_char c :: nat) in
      if n = 34 \<or> n = 92 then [CHR 0x5C, c]
      else if 32 \<le> n \<and> n < 127 then [c]
      else if n \<in> {7, 8, 9, 10, 11, 12, 13} then [CHR 0x5C, ''abtnvfr'' ! (n - 7)]
      else CHR 0x5C # CHR ''x'' # [hex_char (n div 16), hex_char (n mod 16)])"

definition go_quote :: "string \<Rightarrow> string" where
  "go_quote s = CHR 0x22 # concat (map quote_char s) @ [CHR 0x22]"

section \<open>Schedules\<close>

record schedule =
  sc_Kind :: string
  sc_Expression :: string
  sc_At :: string
  sc_Parsed :: "(time \<Rightarrow> time) option"
  sc_AtTime :: time
  sc_Warnings :: "string list"

definition zero_schedule :: schedule where
  "zero_schedule = \<lparr> sc_Kind = [], sc_Expression = [], sc_At = [], sc_Parsed = None, sc_AtTime = 0,
     sc_Warnings = [] \<rparr>"

abbreviation (input) ScheduleKindCron :: string where
  "ScheduleKindCron \<equiv> ''cron''"

abbreviation (input) ScheduleKindAt :: string where
  "ScheduleKindAt \<equiv> ''at''"

type_synonym cron_parser = "string \<Rightarrow> go_error + (time \<Rightarrow> time)"

datatype schedule_error =
    EmptyExpression
  | InvalidExpression string go_error
  | OneOffFormat string
  | OneOffInvalid string
  | OneOffPrecision string
  | UnsupportedKind string
  | NotAString string
  | UnknownKey string
  | BothExpressionAndAt
  | NeitherExpressionNorAt
  | CronNeedsExpression
  | CronHasAt
  | OneOffNeedsAt
  | OneOffHasExpression
  | OneOffNotAllowed
  | NonStringKey
  | NotAScheduleValue

definition isExpectedStepValue :: "string \<Rightarrow> int \<Rightarrow> int \<Rightarrow> bool" where
  "isExpectedStepValue fieldName base step \<longleftrightarrow> base mod step = 0 \<or> fieldName = ''hour'' \<and> step = 5"

definition fires_at :: "nat \<Rightarrow> nat \<Rightarrow> nat list" where
  "fires_at base step = filter (\<lambda>i. i mod step = 0) [0..<base]"

definition step_warning :: "string \<Rightarrow> string \<Rightarrow> string \<Rightarrow> nat \<Rightarrow> string \<Rightarrow> string option" where
  "step_warning expr field fieldName base unit =
     (case strip_prefix ''*/'' field of
        None \<Rightarrow> None
      | Some r \<Rightarrow>
          (case atoi r of
             None \<Rightarrow> None
           | Some step \<Rightarrow>
               if step \<le> 1 then None
               else if isExpectedStepValue fieldName (int base) step then None
               else Some (''schedule '' @ go_quote expr @ '': '' @ field @ '' in '' @ fieldName
                 @ '' field fires at '' @ str_join (map itoa_nat (fires_at base (nat step))) '', '' @ '' '' @ unit
                 @ '', not every '' @ itoa_nat (nat step) @ '' '' @ unit @ ''. Divisors of '' @ itoa_nat base
                 @ '' that work as expected: ''
                 @ str_join (map itoa_nat (filter (\<lambda>i. base mod i = 0) [2..<base])) '', '')))"

definition checkMisleadingStepValues :: "string \<Rightarrow> string list" where
  "checkMisleadingStepValues expr =
     (let fields = str_fields expr in
      if length fields \<noteq> 5 then []
      else List.map_filter id [step_warning expr (fields ! 0) ''minute'' 60 ''minutes'',
                              step_warning expr (fields ! 1) ''hour'' 24 ''hours''])"

definition parseCronExpression :: "cron_parser \<Rightarrow> string \<Rightarrow> schedule_error + (time \<Rightarrow> time) \<times> string" where
  "parseCronExpression prs expr =
     (let normalized = str_join (str_fields expr) '' '' in
      if normalized = [] then Inl EmptyExpression
      else case prs normalized of
        Inl e \<Rightarrow> Inl (InvalidExpression normalized e)
      | Inr parsed \<Rightarrow> Inr (parsed, normalized))"

definition NewCronSchedule :: "cron_parser \<Rightarrow> string \<Rightarrow> schedule_error + schedule" where
  "NewCronSchedule prs expr =
     (case parseCronExpression prs expr of
        Inl e \<Rightarrow> Inl e
      | Inr (parsed, normalized) \<Rightarrow> Inr (zero_schedule\<lparr>sc_Kind := ScheduleKindCron,
          sc_Expression := normalized, sc_Parsed := Some parsed,
          sc_Warnings := checkMisleadingStepValues normalized\<rparr>))"

section \<open>One-off times\<close>

text \<open>
  The pattern of the source: date, \<open>T\<close>, hours and minutes, the literal seconds \<open>00\<close> and either \<open>Z\<close>
  or a signed offset. \<open>time.Parse\<close> then checks the ranges; it lets an offset have up to 24 hours
  and 60 minutes. \<open>Format\<close> writes the same fields and the offset in minutes, \<open>Z\<close> for none.
\<close>

definition zone_match :: "string \<Rightarrow> (bool \<times> nat \<times> nat) option" where
  "zone_match s =
     (if s = ''Z'' then Some (False, 0, 0)
      else case s of
        [] \<Rightarrow> None
      | c # r \<Rightarrow>
          if c \<noteq> CHR ''+'' \<and> c \<noteq> CHR ''-'' then None
          else do {
            (hh, r1) \<leftarrow> take_digits 2 r;
            r2 \<leftarrow> strip_prefix '':'' r1;
            (mm, r3) \<leftarrow> take_digits 2 r2;
            if r3 = [] then Some (c = CHR ''-'', num hh, num mm) else None
          })"

definition one_off_match :: "string \<Rightarrow> (utc \<times> bool \<times> nat \<times> nat) option" where
  "one_off_match s = do {
     (y, r1) \<leftarrow> take_digits 4 s;
     r2 \<leftarrow> strip_prefix ''-'' r1;
     (mo, r3) \<leftarrow> take_digits 2 r2;
     r4 \<leftarrow> strip_prefix ''-'' r3;
     (d, r5) \<leftarrow> take_digits 2 r4;
     r6 \<leftarrow> strip_prefix ''T'' r5;
     (h, r7) \<leftarrow> take_digits 2 r6;
     r8 \<leftarrow> strip_prefix '':'' r7;
     (mi, r9) \<leftarrow> take_digits 2 r8;
     r10 \<leftarrow> strip_prefix '':00'' r9;
     z \<leftarrow> zone_match r10;
     Some (\<lparr> u_year = num y, u_month = num mo, u_day = num d, u_hour = num h, u_min = num mi,
             u_sec = 0, u_nanos = 0 \<rparr>, z)
   }"

definition zone_minutes :: "bool \<Rightarrow> nat \<Rightarrow> nat \<Rightarrow> int" where
  "zone_minutes neg hh mm = (if neg then - int (hh * 60 + mm) else int (hh * 60 + mm))"

definition format_zone :: "int \<Rightarrow> string" where
  "format_zone z = (if z = 0 then ''Z''
     else (if z < 0 then CHR ''-'' else CHR ''+'')
       # pad 2 (nat \<bar>z\<bar> div 60) @ '':'' @ pad 2 (nat \<bar>z\<bar> mod 60))"

definition format_one_off :: "utc \<Rightarrow> int \<Rightarrow> string" where
  "format_one_off t z = pad 4 (u_year t) @ ''-'' @ pad 2 (u_month t) @ ''-'' @ pad 2 (u_day t) @ ''T''
     @ pad 2 (u_hour t) @ '':'' @ pad 2 (u_min t) @ '':00'' @ format_zone z"

definition parseOneOffTime :: "string \<Rightarrow> schedule_error + time \<times> string" where
  "parseOneOffTime raw =
     (case one_off_match raw of
        None \<Rightarrow> Inl (OneOffFormat raw)
      | Some (t, neg, hh, mm) \<Rightarrow>
          if \<not> (valid_date t \<and> hh \<le> 24 \<and> mm \<le> 60) then Inl (OneOffInvalid raw)
          else if u_sec t \<noteq> 0 \<or> u_nanos t \<noteq> 0 then Inl (OneOffPrecision raw)
          else let z = zone_minutes neg hh mm
               in Inr (time_of_utc t - z * minute, format_one_off t z))"

definition NewOneOffSchedule :: "string \<Rightarrow> schedule_error + schedule" where
  "NewOneOffSchedule raw =
     (case parseOneOffTime raw of
        Inl e \<Rightarrow> Inl e
      | Inr (at', normalized) \<Rightarrow>
          Inr (zero_schedule\<lparr>sc_Kind := ScheduleKindAt, sc_At := normalized, sc_AtTime := at'\<rparr>))"

section \<open>Queries\<close>

definition GetKind :: "schedule \<Rightarrow> string" where
  "GetKind s =
     (if sc_Kind s \<noteq> [] then sc_Kind s
      else if sc_At s \<noteq> [] \<or> \<not> is_zero (sc_AtTime s) then ScheduleKindAt
      else if sc_Expression s \<noteq> [] \<or> sc_Parsed s \<noteq> None then ScheduleKindCron
      else [])"

definition IsCron :: "schedule \<Rightarrow> bool" where
  "IsCron s \<longleftrightarrow> GetKind s = ScheduleKindCron"

definition IsOneOff :: "schedule \<Rightarrow> bool" where
  "IsOneOff s \<longleftrightarrow> GetKind s = ScheduleKindAt"

definition normalizeSchedule :: "cron_parser \<Rightarrow> schedule \<Rightarrow> schedule_error + schedule" where
  "normalizeSchedule prs s =
     (if GetKind s = ScheduleKindCron then NewCronSchedule prs (sc_Expression s)
      else if GetKind s = ScheduleKindAt then NewOneOffSchedule (sc_At s)
      else if GetKind s = [] then Inr zero_schedule
      else Inl (UnsupportedKind (sc_Kind s)))"

definition parsedCron :: "cron_parser \<Rightarrow> schedule \<Rightarrow> (time \<Rightarrow> time) option" where
  "parsedCron prs s =
     (case sc_Parsed s of
        Some p \<Rightarrow> Some p
      | None \<Rightarrow>
          if \<not> IsCron s \<or> sc_Expression s = [] then None
          else case parseCronExpression prs (sc_Expression s) of Inl e \<Rightarrow> None | Inr (p, _) \<Rightarrow> Some p)"

definition OneOffTime :: "schedule \<Rightarrow> time option" where
  "OneOffTime s =
     (if \<not> is_zero (sc_AtTime s) then Some (sc_AtTime s)
      else if \<not> IsOneOff s \<or> sc_At s = [] then None
      else case parseOneOffTime (sc_At s) of Inl e \<Rightarrow> None | Inr (at', _) \<Rightarrow> Some at')"

definition schedule_Next :: "cron_parser \<Rightarrow> schedule \<Rightarrow> time \<Rightarrow> time" where
  "schedule_Next prs s now =
     (if GetKind s = ScheduleKindCron then (case parsedCron prs s of None \<Rightarrow> zero_time | Some p \<Rightarrow> p now)
      else if GetKind s = ScheduleKindAt then
        (case OneOffTime s of None \<Rightarrow> zero_time | Some at' \<Rightarrow> if now < at' then at' else zero_time)
      else zero_time)"

definition Fingerprint :: "cron_parser \<Rightarrow> schedule \<Rightarrow> string" where
  "Fingerprint prs s =
     (case normalizeSchedule prs s of
        Inl e \<Rightarrow> []
      | Inr n \<Rightarrow>
          if sc_Kind n = ScheduleKindCron then ''cron:'' @ sc_Expression n
          else if sc_Kind n = ScheduleKindAt then ''at:'' @ sc_At n
          else [])"

definition DisplayValue :: "schedule \<Rightarrow> string" where
  "DisplayValue s =
     (if GetKind s = ScheduleKindCron then sc_Expression s
      else if GetKind s = ScheduleKindAt then sc_At s
      else [])"

section \<open>Parsing of schedule entries\<close>

text \<open>A value of a YAML document; a map comes as its entries in the order of iteration.\<close>

datatype yaml_value =
    YString string
  | YMap "(string \<times> yaml_value) list"
  | YAnyMap "(yaml_value \<times> yaml_value) list"
  | YOther string

fun schedule_keys ::
  "(string \<times> yaml_value) list \<Rightarrow> string \<times> string \<times> string \<Rightarrow> schedule_error + string \<times> string \<times> string" where
  "schedule_keys [] acc = Inr acc"
| "schedule_keys ((key, v) # m) (kind, expr, at') =
     (if key = ''kind'' then
        (case v of YString s \<Rightarrow> schedule_keys m (trim_space s, expr, at') | _ \<Rightarrow> Inl (NotAString ''kind''))
      else if key = ''expression'' then
        (case v of YString s \<Rightarrow> schedule_keys m (kind, s, at') | _ \<Rightarrow> Inl (NotAString ''expression''))
      else if key = ''at'' then
        (case v of YString s \<Rightarrow> schedule_keys m (kind, expr, s) | _ \<Rightarrow> Inl (NotAString ''at''))
      else Inl (UnknownKey key))"

definition check_kind :: "bool \<Rightarrow> string \<Rightarrow> string \<Rightarrow> string \<Rightarrow> schedule_error option" where
  "check_kind allowAt kind expr at' =
     (if kind = ScheduleKindCron \<and> expr = [] then Some CronNeedsExpression
      else if kind = ScheduleKindCron \<and> at' \<noteq> [] then Some CronHasAt
      else if kind = ScheduleKindAt \<and> at' = [] then Some OneOffNeedsAt
      else if kind = ScheduleKindAt \<and> expr \<noteq> [] then Some OneOffHasExpression
      else if kind = ScheduleKindAt \<and> \<not> allowAt then Some OneOffNotAllowed
      else None)"

definition parseScheduleMap ::
  "cron_parser \<Rightarrow> bool \<Rightarrow> (string \<times> yaml_value) list \<Rightarrow> schedule_error + schedule" where
  "parseScheduleMap prs allowAt m =
     (case schedule_keys m ([], [], []) of
        Inl e \<Rightarrow> Inl e
      | Inr (kind, expr, at') \<Rightarrow>
          if expr \<noteq> [] \<and> at' \<noteq> [] then Inl BothExpressionAndAt
          else if kind = [] \<and> at' = [] \<and> expr = [] then Inl NeitherExpressionNorAt
          else
            (let kind' = (if kind \<noteq> [] then kind else if at' \<noteq> [] then ScheduleKindAt else ScheduleKindCron)
             in case check_kind allowAt kind' expr at' of
                  Some e \<Rightarrow> Inl e
                | None \<Rightarrow> normalizeSchedule prs
                    (zero_schedule\<lparr>sc_Kind := kind', sc_Expression := expr, sc_At := at'\<rparr>)))"

fun string_keys :: "(yaml_value \<times> yaml_value) list \<Rightarrow> (string \<times> yaml_value) list option" where
  "string_keys [] = Some []"
| "string_keys ((YString k, v) # m) = map_option (Cons (k, v)) (string_keys m)"
| "string_keys ((_, v) # m) = None"

fun ParseScheduleValue :: "cron_parser \<Rightarrow> bool \<Rightarrow> yaml_value \<Rightarrow> schedule_error + schedule" where
  "ParseScheduleValue prs allowAt (YString s) = NewCronSchedule prs s"
| "ParseScheduleValue prs allowAt (YMap m) = parseScheduleMap prs allowAt m"
| "ParseScheduleValue prs allowAt (YAnyMap m) =
     (case string_keys m of None \<Rightarrow> Inl NonStringKey | Some m' \<Rightarrow> parseScheduleMap prs allowAt m')"
| "ParseScheduleValue prs allowAt (YOther t) = Inl NotAScheduleValue"

section \<open>Overlap policies\<close>

abbreviation (input) OverlapPolicySkip :: string where
  "OverlapPolicySkip \<equiv> ''skip''"

abbreviation (input) OverlapPolicyAll :: string where
  "OverlapPolicyAll \<equiv> ''all''"

abbreviation (input) OverlapPolicyLatest :: string where
  "OverlapPolicyLatest \<equiv> ''latest''"

definition ParseOverlapPolicy :: "string \<Rightarrow> string option" where
  "ParseOverlapPolicy s =
     (let p = to_lower (trim_space s) in
      if p = [] \<or> p = ''skip'' then Some OverlapPolicySkip
      else if p = ''all'' then Some OverlapPolicyAll
      else if p = ''latest'' then Some OverlapPolicyLatest
      else None)"

section \<open>Canonical forms\<close>

lemma fields_word:
  assumes "list_all (\<lambda>c. \<not> is_space c) w"
  shows "fields_acc acc (w @ s) = fields_acc (rev w @ acc) s"
  using assms by (induction w arbitrary: acc) auto

lemma fields_acc_words: "w \<in> set (fields_acc acc s) \<Longrightarrow> list_all (\<lambda>c. \<not> is_space c) acc \<Longrightarrow>
    w \<noteq> [] \<and> list_all (\<lambda>c. \<not> is_space c) w"
proof (induction s arbitrary: acc)
  case (Cons c s)
  have sub: "w \<noteq> [] \<and> list_all (\<lambda>c. \<not> is_space c) w" if "w \<in> set (fields_acc [] s)"
    using Cons.IH [OF that] by simp
  consider "\<not> is_space c" "w \<in> set (fields_acc (c # acc) s)" | "w \<in> set (fields_acc [] s)"
    | "w = rev acc" "acc \<noteq> []"
    using Cons.prems(1) by (simp split: if_splits) blast
  then show ?case
  proof cases
    case 1
    with Cons.IH [of "c # acc"] Cons.prems(2) show ?thesis by simp
  qed (use sub Cons.prems(2) in \<open>auto simp: list_all_iff\<close>)
qed (auto simp: list_all_iff split: if_splits)

lemma fields_join:
  assumes "\<forall>w \<in> set ws. w \<noteq> [] \<and> list_all (\<lambda>c. \<not> is_space c) w"
  shows "str_fields (str_join ws '' '') = ws"
  unfolding str_fields_def using assms
proof (induction ws rule: induct_list012)
  case (2 w)
  then show ?case using fields_word [of w "[]" "[]"] by simp
next
  case (3 v w ws)
  let ?j = "str_join (w # ws) '' ''"
  have sp: "is_space CHR '' ''" by (simp add: is_space_def)
  have v: "v \<noteq> []" "list_all (\<lambda>c. \<not> is_space c) v" and ws: "fields_acc [] ?j = w # ws"
    using 3 by simp_all
  have "fields_acc [] (v @ '' '' @ ?j) = fields_acc (rev v @ []) ('' '' @ ?j)" by (rule fields_word [OF v(2)])
  also have "\<dots> = v # w # ws" using sp v(1) ws by simp
  finally show ?case by simp
qed simp

lemma fields_normalized: "str_fields (str_join (str_fields s) '' '') = str_fields s"
  by (rule fields_join) (auto simp: str_fields_def dest: fields_acc_words)

lemma NewCronSchedule_again:
  assumes "NewCronSchedule prs expr = Inr n"
  shows "GetKind n = ScheduleKindCron \<and> NewCronSchedule prs (sc_Expression n) = Inr n"
proof -
  obtain p e where p: "parseCronExpression prs expr = Inr (p, e)" and n: "n = zero_schedule\<lparr>sc_Kind := ScheduleKindCron,
      sc_Expression := e, sc_Parsed := Some p, sc_Warnings := checkMisleadingStepValues e\<rparr>"
    using assms by (auto simp: NewCronSchedule_def split: sum.splits)
  have e: "e = str_join (str_fields expr) '' ''" and e': "parseCronExpression prs expr = parseCronExpression prs e"
    using p fields_normalized [of expr] by (auto simp: parseCronExpression_def Let_def split: if_splits sum.splits)
  show ?thesis using p unfolding e' by (simp add: n NewCronSchedule_def GetKind_def)
qed

text \<open>Offsets below a day whose minutes are below an hour: the ones that occur.\<close>

definition plain_zone :: "bool \<times> nat \<times> nat \<Rightarrow> bool" where
  "plain_zone z \<longleftrightarrow> (case z of (neg, hh, mm) \<Rightarrow> hh < 24 \<and> mm < 60)"

definition plain_offset :: "string \<Rightarrow> bool" where
  "plain_offset s = (case one_off_match s of None \<Rightarrow> True | Some (t, z) \<Rightarrow> plain_zone z)"

lemma zone_match_format:
  assumes "\<bar>z\<bar> < 1440"
  shows "\<exists>neg hh mm. zone_match (format_zone z) = Some (neg, hh, mm) \<and> hh < 24 \<and> mm < 60
    \<and> zone_minutes neg hh mm = z"
proof (cases "z = 0")
  case True
  then show ?thesis by (auto simp: format_zone_def zone_match_def zone_minutes_def)
next
  case False
  let ?a = "nat \<bar>z\<bar>"
  have a: "?a div 60 < 24" "?a mod 60 < 60" using assms by (auto simp: less_mult_imp_div_less)
  have "zone_match (format_zone z) = Some (z < 0, ?a div 60, ?a mod 60)"
    using False a by (simp add: format_zone_def zone_match_def num_pad strip_prefix_def has_prefix_def)
      (simp add: take_digits_def is_digit_pad num_pad)
  moreover have "zone_minutes (z < 0) (?a div 60) (?a mod 60) = z"
    by (auto simp: zone_minutes_def simp flip: of_nat_mult of_nat_add)
  ultimately show ?thesis using a by blast
qed

lemma take_digits_pad_end: "take_digits w (pad w n) = Some (pad w n, [])"
  using take_digits_pad [of w n "[]"] by simp

lemma one_off_match_format:
  assumes "valid_date t" "u_year t < 10000" "u_sec t = 0" "u_nanos t = 0" "\<bar>z\<bar> < 1440"
  shows "\<exists>neg hh mm. one_off_match (format_one_off t z) = Some (t, neg, hh, mm) \<and> hh < 24 \<and> mm < 60
    \<and> zone_minutes neg hh mm = z"
proof -
  obtain neg hh mm where z: "zone_match (format_zone z) = Some (neg, hh, mm)" "hh < 24" "mm < 60"
    "zone_minutes neg hh mm = z" using zone_match_format [OF assms(5)] by blast
  have sp: "strip_prefix [c] (c # s) = Some s" "strip_prefix '':00'' (CHR '':'' # CHR ''0'' # CHR ''0'' # s) = Some s"
    for c s by (simp_all add: strip_prefix_def has_prefix_def)
  note b = valid_date_bounds [OF assms(1)]
  have "one_off_match (format_one_off t z) = Some (t, neg, hh, mm)"
    using assms(2-4) b z(1) by (simp add: one_off_match_def format_one_off_def sp num_pad)
  with z show ?thesis by blast
qed

lemma take_digits_num: "take_digits w s = Some (ds, r) \<Longrightarrow> num ds < 10 ^ w"
proof -
  have "digits_value a ds = Some v \<Longrightarrow> v < (a + 1) * 10 ^ length ds" for a v and ds :: string
  proof (induction ds arbitrary: a)
    case (Cons c ds)
    then obtain d where d: "digit_of c = Some d" "digits_value (10 * a + d) ds = Some v" by (auto split: option.splits)
    have "d < 10" using d(1) by (auto simp: digit_of_def Let_def split: if_splits)
    then have "(10 * a + d + 1) * 10 ^ length ds \<le> (10 * (a + 1)) * 10 ^ length ds" by (intro mult_le_mono1) simp
    also have "\<dots> = (a + 1) * 10 ^ length (c # ds)" by (simp add: algebra_simps)
    finally show ?case using Cons.IH [OF d(2)] by simp
  qed simp
  note b = this [of 0]
  assume "take_digits w s = Some (ds, r)"
  then have "length ds = w" by (auto simp: take_digits_def split: if_splits)
  with b [of ds] show "num ds < 10 ^ w" by (auto simp: num_def split: option.splits)
qed

lemma one_off_match_fields:
  assumes "one_off_match s = Some (t, z)"
  shows "u_year t < 10000 \<and> u_sec t = 0 \<and> u_nanos t = 0"
proof -
  obtain y r1 where y: "take_digits 4 s = Some (y, r1)" "u_year t = num y" "u_sec t = 0" "u_nanos t = 0"
    using assms by (auto simp: one_off_match_def split: bind_splits)
  with take_digits_num [OF y(1)] show ?thesis by simp
qed

lemma zone_minutes_bound: "hh < 24 \<Longrightarrow> mm < 60 \<Longrightarrow> \<bar>zone_minutes neg hh mm\<bar> < 1440"
  by (simp add: zone_minutes_def)

lemma parseOneOffTime_again:
  assumes "parseOneOffTime raw = Inr (t, normalized)" "plain_offset raw"
  shows "parseOneOffTime normalized = Inr (t, normalized) \<and> normalized \<noteq> []"
proof -
  obtain u neg hh mm where m: "one_off_match raw = Some (u, neg, hh, mm)" and v: "valid_date u"
    and r: "t = time_of_utc u - zone_minutes neg hh mm * minute" "normalized = format_one_off u (zone_minutes neg hh mm)"
    using assms(1) by (auto simp: parseOneOffTime_def Let_def split: option.splits if_splits)
  have z: "hh < 24" "mm < 60" using assms(2) m by (simp_all add: plain_offset_def plain_zone_def)
  have f: "u_year u < 10000" "u_sec u = 0" "u_nanos u = 0" using one_off_match_fields [OF m] by simp_all
  obtain neg' hh' mm' where "one_off_match normalized = Some (u, neg', hh', mm')" "hh' < 24" "mm' < 60"
    "zone_minutes neg' hh' mm' = zone_minutes neg hh mm"
    using one_off_match_format [OF v f zone_minutes_bound [OF z, of neg]] unfolding r(2) by blast
  with v f r show ?thesis by (simp add: parseOneOffTime_def Let_def) (simp add: format_one_off_def)
qed

lemma NewOneOffSchedule_again:
  assumes "NewOneOffSchedule raw = Inr n" "plain_offset raw"
  shows "GetKind n = ScheduleKindAt \<and> NewOneOffSchedule (sc_At n) = Inr n"
proof -
  obtain t normalized where p: "parseOneOffTime raw = Inr (t, normalized)"
    and n: "n = zero_schedule\<lparr>sc_Kind := ScheduleKindAt, sc_At := normalized, sc_AtTime := t\<rparr>"
    using assms(1) by (auto simp: NewOneOffSchedule_def split: sum.splits)
  from parseOneOffTime_again [OF p assms(2)] show ?thesis by (simp add: n NewOneOffSchedule_def GetKind_def)
qed

text \<open>
  C27: canonical schedules. Normalising a cron or one-off schedule gives a schedule that normalises
  to itself, so the fingerprint under which the scheduler keeps its state does not depend on
  spaces in the expression or on how the offset of the time is written.
\<close>

theorem normalize_idempotent:
  assumes "normalizeSchedule prs s = Inr n" "plain_offset (sc_At s)"
  shows "normalizeSchedule prs n = Inr n \<and> Fingerprint prs n = Fingerprint prs s"
proof -
  have "normalizeSchedule prs n = Inr n"
  proof (cases "GetKind s = ScheduleKindCron")
    case True
    with assms(1) show ?thesis using NewCronSchedule_again by (simp add: normalizeSchedule_def)
  next
    case False
    show ?thesis
    proof (cases "GetKind s = ScheduleKindAt")
      case True
      with assms show ?thesis using NewOneOffSchedule_again by (simp add: normalizeSchedule_def)
    next
      case n: False
      then have "n = zero_schedule" using False assms(1) by (auto simp: normalizeSchedule_def split: if_splits)
      then show ?thesis by (simp add: normalizeSchedule_def GetKind_def zero_schedule_def is_zero_def)
    qed
  qed
  then show ?thesis using assms(1) by (simp add: Fingerprint_def)
qed

definition sample_at :: schedule where
  "sample_at = zero_schedule\<lparr>sc_At := ''2026-03-01T09:30:00-00:00''\<rparr>"

theorem normalize_idempotent_witness:
  "Fingerprint (\<lambda>_. Inl ContextCanceled) sample_at = ''at:2026-03-01T09:30:00Z''
   \<and> Fingerprint (\<lambda>_. Inl ContextCanceled) (zero_schedule\<lparr>sc_Kind := ''at'', sc_At := ''2026-03-01T09:30:00Z'',
       sc_AtTime := sc_AtTime (projr (NewOneOffSchedule (sc_At sample_at)))\<rparr>) = ''at:2026-03-01T09:30:00Z''"
proof -
  let ?n = "zero_schedule\<lparr>sc_Kind := ''at'', sc_At := ''2026-03-01T09:30:00Z'',
       sc_AtTime := sc_AtTime (projr (NewOneOffSchedule (sc_At sample_at)))\<rparr>"
  have m: "one_off_match ''2026-03-01T09:30:00-00:00'' = Some (\<lparr> u_year = 2026, u_month = 3, u_day = 1,
      u_hour = 9, u_min = 30, u_sec = 0, u_nanos = 0 \<rparr>, True, 0, 0)"
    by code_simp
  have f: "format_one_off \<lparr> u_year = 2026, u_month = 3, u_day = 1, u_hour = 9, u_min = 30, u_sec = 0, u_nanos = 0 \<rparr> 0
      = ''2026-03-01T09:30:00Z''"
    by code_simp
  have n: "normalizeSchedule (\<lambda>_. Inl ContextCanceled) sample_at = Inr ?n" "plain_offset (sc_At sample_at)"
    using m f by (simp_all add: plain_offset_def plain_zone_def normalizeSchedule_def GetKind_def NewOneOffSchedule_def
        parseOneOffTime_def sample_at_def zero_schedule_def valid_date_def days_in_def zone_minutes_def Let_def)
  have "Fingerprint (\<lambda>_. Inl ContextCanceled) sample_at = ''at:2026-03-01T09:30:00Z''"
    by (simp add: Fingerprint_def n(1))
  with normalize_idempotent [OF n] show ?thesis by simp
qed

end
