(* ===== verification/Sched_Catchup.thy ===== *)
theory Sched_Catchup
  imports Cron_Schedule Core_Status
begin

text \<open>
  Package \<open>scheduler\<close>: the buffer of catch-up runs of a DAG (\<open>schedule_buffer.go\<close>), the missed
  intervals of its schedules (\<open>catchup.go\<close>) and the ids of catch-up and one-off runs
  (\<open>catchup_runid.go\<close>). A parsed cron schedule is its function \<open>Next\<close>; \<open>fires\<close> states what its
  package documents: the next time of the schedule after a given one. The digest of the run ids
  is an argument.
\<close>

section \<open>DAGs and buffers\<close>

record sched_dag =
  sd_Name :: string
  sd_Location :: string
  sd_Schedule :: "schedule list"
  sd_StopSchedule :: "schedule list"
  sd_RestartSchedule :: "schedule list"
  sd_SkipIfSuccessful :: bool
  sd_CatchupWindow :: duration
  sd_OverlapPolicy :: string

datatype schedule_type = ScheduleTypeStart | ScheduleTypeStop | ScheduleTypeRestart

record queue_item =
  q_DAG :: sched_dag
  q_ScheduledTime :: time
  q_TriggerType :: trigger_type
  q_ScheduleType :: schedule_type

record schedule_buffer =
  sb_items :: "queue_item list"
  sb_overlapPolicy :: string
  sb_dagName :: string
  sb_maxItems :: int

definition DefaultMaxBufferItems :: int where
  "DefaultMaxBufferItems = 1000"

definition NewScheduleBuffer :: "string \<Rightarrow> string \<Rightarrow> schedule_buffer" where
  "NewScheduleBuffer dagName policy = \<lparr> sb_items = [], sb_overlapPolicy = policy, sb_dagName = dagName,
     sb_maxItems = DefaultMaxBufferItems \<rparr>"

definition buffer_full :: "schedule_buffer \<Rightarrow> bool" where
  "buffer_full b \<longleftrightarrow> 0 < sb_maxItems b \<and> sb_maxItems b \<le> int (length (sb_items b))"

definition buf_Send :: "queue_item \<Rightarrow> schedule_buffer \<Rightarrow> bool \<times> schedule_buffer" where
  "buf_Send item b = (if buffer_full b then (False, b) else (True, b\<lparr>sb_items := sb_items b @ [item]\<rparr>))"

definition buf_Peek :: "schedule_buffer \<Rightarrow> queue_item option" where
  "buf_Peek b = (case sb_items b of [] \<Rightarrow> None | item # _ \<Rightarrow> Some item)"

definition buf_Pop :: "schedule_buffer \<Rightarrow> queue_item option \<times> schedule_buffer" where
  "buf_Pop b = (case sb_items b of [] \<Rightarrow> (None, b) | item # items \<Rightarrow> (Some item, b\<lparr>sb_items := items\<rparr>))"

definition DropAllButLast :: "schedule_buffer \<Rightarrow> queue_item list \<times> schedule_buffer" where
  "DropAllButLast b =
     (if length (sb_items b) \<le> 1 then ([], b)
      else (butlast (sb_items b), b\<lparr>sb_items := [last (sb_items b)]\<rparr>))"

definition buf_Prepend :: "queue_item \<Rightarrow> schedule_buffer \<Rightarrow> bool \<times> schedule_buffer" where
  "buf_Prepend item b = (if buffer_full b then (False, b) else (True, b\<lparr>sb_items := item # sb_items b\<rparr>))"

definition buf_Len :: "schedule_buffer \<Rightarrow> int" where
  "buf_Len b = int (length (sb_items b))"

section \<open>Missed intervals\<close>

definition ComputeReplayFrom :: "duration \<Rightarrow> time \<Rightarrow> time \<Rightarrow> time \<Rightarrow> time" where
  "ComputeReplayFrom catchupWindow lastTick lastScheduledTime now =
     (let earliest = now - catchupWindow;
          earliest' = (if earliest < lastTick then lastTick else earliest)
      in if earliest' < lastScheduledTime then lastScheduledTime else earliest')"

definition MaxMissedRuns :: nat where
  "MaxMissedRuns = 1000"

text \<open>The loop over one schedule; the times collected so far double as the map of those seen.\<close>

function missed_loop :: "(time \<Rightarrow> time) \<Rightarrow> time \<Rightarrow> time \<Rightarrow> time list \<Rightarrow> time list" where
  "missed_loop nextTime replayTo t result =
     (if replayTo < t then result
      else let result' = (if t \<in> set result then result else result @ [t]); n = nextTime t
           in if n \<le> t then result' else missed_loop nextTime replayTo n result')"
  by pat_completeness auto
termination
  by (relation "measure (\<lambda>(f, to, t, r). nat (to + 1 - t))") auto

declare missed_loop.simps [simp del]

fun missed_schedules :: "schedule list \<Rightarrow> time \<Rightarrow> time \<Rightarrow> time list \<Rightarrow> time list" where
  "missed_schedules [] replayFrom replayTo result = result"
| "missed_schedules (s # ss) replayFrom replayTo result =
     (case sc_Parsed s of
        None \<Rightarrow> missed_schedules ss replayFrom replayTo result
      | Some nextTime \<Rightarrow> missed_schedules ss replayFrom replayTo
          (missed_loop nextTime replayTo (nextTime replayFrom) result))"

definition ComputeMissedIntervals :: "schedule list \<Rightarrow> time \<Rightarrow> time \<Rightarrow> time list" where
  "ComputeMissedIntervals schedules replayFrom replayTo =
     (let result = sort (missed_schedules schedules replayFrom replayTo [])
      in if MaxMissedRuns < length result then drop (length result - MaxMissedRuns) result else result)"

section \<open>Run ids\<close>

definition replace_dots :: "string \<Rightarrow> string" where
  "replace_dots name = map (\<lambda>c. if c = CHR ''.'' then CHR ''_'' else c) name"

definition maxRunIDLen :: nat where
  "maxRunIDLen = 64"

definition hashLen :: nat where
  "hashLen = 8"

text \<open>The layout \<open>20060102T150405\<close>.\<close>

definition format_timestamp :: "time \<Rightarrow> string" where
  "format_timestamp t = (let u = utc_of t in
     pad 4 (u_year u) @ pad 2 (u_month u) @ pad 2 (u_day u) @ ''T''
     @ pad 2 (u_hour u) @ pad 2 (u_min u) @ pad 2 (u_sec u))"

definition generateScheduledRunID ::
  "(string \<Rightarrow> string) \<Rightarrow> string \<Rightarrow> string \<Rightarrow> string \<Rightarrow> time \<Rightarrow> string" where
  "generateScheduledRunID sha prefix dagName hashSource scheduledTime =
     (let maxNameLen = maxRunIDLen - length prefix - 1 - hashLen - 1 - 15
      in prefix @ take maxNameLen (replace_dots dagName) @ ''-'' @ take hashLen (sha hashSource) @ ''-''
         @ format_timestamp scheduledTime)"

definition GenerateCatchupRunID :: "(string \<Rightarrow> string) \<Rightarrow> string \<Rightarrow> time \<Rightarrow> string" where
  "GenerateCatchupRunID sha dagName scheduledTime =
     generateScheduledRunID sha ''catchup-'' dagName dagName scheduledTime"

definition GenerateOneOffRunID :: "(string \<Rightarrow> string) \<Rightarrow> string \<Rightarrow> string \<Rightarrow> time \<Rightarrow> string" where
  "GenerateOneOffRunID sha dagName fingerprint scheduledTime =
     generateScheduledRunID sha ''oneoff-'' dagName (dagName @ '':'' @ fingerprint) scheduledTime"

section \<open>What the parsed schedules do\<close>

definition fires :: "(time \<Rightarrow> time) \<Rightarrow> time set \<Rightarrow> bool" where
  "fires f S \<longleftrightarrow> (\<forall>t. f t \<in> S \<and> t < f t \<and> (\<forall>u \<in> S. t < u \<longrightarrow> f t \<le> u))"

lemma missed_loop_set:
  "fires f S \<Longrightarrow> t \<in> S \<Longrightarrow> set (missed_loop f to t r) = set r \<union> {u \<in> S. t \<le> u \<and> u \<le> to}"
proof (induction f to t r rule: missed_loop.induct)
  case (1 f to t r)
  have f: "f t \<in> S" "t < f t" "\<And>u. u \<in> S \<Longrightarrow> t < u \<Longrightarrow> f t \<le> u"
    using 1(2) unfolding fires_def by auto
  show ?case
  proof (cases "to < t")
    case True
    then show ?thesis by (auto simp: missed_loop.simps [of f to t r])
  next
    case False
    let ?r = "if t \<in> set r then r else r @ [t]"
    have "missed_loop f to t r = missed_loop f to (f t) ?r"
      using False f(2) by (simp add: missed_loop.simps [of f to t r] Let_def)
    moreover have "set (missed_loop f to (f t) ?r) = set ?r \<union> {u \<in> S. f t \<le> u \<and> u \<le> to}"
      using 1(1) [OF False refl refl _ 1(2) f(1)] f(2) by simp
    moreover have "{u \<in> S. t \<le> u \<and> u \<le> to} = insert t {u \<in> S. f t \<le> u \<and> u \<le> to}"
      using 1(3) f False by force
    ultimately show ?thesis by auto
  qed
qed

lemma missed_loop_distinct: "distinct r \<Longrightarrow> distinct (missed_loop f to t r)"
proof (induction f to t r rule: missed_loop.induct)
  case (1 f to t r)
  then show ?case by (subst missed_loop.simps) (simp add: Let_def)
qed

text \<open>All fire times of the schedules in the half-open interval.\<close>

definition fire_times :: "(schedule \<Rightarrow> time set) \<Rightarrow> schedule list \<Rightarrow> time \<Rightarrow> time \<Rightarrow> time set" where
  "fire_times S ss replayFrom replayTo =
     {u. replayFrom < u \<and> u \<le> replayTo \<and> (\<exists>s \<in> set ss. sc_Parsed s \<noteq> None \<and> u \<in> S s)}"

definition cron_ok :: "(schedule \<Rightarrow> time set) \<Rightarrow> schedule list \<Rightarrow> bool" where
  "cron_ok S ss \<longleftrightarrow> (\<forall>s \<in> set ss. \<forall>f. sc_Parsed s = Some f \<longrightarrow> fires f (S s))"

lemma fires_after: "fires f S \<Longrightarrow> {u \<in> S. f t \<le> u \<and> u \<le> b} = {u \<in> S. t < u \<and> u \<le> b}"
proof -
  assume "fires f S"
  then have "t < f t" "\<forall>u \<in> S. t < u \<longrightarrow> f t \<le> u" by (simp_all add: fires_def)
  then show ?thesis by fastforce
qed

lemma missed_schedules_set:
  "cron_ok S ss \<Longrightarrow> set (missed_schedules ss a b r) = set r \<union> fire_times S ss a b"
proof (induction ss arbitrary: r)
  case (Cons s ss)
  have ih: "set (missed_schedules ss a b r) = set r \<union> fire_times S ss a b" for r
    using Cons by (simp add: cron_ok_def)
  show ?case
  proof (cases "sc_Parsed s")
    case None
    then show ?thesis using ih by (auto simp: fire_times_def)
  next
    case (Some f)
    then have f: "fires f (S s)" using Cons.prems by (simp add: cron_ok_def)
    then have "f a \<in> S s" by (simp add: fires_def)
    from missed_loop_set [OF f this, of b r] fires_after [OF f, of a b] Some ih
    show ?thesis by (auto simp: fire_times_def)
  qed
qed (simp add: fire_times_def)

lemma missed_schedules_distinct: "distinct r \<Longrightarrow> distinct (missed_schedules ss a b r)"
  by (induction ss arbitrary: r) (auto simp: missed_loop_distinct split: option.splits)

lemma last_of_sorted:
  fixes xs :: "'a::linorder list"
  assumes "sorted_wrt (<) xs"
  shows "sorted_wrt (<) (drop k xs) \<and> (\<forall>u \<in> set xs - set (drop k xs). \<forall>x \<in> set (drop k xs). u < x)"
proof
  show "sorted_wrt (<) (drop k xs)" using assms by (rule sorted_wrt_drop)
  have "sorted_wrt (<) (take k xs @ drop k xs)" using assms by simp
  then have "\<forall>u \<in> set (take k xs). \<forall>x \<in> set (drop k xs). u < x" unfolding sorted_wrt_append by blast
  moreover have "set xs - set (drop k xs) \<subseteq> set (take k xs)"
    using set_append [of "take k xs" "drop k xs"] by auto
  ultimately show "\<forall>u \<in> set xs - set (drop k xs). \<forall>x \<in> set (drop k xs). u < x" by blast
qed

text \<open>
  C26: missed intervals. \<open>ComputeMissedIntervals\<close> returns, in chronological order and without
  duplicates, the times at which any of the cron schedules fires after \<open>replayFrom\<close> and not after
  \<open>replayTo\<close>: all of them up to the limit of 1000, and the most recent 1000 beyond it.
\<close>

theorem missed_intervals_correct:
  assumes "cron_ok S ss"
  shows "let xs = ComputeMissedIntervals ss replayFrom replayTo; M = fire_times S ss replayFrom replayTo
    in sorted_wrt (<) xs \<and> set xs \<subseteq> M \<and> length xs = min MaxMissedRuns (card M)
      \<and> (\<forall>u \<in> M - set xs. \<forall>x \<in> set xs. u < x)"
proof -
  let ?ys = "sort (missed_schedules ss replayFrom replayTo [])"
  let ?M = "fire_times S ss replayFrom replayTo"
  let ?k = "if MaxMissedRuns < length ?ys then length ?ys - MaxMissedRuns else 0"
  have set: "set ?ys = ?M" using missed_schedules_set [OF assms, of replayFrom replayTo "[]"] by simp
  have dist: "distinct ?ys" by (simp add: missed_schedules_distinct)
  then have len: "length ?ys = card ?M" using distinct_card [OF dist] set by simp
  have sorted: "sorted_wrt (<) ?ys" using dist by (simp add: strict_sorted_iff)
  have xs: "ComputeMissedIntervals ss replayFrom replayTo = drop ?k ?ys"
    by (simp add: ComputeMissedIntervals_def Let_def)
  have sub: "set (drop ?k ?ys) \<subseteq> ?M" using set set_drop_subset [of ?k ?ys] by simp
  have "length (drop ?k ?ys) = min MaxMissedRuns (card ?M)" unfolding len [symmetric] by simp
  then show ?thesis using last_of_sorted [OF sorted, of ?k] sub unfolding Let_def xs set by simp
qed

text \<open>Every minute.\<close>

definition every_minute :: "time \<Rightarrow> time" where
  "every_minute t = (t div minute + 1) * minute"

lemma every_minute_fires: "fires every_minute {u. minute dvd u}"
  unfolding fires_def
proof (intro allI conjI ballI impI)
  fix t
  show "every_minute t \<in> {u. minute dvd u}" by (simp add: every_minute_def)
  show "t < every_minute t"
    using div_mult_mod_eq [of t minute] pos_mod_bound [of minute t] by (simp add: every_minute_def algebra_simps)
  fix u :: time assume "u \<in> {u. minute dvd u}" "t < u"
  then obtain k where "u = minute * k" "t < minute * k" by auto
  moreover from this have "t div minute < k" by (simp add: int_div_less_self zdiv_mono1 div_less_iff_less_mult)
  ultimately show "every_minute t \<le> u" by (simp add: every_minute_def)
qed

definition minute_schedule :: schedule where
  "minute_schedule = zero_schedule\<lparr>sc_Kind := ''cron'', sc_Expression := ''* * * * *'', sc_Parsed := Some every_minute\<rparr>"

theorem missed_intervals_correct_witness:
  "length (ComputeMissedIntervals [minute_schedule] 0 (3 * minute)) = 3"
proof -
  let ?S = "\<lambda>_. {u. minute dvd (u :: time)}"
  have "cron_ok ?S [minute_schedule]" using every_minute_fires by (simp add: cron_ok_def minute_schedule_def)
  from missed_intervals_correct [OF this, of 0 "3 * minute"]
  have "length (ComputeMissedIntervals [minute_schedule] 0 (3 * minute)) =
      min 1000 (card (fire_times ?S [minute_schedule] 0 (3 * minute)))"
    by (simp add: Let_def MaxMissedRuns_def)
  moreover have "fire_times ?S [minute_schedule] 0 (3 * minute) = (\<lambda>k. minute * k) ` {1, 2, 3}"
  proof -
    have "k \<in> {1, 2, 3}" if "0 < minute * k" "minute * k \<le> 3 * minute" for k :: int using that by auto
    then show ?thesis by (auto simp: fire_times_def minute_schedule_def elim!: dvdE)
  qed
  moreover have "card ((\<lambda>k. minute * k) ` {1, 2, 3 :: int}) = 3" by (subst card_image) (auto simp: inj_on_def)
  ultimately show ?thesis by simp
qed

section \<open>Uniqueness of run ids\<close>

lemma pad_inj: "m < 10 ^ w \<Longrightarrow> n < 10 ^ w \<Longrightarrow> pad w m = pad w n \<longleftrightarrow> m = n"
  using num_pad [of m w] num_pad [of n w] by metis

lemma utc_of_seconds: "t div second = u div second \<Longrightarrow> utc_of u = (utc_of t)\<lparr>u_nanos := u_nanos (utc_of u)\<rparr>"
proof -
  assume e: "t div second = u div second"
  show ?thesis unfolding utc_of_def Let_def e by (simp only: split_beta utc.simps)
qed

lemma time_of_utc_nanos: "time_of_utc (v\<lparr>u_nanos := n\<rparr>) = time_of_utc v - int (u_nanos v) + int n"
  by (simp add: time_of_utc_def Let_def)

lemma utc_of_seconds_iff:
  assumes "0 \<le> t" "0 \<le> u" "(utc_of t)\<lparr>u_nanos := 0\<rparr> = (utc_of u)\<lparr>u_nanos := 0\<rparr>"
  shows "t div second = u div second"
proof -
  have n: "u_nanos (utc_of x) = nat (x mod second)" for x
    unfolding utc_of_def Let_def by (simp only: split_beta utc.simps)
  have "x - x mod second = time_of_utc ((utc_of x)\<lparr>u_nanos := 0\<rparr>)" if "0 \<le> x" for x
    using time_of_utc_of [OF that] by (simp add: time_of_utc_nanos n)
  from this [OF assms(1)] this [OF assms(2)] assms(3) have "t - t mod second = u - u mod second" by simp
  then show ?thesis by (simp add: minus_mod_eq_mult_div)
qed

lemma format_timestamp_iff:
  assumes "0 \<le> t" "0 \<le> u" "u_year (utc_of t) < 10000" "u_year (utc_of u) < 10000"
  shows "format_timestamp t = format_timestamp u \<longleftrightarrow> t div second = u div second"
proof
  assume e: "format_timestamp t = format_timestamp u"
  have v: "valid_date (utc_of t)" "valid_date (utc_of u)" using time_of_utc_of assms by auto
  from e have "(utc_of t)\<lparr>u_nanos := 0\<rparr> = (utc_of u)\<lparr>u_nanos := 0\<rparr>"
    using valid_date_bounds [OF v(1)] valid_date_bounds [OF v(2)] assms(3,4)
    by (simp add: format_timestamp_def Let_def pad_inj append_eq_append_conv del: append_Cons)
  with assms(1,2) show "t div second = u div second" by (rule utc_of_seconds_iff)
next
  assume "t div second = u div second"
  from utc_of_seconds [OF this] obtain n where "utc_of u = (utc_of t)\<lparr>u_nanos := n\<rparr>" by blast
  then show "format_timestamp t = format_timestamp u" by (simp add: format_timestamp_def Let_def)
qed

lemma length_timestamp: "length (format_timestamp t) = 15"
  by (simp add: format_timestamp_def Let_def)

text \<open>
  C28: ids of scheduled runs. The id of a catch-up or one-off run is at most 64 characters long, the
  ids of two slots of one DAG are equal only if the slots are the same second, and no catch-up id
  is a one-off id. So planning a slot again, after a restart or a failed dispatch, gives the same
  run, and different slots never collide.
\<close>

theorem scheduled_run_ids:
  assumes "\<And>s. length (sha s) = 64" "0 \<le> t" "0 \<le> u" "u_year (utc_of t) < 10000" "u_year (utc_of u) < 10000"
  shows "length (GenerateCatchupRunID sha dag t) \<le> maxRunIDLen
    \<and> length (GenerateOneOffRunID sha dag fp t) \<le> maxRunIDLen
    \<and> (GenerateCatchupRunID sha dag t = GenerateCatchupRunID sha dag u \<longleftrightarrow> t div second = u div second)
    \<and> (GenerateOneOffRunID sha dag fp t = GenerateOneOffRunID sha dag fp u \<longleftrightarrow> t div second = u div second)
    \<and> GenerateCatchupRunID sha dag t \<noteq> GenerateOneOffRunID sha dag fp u"
proof -
  have len: "length (generateScheduledRunID sha p dag h t) \<le> maxRunIDLen" if "length p \<le> 8" for p h
    using that assms(1) by (simp add: generateScheduledRunID_def Let_def length_timestamp maxRunIDLen_def hashLen_def)
  have eq: "generateScheduledRunID sha p dag h t = generateScheduledRunID sha p dag h u \<longleftrightarrow>
      t div second = u div second" for p h
    using format_timestamp_iff [OF assms(2-5)] by (simp add: generateScheduledRunID_def Let_def)
  have "GenerateCatchupRunID sha dag t \<noteq> GenerateOneOffRunID sha dag fp u"
    by (simp add: GenerateCatchupRunID_def GenerateOneOffRunID_def generateScheduledRunID_def Let_def)
  with len eq show ?thesis by (simp add: GenerateCatchupRunID_def GenerateOneOffRunID_def)
qed

lemma utc_of_first_day: "0 \<le> t \<Longrightarrow> t < 86400 * second \<Longrightarrow> u_year (utc_of t) = 1"
proof -
  assume "0 \<le> t" "t < 86400 * second"
  then have "nat (t div second) < 86400" by (simp add: nat_less_iff div_less_iff_less_mult)
  then have "nat (t div second) div 86400 = 0" by simp
  moreover have "find_year 1 0 = (1, 0)" by (subst find_year.simps) simp
  ultimately show ?thesis by (simp add: utc_of_def Let_def split: prod.splits)
qed

theorem scheduled_run_ids_witness:
  "GenerateCatchupRunID (\<lambda>s. take 64 (s @ replicate 64 CHR ''0'')) ''a.b'' (60 * second)
     \<noteq> GenerateCatchupRunID (\<lambda>s. take 64 (s @ replicate 64 CHR ''0'')) ''a.b'' (120 * second)
   \<and> length (GenerateCatchupRunID (\<lambda>s. take 64 (s @ replicate 64 CHR ''0'')) ''a.b'' (60 * second)) \<le> 64"
  using scheduled_run_ids [of "\<lambda>s. take 64 (s @ replicate 64 CHR ''0'')" "60 * second" "120 * second" "''a.b''" "[]"]
    utc_of_first_day [of "60 * second"] utc_of_first_day [of "120 * second"]
  by (simp add: maxRunIDLen_def)

end
