(* ===== verification/Sched_State.thy ===== *)
theory Sched_State
  imports Sched_Catchup "HOL-Library.AList"
begin

text \<open>
  Package \<open>scheduler\<close>: the persistent state of the scheduler (\<open>watermark.go\<close>, \<open>schedule_state.go\<close>)
  and what \<open>filewatermark\<close> makes of its file. Maps are association lists; the order of a list
  stands for the order of iteration.
\<close>

section \<open>Watermarks\<close>

datatype one_off_status = OneOffStatusUnset | OneOffStatusPending | OneOffStatusConsumed

record one_off_state =
  oo_ScheduledTime :: time
  oo_Status :: one_off_status

record dag_watermark =
  wm_LastScheduledTime :: time
  wm_StartScheduleFingerprint :: string
  wm_SkipSuccessResetAt :: time
  wm_OneOffs :: "(string \<times> one_off_state) list"

record scheduler_state =
  ss_Version :: int
  ss_LastTick :: time
  ss_DAGs :: "(string \<times> dag_watermark) list"

definition SchedulerStateVersion :: int where
  "SchedulerStateVersion = 3"

definition zero_watermark :: dag_watermark where
  "zero_watermark = \<lparr> wm_LastScheduledTime = 0, wm_StartScheduleFingerprint = [],
     wm_SkipSuccessResetAt = 0, wm_OneOffs = [] \<rparr>"

definition zero_one_off :: one_off_state where
  "zero_one_off = \<lparr> oo_ScheduledTime = 0, oo_Status = OneOffStatusUnset \<rparr>"

text \<open>Reading a Go map gives the zero value for a missing key.\<close>

definition lookup :: "'v \<Rightarrow> ('k \<times> 'v) list \<Rightarrow> 'k \<Rightarrow> 'v" where
  "lookup z m k = (case map_of m k of None \<Rightarrow> z | Some v \<Rightarrow> v)"

definition isZeroDAGWatermark :: "dag_watermark \<Rightarrow> bool" where
  "isZeroDAGWatermark w \<longleftrightarrow> is_zero (wm_LastScheduledTime w) \<and> wm_StartScheduleFingerprint w = []
     \<and> is_zero (wm_SkipSuccessResetAt w) \<and> wm_OneOffs w = []"

section \<open>Reconciling the state with a DAG\<close>

definition oneOffSchedules :: "sched_dag \<Rightarrow> schedule list" where
  "oneOffSchedules dag = filter IsOneOff (sd_Schedule dag)"

fun reconcile_active ::
  "cron_parser \<Rightarrow> time \<Rightarrow> schedule list \<Rightarrow> (string \<times> one_off_state) list \<Rightarrow> string list \<Rightarrow> bool \<Rightarrow>
   (string \<times> one_off_state) list \<times> string list \<times> bool" where
  "reconcile_active prs now [] m active changed = (m, active, changed)"
| "reconcile_active prs now (s # ss) m active changed =
     (let fp = Fingerprint prs s in
      if fp = [] then reconcile_active prs now ss m active changed
      else case OneOffTime s of
        None \<Rightarrow> reconcile_active prs now ss m (fp # active) changed
      | Some scheduledTime \<Rightarrow>
          (case map_of m fp of
             Some existing \<Rightarrow>
               if is_zero (oo_ScheduledTime existing)
               then reconcile_active prs now ss
                 (AList.update fp (existing\<lparr>oo_ScheduledTime := scheduledTime\<rparr>) m) (fp # active) True
               else reconcile_active prs now ss m (fp # active) changed
           | None \<Rightarrow> reconcile_active prs now ss
               (AList.update fp \<lparr> oo_ScheduledTime = scheduledTime,
                  oo_Status = (if scheduledTime < now then OneOffStatusConsumed else OneOffStatusPending) \<rparr> m)
               (fp # active) True))"

definition reconcileOneOffState ::
  "cron_parser \<Rightarrow> dag_watermark \<Rightarrow> sched_dag \<Rightarrow> time \<Rightarrow> dag_watermark \<times> bool" where
  "reconcileOneOffState prs current dag now =
     (case reconcile_active prs now (oneOffSchedules dag) (wm_OneOffs current) [] False of
        (m, active, changed) \<Rightarrow>
          (let m' = filter (\<lambda>e. fst e \<in> set active) m
           in (current\<lparr>wm_OneOffs := m'\<rparr>, changed \<or> (\<exists>e \<in> set m. fst e \<notin> set active))))"

definition startScheduleFingerprint :: "cron_parser \<Rightarrow> sched_dag \<Rightarrow> string" where
  "startScheduleFingerprint prs dag =
     (let fps = filter (\<lambda>fp. fp \<noteq> []) (map (Fingerprint prs) (filter IsCron (sd_Schedule dag)))
      in if fps = [] then []
         else ''skip:'' @ format_bool (sd_SkipIfSuccessful dag) @ ''|'' @ str_join (sort fps) '','')"

definition reconcileStartScheduleState ::
  "cron_parser \<Rightarrow> dag_watermark \<Rightarrow> sched_dag \<Rightarrow> time \<Rightarrow> dag_watermark \<times> bool" where
  "reconcileStartScheduleState prs current dag observedAt =
     (let fp = startScheduleFingerprint prs dag in
      if wm_StartScheduleFingerprint current = fp then (current, False)
      else if fp = [] then
        (if wm_StartScheduleFingerprint current = [] \<and> is_zero (wm_SkipSuccessResetAt current)
         then (current, False)
         else (current\<lparr>wm_StartScheduleFingerprint := [], wm_SkipSuccessResetAt := 0\<rparr>, True))
      else if wm_StartScheduleFingerprint current = []
      then (current\<lparr>wm_StartScheduleFingerprint := fp\<rparr>, True)
      else (current\<lparr>wm_StartScheduleFingerprint := fp, wm_SkipSuccessResetAt := observedAt\<rparr>, True))"

section \<open>The next planned run\<close>

definition planned_candidate :: "cron_parser \<Rightarrow> dag_watermark \<Rightarrow> time \<Rightarrow> schedule \<Rightarrow> time" where
  "planned_candidate prs w now s =
     (if IsCron s then schedule_Next prs s now
      else if IsOneOff s then
        (case map_of (wm_OneOffs w) (Fingerprint prs s) of
           Some oneOff \<Rightarrow> if oo_Status oneOff \<noteq> OneOffStatusPending then 0 else oo_ScheduledTime oneOff
         | None \<Rightarrow> schedule_Next prs s now)
      else 0)"

definition NextPlannedRun :: "cron_parser \<Rightarrow> sched_dag \<Rightarrow> time \<Rightarrow> scheduler_state option \<Rightarrow> time" where
  "NextPlannedRun prs dag now state =
     (let w = (case state of None \<Rightarrow> zero_watermark | Some st \<Rightarrow> lookup zero_watermark (ss_DAGs st) (sd_Name dag))
      in fold (\<lambda>s n. let c = planned_candidate prs w now s
                    in if is_zero c then n else if is_zero n \<or> c < n then c else n)
           (sd_Schedule dag) 0)"

section \<open>The state file\<close>

definition newEmptyState :: scheduler_state where
  "newEmptyState = \<lparr> ss_Version = SchedulerStateVersion, ss_LastTick = 0, ss_DAGs = [] \<rparr>"

text \<open>The versions 0 to 2 differ from the current one in their number only.\<close>

definition migrateWatermarkState :: "int \<Rightarrow> scheduler_state \<Rightarrow> scheduler_state option" where
  "migrateWatermarkState version state =
     (if version = 0 \<or> version = 1 \<or> version = 2 then Some (state\<lparr>ss_Version := SchedulerStateVersion\<rparr>)
      else None)"

text \<open>\<open>None\<close> is a file that is missing, unreadable or no valid JSON.\<close>

definition watermark_Load :: "scheduler_state option \<Rightarrow> scheduler_state" where
  "watermark_Load file =
     (case file of
        None \<Rightarrow> newEmptyState
      | Some state \<Rightarrow>
          if ss_Version state = SchedulerStateVersion then state
          else case migrateWatermarkState (ss_Version state) state of
            None \<Rightarrow> newEmptyState
          | Some migrated \<Rightarrow> migrated)"

end
