(* ===== verification/Tick_Planner.thy ===== *)
theory Tick_Planner
  imports Sched_State
begin

text \<open>
  Package \<open>scheduler\<close>, file \<open>tick_planner.go\<close>, with \<open>suspension.go\<close> and the tick of
  \<open>scheduler.go\<close>: which runs to start, stop and restart at a tick, the catch-up buffers, and the
  progress kept in the state. What the planner asks the rest of the system, the clock and the
  outcome of what it tells others to do are the record \<open>planner_env\<close>; the answers about a DAG do
  not change during one call of \<open>Plan\<close>. The time zone in which a schedule is evaluated is part of its
  \<open>Next\<close> function. The state on disk is the last one saved.
\<close>

section \<open>State and environment\<close>

record planned_run =
  pr_DAG :: sched_dag
  pr_RunID :: string
  pr_ScheduledTime :: time
  pr_TriggerType :: trigger_type
  pr_ScheduleType :: schedule_type
  pr_Schedule :: schedule
  pr_Fingerprint :: string

record run_status =
  rs_Status :: status
  rs_ScheduleTime :: string
  rs_StartedAt :: string
  rs_QueuedAt :: string
  rs_FinishedAt :: string

record planner =
  tp_state :: scheduler_state
  tp_dirty :: bool
  tp_entries :: "(string \<times> sched_dag) list"
  tp_buffers :: "(string \<times> schedule_buffer) list"
  tp_deletedGrace :: "(string \<times> time) list"
  tp_lastPlanResult :: "planned_run list"
  tp_disk :: "scheduler_state option"

record planner_env =
  pe_prs :: cron_parser
  pe_sha :: "string \<Rightarrow> string"
  pe_parseInLocation :: "string \<Rightarrow> string \<Rightarrow> go_error + time"
  pe_clock :: time
  pe_queuesEnabled :: bool
  pe_isSuspended :: "string \<Rightarrow> bool"
  pe_isRunning :: "string \<Rightarrow> go_error + bool"
  pe_isQueued :: "string \<Rightarrow> go_error + bool"
  pe_latestStatus :: "string \<Rightarrow> go_error + run_status"
  pe_genRunID :: "string \<Rightarrow> nat \<Rightarrow> go_error + string"
  pe_runExists :: "string \<Rightarrow> go_error + bool"
  pe_runExistsAfter :: "string \<Rightarrow> go_error + bool"
  pe_enqueue :: "(planned_run \<Rightarrow> go_error option) option"
  pe_dispatch :: "planned_run \<Rightarrow> go_error option"
  pe_stop :: "planned_run \<Rightarrow> go_error option"
  pe_restart :: "planned_run \<Rightarrow> go_error option"
  pe_saveErr :: "go_error option"

definition NewTickPlanner :: planner where
  "NewTickPlanner = \<lparr> tp_state = newEmptyState, tp_dirty = False, tp_entries = [], tp_buffers = [],
     tp_deletedGrace = [], tp_lastPlanResult = [], tp_disk = None \<rparr>"

text \<open>\<open>stringutil.ParseTime\<close>.\<close>

definition ParseTime :: "(string \<Rightarrow> string \<Rightarrow> go_error + time) \<Rightarrow> string \<Rightarrow> go_error + time" where
  "ParseTime parseInLocation val =
     (if val = [] \<or> val = ''-'' then Inr 0
      else case parseInLocation ''2006-01-02T15:04:05Z07:00'' val of
        Inr t \<Rightarrow> Inr t
      | Inl e \<Rightarrow> parseInLocation ''2006-01-02 15:04:05'' val)"

section \<open>Suspension\<close>

definition isSchedulerManagedTriggerType :: "trigger_type \<Rightarrow> bool" where
  "isSchedulerManagedTriggerType t \<longleftrightarrow> t = TriggerTypeScheduler \<or> t = TriggerTypeCatchUp \<or> t = TriggerTypeRetry"

text \<open>\<open>DAG.SuspendFlagName\<close>; the name that \<open>isSuspendedDAG\<close> asks for when it has no status.\<close>

definition SuspendFlagName :: "sched_dag \<Rightarrow> string" where
  "SuspendFlagName dag =
     (let base = trim_suffix (path_base (sd_Location dag)) (path_ext (sd_Location dag))
      in if base \<noteq> [] \<and> base \<noteq> ''.'' then base else sd_Name dag)"

definition isSuspendedDAG :: "planner_env \<Rightarrow> sched_dag \<Rightarrow> bool" where
  "isSuspendedDAG pe dag \<longleftrightarrow> SuspendFlagName dag \<noteq> [] \<and> pe_isSuspended pe (SuspendFlagName dag)"

section \<open>Watermarks\<close>

definition get_wm :: "string \<Rightarrow> planner \<Rightarrow> dag_watermark" where
  "get_wm name tp = lookup zero_watermark (ss_DAGs (tp_state tp)) name"

definition put_wm :: "string \<Rightarrow> dag_watermark \<Rightarrow> planner \<Rightarrow> planner" where
  "put_wm name w tp = tp\<lparr>tp_state := (tp_state tp)\<lparr>ss_DAGs := AList.update name w (ss_DAGs (tp_state tp))\<rparr>,
     tp_dirty := True\<rparr>"

definition delete_wm :: "string \<Rightarrow> planner \<Rightarrow> planner" where
  "delete_wm name tp = tp\<lparr>tp_state := (tp_state tp)\<lparr>ss_DAGs := AList.delete name (ss_DAGs (tp_state tp))\<rparr>,
     tp_dirty := True\<rparr>"

definition advanceDAGWatermark :: "string \<Rightarrow> time \<Rightarrow> planner \<Rightarrow> bool \<times> planner" where
  "advanceDAGWatermark name scheduledTime tp =
     (let w = get_wm name tp in
      if wm_LastScheduledTime w = scheduledTime then (False, tp)
      else (True, put_wm name (w\<lparr>wm_LastScheduledTime := scheduledTime\<rparr>) tp))"

abbreviation advance :: "string \<Rightarrow> time \<Rightarrow> planner \<Rightarrow> planner" where
  "advance name t tp \<equiv> snd (advanceDAGWatermark name t tp)"

definition markOneOffConsumed :: "string \<Rightarrow> string \<Rightarrow> time \<Rightarrow> planner \<Rightarrow> bool \<times> planner" where
  "markOneOffConsumed name fp scheduledTime tp =
     (if fp = [] then (False, tp)
      else
        (let w = get_wm name tp; st = lookup zero_one_off (wm_OneOffs w) fp;
             st' = (if is_zero (oo_ScheduledTime st) then st\<lparr>oo_ScheduledTime := scheduledTime\<rparr> else st)
         in if oo_Status st' = OneOffStatusConsumed then (False, tp)
            else (True, put_wm name
              (w\<lparr>wm_OneOffs := AList.update fp (st'\<lparr>oo_Status := OneOffStatusConsumed\<rparr>) (wm_OneOffs w)\<rparr>) tp)))"

definition Flush :: "planner_env \<Rightarrow> planner \<Rightarrow> planner" where
  "Flush pe tp =
     (if \<not> tp_dirty tp then tp
      else case pe_saveErr pe of
        Some e \<Rightarrow> tp
      | None \<Rightarrow> tp\<lparr>tp_dirty := False, tp_disk := Some (tp_state tp)\<rparr>)"

definition pendingOneOffState :: "string \<Rightarrow> string \<Rightarrow> planner \<Rightarrow> one_off_state option" where
  "pendingOneOffState name fp tp =
     (case map_of (wm_OneOffs (get_wm name tp)) fp of
        None \<Rightarrow> None
      | Some st \<Rightarrow> if oo_Status st \<noteq> OneOffStatusPending then None else Some st)"

section \<open>Guards of live runs\<close>

definition scheduleDueAt :: "schedule \<Rightarrow> time \<Rightarrow> time option" where
  "scheduleDueAt s now =
     (case sc_Parsed s of
        None \<Rightarrow> None
      | Some f \<Rightarrow> (let n = f (now - second) in if now < n then None else Some n))"

definition scheduleMatchesFireTime :: "schedule \<Rightarrow> time \<Rightarrow> bool" where
  "scheduleMatchesFireTime s scheduledTime \<longleftrightarrow> scheduleDueAt s scheduledTime = Some scheduledTime"

datatype slot_state = SlotUnknown | SlotCurrent time | SlotStale time

definition latestScheduledSlot :: "planner_env \<Rightarrow> run_status \<Rightarrow> schedule \<Rightarrow> slot_state" where
  "latestScheduledSlot pe st s =
     (if rs_ScheduleTime st = [] then SlotUnknown
      else case ParseTime (pe_parseInLocation pe) (rs_ScheduleTime st) of
        Inl e \<Rightarrow> SlotUnknown
      | Inr t \<Rightarrow>
          (let scheduledAt = truncate_time t minute
           in if scheduleMatchesFireTime s scheduledAt then SlotCurrent scheduledAt else SlotStale scheduledAt))"

definition latestRunReferenceTime :: "planner_env \<Rightarrow> run_status \<Rightarrow> time option" where
  "latestRunReferenceTime pe st =
     (case ParseTime (pe_parseInLocation pe) (rs_StartedAt st) of
        Inl e \<Rightarrow> None
      | Inr startedAt \<Rightarrow>
          (let t = (if rs_QueuedAt st \<noteq> [] then
                      (case ParseTime (pe_parseInLocation pe) (rs_QueuedAt st) of
                         Inr queuedAt \<Rightarrow> if queuedAt < startedAt then queuedAt else startedAt
                       | Inl e \<Rightarrow> startedAt)
                    else startedAt)
           in Some (truncate_time t minute)))"

definition latestSuccessReferenceTime :: "planner_env \<Rightarrow> run_status \<Rightarrow> time option" where
  "latestSuccessReferenceTime pe st =
     (let started = (case ParseTime (pe_parseInLocation pe) (rs_StartedAt st) of
            Inr t \<Rightarrow> if is_zero t then None else Some t | Inl e \<Rightarrow> None)
      in case ParseTime (pe_parseInLocation pe) (rs_FinishedAt st) of
           Inr t \<Rightarrow> if is_zero t then started else Some t
         | Inl e \<Rightarrow> started)"

definition isPreEditSuccess :: "planner_env \<Rightarrow> string \<Rightarrow> run_status \<Rightarrow> planner \<Rightarrow> bool" where
  "isPreEditSuccess pe name st tp \<longleftrightarrow>
     (let resetAt = wm_SkipSuccessResetAt (get_wm name tp)
      in \<not> is_zero resetAt
         \<and> (case latestSuccessReferenceTime pe st of None \<Rightarrow> False | Some successAt \<Rightarrow> successAt < resetAt))"

text \<open>\<open>None\<close> means that the loop does not end.\<close>

partial_function (option) prev_loop :: "(time \<Rightarrow> time) \<Rightarrow> time \<Rightarrow> time \<Rightarrow> time \<Rightarrow> time option" where
  [code]: "prev_loop f n prev t = (if t < n then prev_loop f n t (f t) else Some prev)"

definition computePrevExecTime :: "time \<Rightarrow> schedule \<Rightarrow> time option" where
  "computePrevExecTime n s =
     (case sc_Parsed s of
        None \<Rightarrow> Some n
      | Some f \<Rightarrow>
          (case prev_loop f n 0 (f (n - 32 * 24 * hour)) of
             None \<Rightarrow> None
           | Some prev \<Rightarrow>
               if is_zero prev then Some (n - (f (n + second) - n)) else Some prev))"

text \<open>The guard \<open>skipIfSuccessful\<close>, on the slot or the start of the latest run.\<close>

definition not_skipped ::
  "planner_env \<Rightarrow> sched_dag \<Rightarrow> time \<Rightarrow> schedule \<Rightarrow> run_status \<Rightarrow> time \<Rightarrow> planner \<Rightarrow> bool option" where
  "not_skipped pe dag scheduledTime s st reference tp =
     (if sd_SkipIfSuccessful dag \<and> rs_Status st = Succeeded \<and> sc_Parsed s \<noteq> None
      then if isPreEditSuccess pe (sd_Name dag) st tp then Some True
           else map_option (\<lambda>prev. \<not> (prev \<le> reference \<and> reference < scheduledTime))
                  (computePrevExecTime scheduledTime s)
      else Some True)"

definition dag_idle :: "planner_env \<Rightarrow> sched_dag \<Rightarrow> run_status option" where
  "dag_idle pe dag =
     (case pe_isRunning pe (sd_Name dag) of
        Inr False \<Rightarrow>
          (case pe_isQueued pe (sd_Name dag) of
             Inr False \<Rightarrow>
               (case pe_latestStatus pe (sd_Name dag) of
                  Inr st \<Rightarrow> if rs_Status st = Running then None else Some st
                | Inl e \<Rightarrow> None)
           | _ \<Rightarrow> None)
      | _ \<Rightarrow> None)"

definition shouldRun :: "planner_env \<Rightarrow> sched_dag \<Rightarrow> time \<Rightarrow> schedule \<Rightarrow> planner \<Rightarrow> bool option" where
  "shouldRun pe dag scheduledTime s tp =
     (case dag_idle pe dag of
        None \<Rightarrow> Some False
      | Some st \<Rightarrow>
          (case latestScheduledSlot pe st s of
             SlotCurrent slot \<Rightarrow>
               if scheduledTime \<le> slot then Some False
               else not_skipped pe dag scheduledTime s st slot tp
           | SlotStale slot \<Rightarrow> Some True
           | SlotUnknown \<Rightarrow>
               (case latestRunReferenceTime pe st of
                  None \<Rightarrow> Some True
                | Some startedAt \<Rightarrow>
                    if scheduledTime \<le> startedAt then Some False
                    else not_skipped pe dag scheduledTime s st startedAt tp)))"

definition shouldRunOneOff :: "planner_env \<Rightarrow> sched_dag \<Rightarrow> bool" where
  "shouldRunOneOff pe dag \<longleftrightarrow> dag_idle pe dag \<noteq> None"

section \<open>Planned runs\<close>

definition createPlannedRun ::
  "planner_env \<Rightarrow> sched_dag \<Rightarrow> nat \<Rightarrow> schedule \<Rightarrow> time \<Rightarrow> trigger_type \<Rightarrow> planned_run option" where
  "createPlannedRun pe dag i s scheduledTime trigger =
     (let make = (\<lambda>runID. \<lparr> pr_DAG = dag, pr_RunID = runID, pr_ScheduledTime = scheduledTime,
            pr_TriggerType = trigger, pr_ScheduleType = ScheduleTypeStart, pr_Schedule = s,
            pr_Fingerprint = Fingerprint (pe_prs pe) s \<rparr>)
      in if trigger = TriggerTypeCatchUp then Some (make (GenerateCatchupRunID (pe_sha pe) (sd_Name dag) scheduledTime))
         else if IsOneOff s
         then Some (make (GenerateOneOffRunID (pe_sha pe) (sd_Name dag) (Fingerprint (pe_prs pe) s) scheduledTime))
         else case pe_genRunID pe (sd_Name dag) i of Inl e \<Rightarrow> None | Inr runID \<Rightarrow> Some (make runID))"

definition shouldPreferStartCandidate :: "planned_run \<Rightarrow> planned_run option \<Rightarrow> bool" where
  "shouldPreferStartCandidate candidate current =
     (case current of
        None \<Rightarrow> True
      | Some cur \<Rightarrow> pr_ScheduledTime candidate < pr_ScheduledTime cur
          \<or> pr_ScheduledTime candidate = pr_ScheduledTime cur
            \<and> IsOneOff (pr_Schedule candidate) \<and> \<not> IsOneOff (pr_Schedule cur))"

definition better :: "planned_run option \<Rightarrow> planned_run option \<Rightarrow> planned_run option" where
  "better candidate current =
     (case candidate of
        None \<Rightarrow> current
      | Some run \<Rightarrow> if shouldPreferStartCandidate run current then Some run else current)"

definition dropSuspendedCatchupState :: "string \<Rightarrow> sched_dag \<Rightarrow> time \<Rightarrow> planner \<Rightarrow> planner" where
  "dropSuspendedCatchupState name dag now tp =
     (if map_of (tp_buffers tp) name \<noteq> None
      then advance name now (tp\<lparr>tp_buffers := AList.delete name (tp_buffers tp)\<rparr>)
      else if 0 < sd_CatchupWindow dag then advance name now tp
      else tp)"

definition put_buffer :: "string \<Rightarrow> schedule_buffer \<Rightarrow> planner \<Rightarrow> planner" where
  "put_buffer name b tp = tp\<lparr>tp_buffers :=
     (if sb_items b = [] then AList.delete name (tp_buffers tp) else AList.update name b (tp_buffers tp))\<rparr>"

definition collapse :: "string \<Rightarrow> schedule_buffer \<Rightarrow> planner \<Rightarrow> schedule_buffer \<times> planner" where
  "collapse name b tp =
     (case DropAllButLast b of
        (dropped, b') \<Rightarrow> (b', if dropped = [] then tp else advance name (q_ScheduledTime (last dropped)) tp))"

definition pop_skipped :: "string \<Rightarrow> schedule_buffer \<Rightarrow> planner \<Rightarrow> planner" where
  "pop_skipped name b tp =
     (case buf_Pop b of
        (None, b') \<Rightarrow> put_buffer name b' tp
      | (Some item, b') \<Rightarrow> put_buffer name b' (advance name (q_ScheduledTime item) tp))"

text \<open>The catch-up part of an entry: the run it produces, whether it was put off, the new state.\<close>

definition plan_catchup :: "planner_env \<Rightarrow> string \<Rightarrow> planner \<Rightarrow> planned_run option \<times> bool \<times> planner" where
  "plan_catchup pe name tp =
     (case map_of (tp_buffers tp) name of
        None \<Rightarrow> (None, False, tp)
      | Some b \<Rightarrow>
          (case buf_Peek b of
             None \<Rightarrow> (None, False, tp\<lparr>tp_buffers := AList.delete name (tp_buffers tp)\<rparr>)
           | Some item \<Rightarrow>
               (let running = (case pe_isRunning pe (sd_Name (q_DAG item)) of Inl e \<Rightarrow> False | Inr r \<Rightarrow> r) in
                case pe_isQueued pe (sd_Name (q_DAG item)) of
                  Inl e \<Rightarrow> (None, True, tp)
                | Inr queued \<Rightarrow>
                    if \<not> (running \<or> queued) then
                      (case (if sb_overlapPolicy b = OverlapPolicyLatest then collapse name b tp else (b, tp)) of
                         (b1, tp1) \<Rightarrow>
                           (case buf_Pop b1 of
                              (None, b2) \<Rightarrow> (None, False, put_buffer name b2 tp1)
                            | (Some it, b2) \<Rightarrow>
                                (createPlannedRun pe (q_DAG it) 0 zero_schedule (q_ScheduledTime it) (q_TriggerType it),
                                 False, put_buffer name b2 tp1)))
                    else if sb_overlapPolicy b = OverlapPolicyAll then (None, False, tp)
                    else if sb_overlapPolicy b = OverlapPolicyLatest
                    then (case collapse name b tp of (b1, tp1) \<Rightarrow> (None, False, put_buffer name b1 tp1))
                    else (None, False, pop_skipped name b tp))))"

definition one_off_candidate :: "planner_env \<Rightarrow> time \<Rightarrow> sched_dag \<Rightarrow> nat \<Rightarrow> schedule \<Rightarrow> planner \<Rightarrow> planned_run option" where
  "one_off_candidate pe now dag i s tp =
     (let fp = Fingerprint (pe_prs pe) s in
      if \<not> IsOneOff s \<or> fp = [] then None
      else case pendingOneOffState (sd_Name dag) fp tp of
        None \<Rightarrow> None
      | Some st \<Rightarrow>
          if now < oo_ScheduledTime st \<or> \<not> shouldRunOneOff pe dag then None
          else createPlannedRun pe dag i s (oo_ScheduledTime st) TriggerTypeScheduler)"

definition cron_candidate ::
  "planner_env \<Rightarrow> time \<Rightarrow> sched_dag \<Rightarrow> nat \<Rightarrow> schedule \<Rightarrow> planner \<Rightarrow> planned_run option option" where
  "cron_candidate pe now dag i s tp =
     (if \<not> IsCron s then Some None
      else case scheduleDueAt s now of
        None \<Rightarrow> Some None
      | Some n \<Rightarrow>
          map_option (\<lambda>ok. if ok then createPlannedRun pe dag i s n TriggerTypeScheduler else None)
            (shouldRun pe dag n s tp))"

fun one_off_start ::
  "planner_env \<Rightarrow> time \<Rightarrow> sched_dag \<Rightarrow> planner \<Rightarrow> nat \<Rightarrow> schedule list \<Rightarrow> planned_run option \<Rightarrow> planned_run option" where
  "one_off_start pe now dag tp i [] cur = cur"
| "one_off_start pe now dag tp i (s # ss) cur =
     one_off_start pe now dag tp (Suc i) ss (better (one_off_candidate pe now dag i s tp) cur)"

fun cron_start ::
  "planner_env \<Rightarrow> time \<Rightarrow> sched_dag \<Rightarrow> planner \<Rightarrow> nat \<Rightarrow> schedule list \<Rightarrow> planned_run option \<Rightarrow>
   planned_run option option" where
  "cron_start pe now dag tp i [] cur = Some cur"
| "cron_start pe now dag tp i (s # ss) cur =
     (case cron_candidate pe now dag i s tp of
        None \<Rightarrow> None
      | Some c \<Rightarrow> cron_start pe now dag tp (Suc i) ss (better c cur))"

definition plain_run :: "sched_dag \<Rightarrow> time \<Rightarrow> schedule_type \<Rightarrow> planned_run" where
  "plain_run dag t ty = \<lparr> pr_DAG = dag, pr_RunID = [], pr_ScheduledTime = t, pr_TriggerType = TriggerTypeUnknown,
     pr_ScheduleType = ty, pr_Schedule = zero_schedule, pr_Fingerprint = [] \<rparr>"

definition stop_runs :: "planner_env \<Rightarrow> time \<Rightarrow> sched_dag \<Rightarrow> planned_run list" where
  "stop_runs pe now dag =
     (case pe_latestStatus pe (sd_Name dag) of
        Inr st \<Rightarrow>
          if rs_Status st = Running
          then map (\<lambda>t. plain_run dag t ScheduleTypeStop)
                 (List.map_filter (\<lambda>s. scheduleDueAt s now) (sd_StopSchedule dag))
          else []
      | Inl e \<Rightarrow> [])"

definition restart_runs :: "time \<Rightarrow> sched_dag \<Rightarrow> planned_run list" where
  "restart_runs now dag = map (\<lambda>t. plain_run dag t ScheduleTypeRestart)
     (List.map_filter (\<lambda>s. scheduleDueAt s now) (sd_RestartSchedule dag))"

definition plan_live :: "planner_env \<Rightarrow> time \<Rightarrow> sched_dag \<Rightarrow> planner \<Rightarrow> planned_run list option" where
  "plan_live pe now dag tp =
     map_option (\<lambda>start. (case start of None \<Rightarrow> [] | Some run \<Rightarrow> [run]) @ stop_runs pe now dag @ restart_runs now dag)
       (cron_start pe now dag tp 0 (sd_Schedule dag) (one_off_start pe now dag tp 0 (sd_Schedule dag) None))"

definition plan_entry ::
  "planner_env \<Rightarrow> time \<Rightarrow> string \<times> sched_dag \<Rightarrow> planner \<Rightarrow> (planned_run list \<times> planner) option" where
  "plan_entry pe now e tp =
     (case e of (name, dag) \<Rightarrow>
        if isSuspendedDAG pe dag then Some ([], dropSuspendedCatchupState name dag now tp)
        else case plan_catchup pe name tp of
          (Some run, deferred, tp') \<Rightarrow> Some ([run], tp')
        | (None, True, tp') \<Rightarrow> Some ([], tp')
        | (None, False, tp') \<Rightarrow> map_option (\<lambda>runs. (runs, tp')) (plan_live pe now dag tp'))"

fun plan_entries ::
  "planner_env \<Rightarrow> time \<Rightarrow> (string \<times> sched_dag) list \<Rightarrow> planner \<Rightarrow> (planned_run list \<times> planner) option" where
  "plan_entries pe now [] tp = Some ([], tp)"
| "plan_entries pe now (e # es) tp =
     (case plan_entry pe now e tp of
        None \<Rightarrow> None
      | Some (runs, tp') \<Rightarrow>
          map_option (\<lambda>(rs, tp''). (runs @ rs, tp'')) (plan_entries pe now es tp'))"

definition prune_deleted :: "time \<Rightarrow> string \<times> time \<Rightarrow> planner \<Rightarrow> planner" where
  "prune_deleted now g tp =
     (case g of (name, expiresAt) \<Rightarrow>
        if now < expiresAt then tp
        else
          (let tp1 = tp\<lparr>tp_deletedGrace := AList.delete name (tp_deletedGrace tp)\<rparr>
           in if map_of (tp_entries tp) name \<noteq> None \<or> map_of (ss_DAGs (tp_state tp)) name = None then tp1
              else delete_wm name tp1))"

definition pruneExpiredDeletedWatermarks :: "time \<Rightarrow> planner \<Rightarrow> planner" where
  "pruneExpiredDeletedWatermarks now tp = fold (prune_deleted now) (tp_deletedGrace tp) tp"

definition Plan :: "planner_env \<Rightarrow> time \<Rightarrow> planner \<Rightarrow> (planned_run list \<times> planner) option" where
  "Plan pe now tp =
     (let tp0 = pruneExpiredDeletedWatermarks now tp
      in map_option (\<lambda>(runs, tp'). (runs, tp'\<lparr>tp_lastPlanResult := runs\<rparr>))
           (plan_entries pe now (tp_entries tp0) tp0))"

section \<open>Dispatching and advancing\<close>

definition advance_live :: "planned_run \<Rightarrow> planner \<Rightarrow> planner" where
  "advance_live run tp =
     (if pr_ScheduleType run \<noteq> ScheduleTypeStart \<or> pr_TriggerType run = TriggerTypeCatchUp \<or> \<not> IsCron (pr_Schedule run)
      then tp
      else put_wm (sd_Name (pr_DAG run))
        ((get_wm (sd_Name (pr_DAG run)) tp)\<lparr>wm_LastScheduledTime := pr_ScheduledTime run\<rparr>) tp)"

definition Advance :: "time \<Rightarrow> planner \<Rightarrow> planner" where
  "Advance now tp =
     (let tp1 = fold advance_live (tp_lastPlanResult tp) (tp\<lparr>tp_state := (tp_state tp)\<lparr>ss_LastTick := now\<rparr>\<rparr>)
      in tp1\<lparr>tp_dirty := True, tp_lastPlanResult := []\<rparr>)"

definition reinsertCatchupItem :: "planned_run \<Rightarrow> planner \<Rightarrow> planner" where
  "reinsertCatchupItem run tp =
     (let name = sd_Name (pr_DAG run);
          b = (case map_of (tp_buffers tp) name of
                 Some b \<Rightarrow> b | None \<Rightarrow> NewScheduleBuffer name (sd_OverlapPolicy (pr_DAG run)));
          item = \<lparr> q_DAG = pr_DAG run, q_ScheduledTime = pr_ScheduledTime run,
                   q_TriggerType = pr_TriggerType run, q_ScheduleType = pr_ScheduleType run \<rparr>
      in tp\<lparr>tp_buffers := AList.update name (snd (buf_Prepend item b)) (tp_buffers tp)\<rparr>)"

definition consume :: "planner_env \<Rightarrow> planned_run \<Rightarrow> planner \<Rightarrow> planner" where
  "consume pe run tp =
     (case markOneOffConsumed (sd_Name (pr_DAG run)) (pr_Fingerprint run) (pr_ScheduledTime run) tp of
        (True, tp') \<Rightarrow> Flush pe tp'
      | (False, tp') \<Rightarrow> tp')"

text \<open>
  What a dispatch did to the outside, for the properties below: \<open>Enqueued\<close> and \<open>Dispatched\<close>
  are successful calls.
\<close>

datatype effect = Enqueued planned_run | Dispatched planned_run

definition perform :: "planner_env \<Rightarrow> planned_run \<Rightarrow> (go_error option \<times> effect list) option" where
  "perform pe run =
     (case pr_ScheduleType run of
        ScheduleTypeStart \<Rightarrow>
          if pr_TriggerType run = TriggerTypeCatchUp
          then map_option (\<lambda>enq. (enq run, if enq run = None then [Enqueued run] else [])) (pe_enqueue pe)
          else Some (pe_dispatch pe run, if pe_dispatch pe run = None then [Dispatched run] else [])
      | ScheduleTypeStop \<Rightarrow> Some (pe_stop pe run, [])
      | ScheduleTypeRestart \<Rightarrow> Some (pe_restart pe run, []))"

definition after_failure :: "planner_env \<Rightarrow> planned_run \<Rightarrow> planner \<Rightarrow> planner" where
  "after_failure pe run tp =
     (let oneOff = (pr_ScheduleType run = ScheduleTypeStart \<and> IsOneOff (pr_Schedule run));
          again = (if pr_TriggerType run = TriggerTypeCatchUp \<and> pr_ScheduleType run = ScheduleTypeStart
                   then reinsertCatchupItem run tp else tp)
      in if oneOff then
           (case pe_runExistsAfter pe (pr_RunID run) of
              Inl e \<Rightarrow> tp
            | Inr True \<Rightarrow> consume pe run tp
            | Inr False \<Rightarrow> again)
         else again)"

definition after_success :: "planner_env \<Rightarrow> planned_run \<Rightarrow> planner \<Rightarrow> planner" where
  "after_success pe run tp =
     (let tp1 = (if pr_TriggerType run = TriggerTypeCatchUp \<and> pr_ScheduleType run = ScheduleTypeStart
                 then advance (sd_Name (pr_DAG run)) (pr_ScheduledTime run) tp else tp)
      in if pr_ScheduleType run = ScheduleTypeStart \<and> IsOneOff (pr_Schedule run) then consume pe run tp1 else tp1)"

definition DispatchRun :: "planner_env \<Rightarrow> planned_run \<Rightarrow> planner \<Rightarrow> effect list \<times> planner" where
  "DispatchRun pe run tp =
     (let start = (pr_ScheduleType run = ScheduleTypeStart);
          go = (case perform pe run of
                  None \<Rightarrow> ([], tp)
                | Some (None, effs) \<Rightarrow> (effs, after_success pe run tp)
                | Some (Some e, effs) \<Rightarrow> (effs, after_failure pe run tp))
      in if start \<and> isSchedulerManagedTriggerType (pr_TriggerType run) \<and> isSuspendedDAG pe (pr_DAG run)
         then ([], if pr_TriggerType run = TriggerTypeCatchUp
                   then advance (sd_Name (pr_DAG run)) (pr_ScheduledTime run) tp else tp)
         else if start \<and> IsOneOff (pr_Schedule run) then
           (case pe_runExists pe (pr_RunID run) of
              Inl e \<Rightarrow> ([], tp)
            | Inr True \<Rightarrow> ([], consume pe run tp)
            | Inr False \<Rightarrow> go)
         else go)"

fun dispatch_all :: "planner_env \<Rightarrow> planned_run list \<Rightarrow> planner \<Rightarrow> effect list \<times> planner" where
  "dispatch_all pe [] tp = ([], tp)"
| "dispatch_all pe (run # runs) tp =
     (case DispatchRun pe run tp of (e1, tp1) \<Rightarrow>
        (case dispatch_all pe runs tp1 of (e2, tp2) \<Rightarrow> (e1 @ e2, tp2)))"

text \<open>
  One tick of \<open>cronLoop\<close>. Runs other than catch-up runs are dispatched by goroutines of their
  own; here they are taken in the order of the plan, before \<open>Advance\<close>.
\<close>

definition runTick :: "planner_env \<Rightarrow> time \<Rightarrow> planner \<Rightarrow> (effect list \<times> planner) option" where
  "runTick pe tickTime tp =
     map_option (\<lambda>(runs, tp1). case dispatch_all pe runs tp1 of (effs, tp2) \<Rightarrow> (effs, Advance tickTime tp2))
       (Plan pe tickTime tp)"

definition NextTick :: "time \<Rightarrow> time" where
  "NextTick now = truncate_time now minute + minute"

text \<open>The loop of the scheduler: one environment for each time \<open>waitForTick\<close> lets it go on.\<close>

fun cron_ticks :: "planner_env list \<Rightarrow> time \<Rightarrow> planner \<Rightarrow> (effect list \<times> planner) option" where
  "cron_ticks [] tickTime tp = Some ([], tp)"
| "cron_ticks (pe # pes) tickTime tp =
     (case runTick pe tickTime tp of
        None \<Rightarrow> None
      | Some (e1, tp1) \<Rightarrow> map_option (\<lambda>(e2, tp2). (e1 @ e2, tp2)) (cron_ticks pes (NextTick tickTime) tp1))"

definition cronLoop :: "planner_env list \<Rightarrow> time \<Rightarrow> planner \<Rightarrow> (effect list \<times> planner) option" where
  "cronLoop pes clock tp = cron_ticks pes (truncate_time clock minute) tp"

section \<open>Catch-up buffers\<close>

fun send_missed :: "sched_dag \<Rightarrow> time list \<Rightarrow> schedule_buffer \<Rightarrow> schedule_buffer" where
  "send_missed dag [] b = b"
| "send_missed dag (t # ts) b =
     (case buf_Send \<lparr> q_DAG = dag, q_ScheduledTime = t, q_TriggerType = TriggerTypeCatchUp,
             q_ScheduleType = ScheduleTypeStart \<rparr> b of
        (True, b') \<Rightarrow> send_missed dag ts b'
      | (False, b') \<Rightarrow> b')"

text \<open>
  The part that \<open>initBuffers\<close> and \<open>recomputeBuffer\<close> share: the missed intervals since the last
  tick, the last scheduled time and the start of the window go to a new buffer.
\<close>

definition missed_of :: "planner_env \<Rightarrow> scheduler_state \<Rightarrow> sched_dag \<Rightarrow> time list" where
  "missed_of pe st dag =
     ComputeMissedIntervals (sd_Schedule dag)
       (ComputeReplayFrom (sd_CatchupWindow dag) (ss_LastTick st)
          (wm_LastScheduledTime (lookup zero_watermark (ss_DAGs st) (sd_Name dag))) (pe_clock pe))
       (pe_clock pe)"

definition fill_buffer :: "sched_dag \<Rightarrow> time list \<Rightarrow> planner \<Rightarrow> bool \<times> planner" where
  "fill_buffer dag missed tp =
     (let b = send_missed dag missed (NewScheduleBuffer (sd_Name dag) (sd_OverlapPolicy dag)) in
      case (if sd_OverlapPolicy dag = OverlapPolicyLatest then DropAllButLast b else ([], b)) of
        (dropped, b') \<Rightarrow>
          (case (if dropped = [] then (False, tp)
                 else advanceDAGWatermark (sd_Name dag) (q_ScheduledTime (last dropped)) tp) of
             (advanced, tp1) \<Rightarrow> (advanced, tp1\<lparr>tp_buffers := AList.update (sd_Name dag) b' (tp_buffers tp1)\<rparr>)))"

definition recomputeBuffer :: "planner_env \<Rightarrow> sched_dag \<Rightarrow> planner \<Rightarrow> bool \<times> planner" where
  "recomputeBuffer pe dag tp =
     (if \<not> pe_queuesEnabled pe then (False, tp)
      else let missed = missed_of pe (tp_state tp) dag
           in if missed = [] then (False, tp) else fill_buffer dag missed tp)"

definition init_buffer :: "planner_env \<Rightarrow> scheduler_state \<Rightarrow> sched_dag \<Rightarrow> planner \<Rightarrow> planner" where
  "init_buffer pe st dag tp =
     (if sd_CatchupWindow dag \<le> 0 then tp
      else let missed = missed_of pe st dag
           in if missed = [] then tp else snd (fill_buffer dag missed tp))"

definition initBuffers :: "planner_env \<Rightarrow> sched_dag list \<Rightarrow> planner \<Rightarrow> planner" where
  "initBuffers pe dags tp =
     (if \<not> pe_queuesEnabled pe then tp else fold (init_buffer pe (tp_state tp)) dags tp)"

section \<open>Starting up\<close>

definition reconcile_dag ::
  "planner_env \<Rightarrow> sched_dag \<Rightarrow> (string \<times> dag_watermark) list \<times> bool \<Rightarrow> (string \<times> dag_watermark) list \<times> bool" where
  "reconcile_dag pe dag acc =
     (case acc of (m, stateChanged) \<Rightarrow>
        (case reconcileOneOffState (pe_prs pe) (lookup zero_watermark m (sd_Name dag)) dag (pe_clock pe) of
           (w1, c1) \<Rightarrow>
             (case reconcileStartScheduleState (pe_prs pe) w1 dag (pe_clock pe) of
                (w2, c2) \<Rightarrow>
                  if \<not> (c1 \<or> c2) then (m, stateChanged)
                  else if isZeroDAGWatermark w2 then (AList.delete (sd_Name dag) m, True)
                  else (AList.update (sd_Name dag) w2 m, True))))"

definition planner_Init :: "planner_env \<Rightarrow> go_error + scheduler_state \<Rightarrow> sched_dag list \<Rightarrow> planner \<Rightarrow> planner" where
  "planner_Init pe loaded dags tp =
     (let st = (case loaded of Inl e \<Rightarrow> newEmptyState | Inr st \<Rightarrow> st);
          st1 = (if ss_Version st = 0 then st\<lparr>ss_Version := SchedulerStateVersion\<rparr> else st);
          names = map sd_Name dags;
          kept = filter (\<lambda>e. fst e \<in> set names) (ss_DAGs st1);
          pruned = (kept \<noteq> ss_DAGs st1)
      in case fold (reconcile_dag pe) dags (kept, pruned) of
           (m, changed) \<Rightarrow>
             (let tp1 = tp\<lparr>tp_entries := fold (\<lambda>dag es. AList.update (sd_Name dag) dag es) dags (tp_entries tp),
                    tp_state := st1\<lparr>ss_DAGs := m\<rparr>, tp_dirty := (tp_dirty tp \<or> changed)\<rparr>;
                  tp2 = initBuffers pe dags tp1
              in if changed then Flush pe tp2 else tp2))"

section \<open>Events\<close>

datatype dag_change = DAGChangeAdded "sched_dag option" string | DAGChangeUpdated "sched_dag option" string
  | DAGChangeDeleted string

definition deletedWatermarkGrace :: duration where
  "deletedWatermarkGrace = 2 * minute"

definition store_reconciled :: "string \<Rightarrow> dag_watermark \<times> bool \<Rightarrow> planner \<Rightarrow> bool \<times> planner" where
  "store_reconciled name r tp =
     (case r of (w, changed) \<Rightarrow>
        if \<not> changed then (False, tp)
        else (True, if isZeroDAGWatermark w then delete_wm name tp else put_wm name w tp))"

definition reconcileOneOffSchedules :: "planner_env \<Rightarrow> sched_dag \<Rightarrow> planner \<Rightarrow> bool \<times> planner" where
  "reconcileOneOffSchedules pe dag tp =
     store_reconciled (sd_Name dag)
       (reconcileOneOffState (pe_prs pe) (get_wm (sd_Name dag) tp) dag (pe_clock pe)) tp"

definition tp_reconcileStartScheduleState :: "planner_env \<Rightarrow> sched_dag \<Rightarrow> planner \<Rightarrow> bool \<times> planner" where
  "tp_reconcileStartScheduleState pe dag tp =
     store_reconciled (sd_Name dag)
       (reconcileStartScheduleState (pe_prs pe) (get_wm (sd_Name dag) tp) dag (pe_clock pe)) tp"

definition reconcile_both :: "planner_env \<Rightarrow> sched_dag \<Rightarrow> bool \<times> planner \<Rightarrow> bool \<times> planner" where
  "reconcile_both pe dag r =
     (case r of (f0, tp0) \<Rightarrow>
        (case tp_reconcileStartScheduleState pe dag tp0 of (f1, tp1) \<Rightarrow>
           (case reconcileOneOffSchedules pe dag tp1 of (f2, tp2) \<Rightarrow> (f0 \<or> f1 \<or> f2, tp2))))"

definition set_entry :: "string \<Rightarrow> sched_dag \<Rightarrow> planner \<Rightarrow> planner" where
  "set_entry name dag tp = tp\<lparr>tp_deletedGrace := AList.delete name (tp_deletedGrace tp),
     tp_entries := AList.update name dag (tp_entries tp)\<rparr>"

definition flush_if :: "planner_env \<Rightarrow> bool \<times> planner \<Rightarrow> planner" where
  "flush_if pe r = (case r of (flushNow, tp) \<Rightarrow> if flushNow then Flush pe tp else tp)"

fun handleEvent :: "planner_env \<Rightarrow> dag_change \<Rightarrow> planner \<Rightarrow> planner" where
  "handleEvent pe (DAGChangeAdded None name) tp = tp"
| "handleEvent pe (DAGChangeAdded (Some dag) name) tp =
     flush_if pe (reconcile_both pe dag (advanceDAGWatermark name (pe_clock pe) (set_entry name dag tp)))"
| "handleEvent pe (DAGChangeUpdated None name) tp = tp"
| "handleEvent pe (DAGChangeUpdated (Some dag) name) tp =
     (let tp1 = set_entry name dag tp; tp2 = tp1\<lparr>tp_buffers := AList.delete name (tp_buffers tp1)\<rparr>
      in flush_if pe (reconcile_both pe dag
           (if 0 < sd_CatchupWindow dag then recomputeBuffer pe dag tp2 else (False, tp2))))"
| "handleEvent pe (DAGChangeDeleted name) tp =
     (let tp1 = tp\<lparr>tp_entries := AList.delete name (tp_entries tp), tp_buffers := AList.delete name (tp_buffers tp)\<rparr>
      in if map_of (ss_DAGs (tp_state tp)) name \<noteq> None
         then tp1\<lparr>tp_deletedGrace := AList.update name (pe_clock pe + deletedWatermarkGrace) (tp_deletedGrace tp1)\<rparr>
         else tp1)"

end
