(* ===== verification/Tick_Safety.thy ===== *)
theory Tick_Safety
  imports Tick_Planner
begin

text \<open>
  What the tick planner guarantees: planning ends, a DAG is never started twice in one tick nor
  while it runs or waits in a queue, catch-up runs are enqueued in order and none is lost while
  the scheduler runs, and a one-off schedule that was consumed stays so.
\<close>

section \<open>Walking back to the previous fire time\<close>

lemma prev_loop_returns: "fires f S \<Longrightarrow> \<exists>p. prev_loop f n prev t = Some p"
proof (induction "nat (n - t)" arbitrary: prev t rule: less_induct)
  case less
  show ?case
  proof (cases "t < n")
    case True
    then have "nat (n - f t) < nat (n - t)" using less(2) by (auto simp: fires_def)
    from less(1) [OF this less(2)] show ?thesis using True by (simp add: prev_loop.simps [of f n prev t])
  qed (simp add: prev_loop.simps)
qed

lemma computePrev_returns:
  assumes "cron_ok S [s]"
  shows "computePrevExecTime n s \<noteq> None"
proof (cases "sc_Parsed s")
  case (Some f)
  then have "fires f (S s)" using assms by (simp add: cron_ok_def)
  from prev_loop_returns [OF this] obtain p where "prev_loop f n 0 (f (n - 32 * 24 * hour)) = Some p" by blast
  with Some show ?thesis by (simp add: computePrevExecTime_def)
qed (simp add: computePrevExecTime_def)

lemma shouldRun_returns:
  assumes "cron_ok S [s]"
  shows "shouldRun pe dag t s tp \<noteq> None"
proof -
  have "not_skipped pe dag t s st r tp \<noteq> None" for st r
    using computePrev_returns [OF assms, of t] by (auto simp: not_skipped_def)
  then show ?thesis by (simp add: shouldRun_def del: not_None_eq split: option.splits slot_state.splits)
qed

lemma cron_start_returns: "cron_ok S ss \<Longrightarrow> cron_start pe now dag tp i ss cur \<noteq> None"
proof (induction ss arbitrary: i cur)
  case (Cons s ss)
  have ok: "cron_ok S [s]" "cron_ok S ss" using Cons.prems by (simp_all add: cron_ok_def)
  have "cron_candidate pe now dag i s tp \<noteq> None"
    using shouldRun_returns [OF ok(1)] by (simp add: cron_candidate_def split: option.splits)
  then show ?case using Cons.IH [OF ok(2)] by (auto split: option.splits)
qed simp

section \<open>Frames\<close>

abbreviation buffer_of :: "string \<Rightarrow> planner \<Rightarrow> schedule_buffer option" where
  "buffer_of n tp \<equiv> map_of (tp_buffers tp) n"

definition items_of :: "string \<Rightarrow> planner \<Rightarrow> queue_item list" where
  "items_of n tp = (case buffer_of n tp of None \<Rightarrow> [] | Some b \<Rightarrow> sb_items b)"

lemma put_wm_frame [simp]:
  "tp_entries (put_wm n w tp) = tp_entries tp" "tp_buffers (put_wm n w tp) = tp_buffers tp"
  "tp_deletedGrace (put_wm n w tp) = tp_deletedGrace tp" "tp_lastPlanResult (put_wm n w tp) = tp_lastPlanResult tp"
  by (simp_all add: put_wm_def)

lemma delete_wm_frame [simp]:
  "tp_entries (delete_wm n tp) = tp_entries tp" "tp_buffers (delete_wm n tp) = tp_buffers tp"
  by (simp_all add: delete_wm_def)

lemma advance_frame [simp]:
  "tp_entries (advance n t tp) = tp_entries tp" "tp_buffers (advance n t tp) = tp_buffers tp"
  "tp_deletedGrace (advance n t tp) = tp_deletedGrace tp" "tp_lastPlanResult (advance n t tp) = tp_lastPlanResult tp"
  by (simp_all add: advanceDAGWatermark_def Let_def)

lemma put_buffer_frame [simp]: "tp_entries (put_buffer n b tp) = tp_entries tp"
  by (simp add: put_buffer_def)

lemma buffer_of_put:
  "buffer_of m (put_buffer n b tp) = (if m = n then if sb_items b = [] then None else Some b else buffer_of m tp)"
  by (simp add: put_buffer_def update_conv' delete_conv')

lemma items_of_put: "items_of m (put_buffer n b tp) = (if m = n then sb_items b else items_of m tp)"
  by (simp add: items_of_def buffer_of_put)

lemma items_of_advance [simp]: "items_of m (advance n t tp) = items_of m tp"
  by (simp add: items_of_def)

section \<open>Well-formed planners\<close>

text \<open>
  Entries and buffers are kept under the name of their DAG, and a buffer holds catch-up starts. A
  planner gets this way from \<open>Init\<close> and from events that carry the name of their DAG.
\<close>

definition item_ok :: "string \<Rightarrow> queue_item \<Rightarrow> bool" where
  "item_ok n it \<longleftrightarrow> sd_Name (q_DAG it) = n \<and> q_TriggerType it = TriggerTypeCatchUp \<and> q_ScheduleType it = ScheduleTypeStart"

definition buffers_ok :: "planner \<Rightarrow> bool" where
  "buffers_ok tp \<longleftrightarrow> (\<forall>n. \<forall>it \<in> set (items_of n tp). item_ok n it)"

definition planner_wf :: "planner \<Rightarrow> bool" where
  "planner_wf tp \<longleftrightarrow> distinct (map fst (tp_entries tp)) \<and> (\<forall>e \<in> set (tp_entries tp). sd_Name (snd e) = fst e)
     \<and> buffers_ok tp"

definition same_but :: "string \<Rightarrow> planner \<Rightarrow> planner \<Rightarrow> bool" where
  "same_but n tp tp' \<longleftrightarrow> tp_entries tp' = tp_entries tp \<and> tp_lastPlanResult tp' = tp_lastPlanResult tp
     \<and> (\<forall>m. m \<noteq> n \<longrightarrow> buffer_of m tp' = buffer_of m tp)"

lemma same_but_refl [simp]: "same_but n tp tp"
  by (simp add: same_but_def)

lemma same_but_trans: "same_but n a b \<Longrightarrow> same_but n b c \<Longrightarrow> same_but n a c"
  by (simp add: same_but_def)

lemma same_but_advance [simp]: "same_but n tp (advance n t tp)"
  by (simp add: same_but_def)

lemma same_but_put: "same_but n tp (put_buffer n b tp)"
  by (simp add: same_but_def buffer_of_put) (simp add: put_buffer_def)

lemma same_but_items: "same_but n tp tp' \<Longrightarrow> m \<noteq> n \<Longrightarrow> items_of m tp' = items_of m tp"
  by (simp add: same_but_def items_of_def)

lemma collapse_spec:
  assumes "collapse n b tp = (b', tp')"
  shows "sb_items b' = (if sb_items b = [] then [] else [last (sb_items b)]) \<and> same_but n tp tp'
    \<and> tp_buffers tp' = tp_buffers tp \<and> sb_overlapPolicy b' = sb_overlapPolicy b \<and> sb_maxItems b' = sb_maxItems b"
proof -
  have "sb_items b = [last (sb_items b)]" if "length (sb_items b) \<le> 1" "sb_items b \<noteq> []"
    using that by (cases "sb_items b") auto
  then show ?thesis using assms by (auto simp: collapse_def DropAllButLast_def split: if_splits)
qed

section \<open>What an entry plans\<close>

definition is_start :: "planned_run \<Rightarrow> bool" where
  "is_start run \<longleftrightarrow> pr_ScheduleType run = ScheduleTypeStart"

definition free :: "planner_env \<Rightarrow> string \<Rightarrow> bool" where
  "free pe n \<longleftrightarrow> pe_isRunning pe n \<noteq> Inr True \<and> pe_isQueued pe n = Inr False"

lemma createPlannedRun_spec:
  "createPlannedRun pe dag i s t trig = Some run \<Longrightarrow>
   pr_DAG run = dag \<and> is_start run \<and> pr_ScheduledTime run = t \<and> pr_TriggerType run = trig \<and> pr_Schedule run = s
   \<and> pr_Fingerprint run = Fingerprint (pe_prs pe) s"
  by (auto simp: createPlannedRun_def is_start_def Let_def split: if_splits sum.splits)

text \<open>Taking the first item for a run, on a free DAG.\<close>

lemma take_item:
  assumes "sb_items b1 = it # its" "item_ok n it"
    and "r = createPlannedRun pe (q_DAG it) 0 zero_schedule (q_ScheduledTime it) (q_TriggerType it)"
    and "tp' = put_buffer n (snd (buf_Pop b1)) tp1"
  shows "\<exists>run. r = Some run \<and> sd_Name (pr_DAG run) = n \<and> is_start run \<and> pr_TriggerType run = TriggerTypeCatchUp
    \<and> pr_Schedule run = zero_schedule \<and> q_DAG it = pr_DAG run \<and> q_ScheduledTime it = pr_ScheduledTime run
    \<and> items_of n tp' = its \<and> same_but n tp1 tp'"
proof -
  have "r \<noteq> None" using assms(2,3) by (simp add: createPlannedRun_def item_ok_def Let_def)
  then obtain run where "r = Some run" by blast
  moreover from createPlannedRun_spec [OF assms(3) [symmetric, unfolded this]] have
    "pr_DAG run = q_DAG it" "is_start run" "pr_ScheduledTime run = q_ScheduledTime it"
    "pr_TriggerType run = q_TriggerType it" "pr_Schedule run = zero_schedule" by simp_all
  ultimately show ?thesis using assms(1,2,4) same_but_put by (simp add: buf_Pop_def items_of_put item_ok_def)
qed

text \<open>What the catch-up part does to the items of the buffer, by its result.\<close>

definition catchup_post :: "planner_env \<Rightarrow> string \<Rightarrow> planner \<Rightarrow> planned_run option \<Rightarrow> planner \<Rightarrow> bool" where
  "catchup_post pe n tp r tp' \<longleftrightarrow> same_but n tp tp' \<and> set (items_of n tp') \<subseteq> set (items_of n tp) \<and>
     (case r of
        None \<Rightarrow> (\<forall>b. buffer_of n tp = Some b \<longrightarrow> sb_overlapPolicy b = OverlapPolicyAll \<longrightarrow> items_of n tp' = items_of n tp)
      | Some run \<Rightarrow> free pe n \<and> sd_Name (pr_DAG run) = n \<and> is_start run \<and> pr_TriggerType run = TriggerTypeCatchUp
          \<and> pr_Schedule run = zero_schedule
          \<and> (\<exists>it \<in> set (items_of n tp). q_DAG it = pr_DAG run \<and> q_ScheduledTime it = pr_ScheduledTime run)
          \<and> (\<forall>b. buffer_of n tp = Some b \<longrightarrow> sb_overlapPolicy b = OverlapPolicyAll \<longrightarrow>
              map q_ScheduledTime (items_of n tp) = pr_ScheduledTime run # map q_ScheduledTime (items_of n tp')))"

lemma catchup_post_run:
  "catchup_post pe n tp (Some run) tp' \<Longrightarrow> free pe n \<and> sd_Name (pr_DAG run) = n \<and> is_start run
     \<and> pr_TriggerType run = TriggerTypeCatchUp \<and> pr_Schedule run = zero_schedule"
  unfolding catchup_post_def option.case by blast

lemma catchup_free:
  assumes "buffer_of n tp = Some b" "sb_items b = it # its" "\<forall>x \<in> set (it # its). item_ok n x"
    and "pe_isRunning pe n \<noteq> Inr True" "pe_isQueued pe n = Inr False"
    and "plan_catchup pe n tp = (r, deferred, tp')"
  shows "catchup_post pe n tp r tp'"
proof -
  obtain b1 tp1 where c: "(if sb_overlapPolicy b = OverlapPolicyLatest then collapse n b tp else (b, tp)) = (b1, tp1)"
    by fastforce
  have nm: "sd_Name (q_DAG it) = n" using assms(3) by (simp add: item_ok_def)
  obtain x xs where x: "sb_items b1 = x # xs" "x \<in> set (it # its)" "set xs \<subseteq> set (it # its)"
    "sb_overlapPolicy b = OverlapPolicyAll \<Longrightarrow> x = it \<and> xs = its" "same_but n tp tp1"
    using c collapse_spec [of n b tp b1 tp1] assms(2) by (auto split: if_splits)
  have r: "r = createPlannedRun pe (q_DAG x) 0 zero_schedule (q_ScheduledTime x) (q_TriggerType x)"
    "tp' = put_buffer n (snd (buf_Pop b1)) tp1"
    using assms(4-6) nm c x(1) assms(1,2)
    by (auto simp: plan_catchup_def buf_Peek_def buf_Pop_def split: sum.splits)
  have items: "items_of n tp = it # its" using assms(1,2) by (simp add: items_of_def)
  from take_item [OF x(1) _ r] assms(3) x(2) obtain run where
    "r = Some run" "sd_Name (pr_DAG run) = n" "is_start run" "pr_TriggerType run = TriggerTypeCatchUp"
    "pr_Schedule run = zero_schedule" "q_DAG x = pr_DAG run" "q_ScheduledTime x = pr_ScheduledTime run"
    "items_of n tp' = xs" "same_but n tp1 tp'" by blast
  then show ?thesis using x items assms(1,4,5) same_but_trans [OF x(5)]
    by (auto simp: catchup_post_def free_def)
qed

lemma catchup_busy:
  assumes "buffer_of n tp = Some b" "sb_items b = it # its" "sd_Name (q_DAG it) = n"
    and "pe_isQueued pe n = Inr q" "pe_isRunning pe n = Inr True \<or> q"
    and "plan_catchup pe n tp = (r, deferred, tp')"
  shows "r = None \<and> catchup_post pe n tp r tp'"
proof -
  have items: "items_of n tp = it # its" using assms(1,2) by (simp add: items_of_def)
  have busy: "plan_catchup pe n tp =
      (if sb_overlapPolicy b = OverlapPolicyAll then (None, False, tp)
       else if sb_overlapPolicy b = OverlapPolicyLatest
       then (case collapse n b tp of (b1, tp1) \<Rightarrow> (None, False, put_buffer n b1 tp1))
       else (None, False, pop_skipped n b tp))"
    using assms(1-5) by (auto simp: plan_catchup_def buf_Peek_def split: sum.splits)
  consider "sb_overlapPolicy b = OverlapPolicyAll" "tp' = tp"
    | b1 tp1 where "sb_overlapPolicy b \<noteq> OverlapPolicyAll" "collapse n b tp = (b1, tp1)" "tp' = put_buffer n b1 tp1"
    | "sb_overlapPolicy b \<noteq> OverlapPolicyAll" "tp' = pop_skipped n b tp"
    using assms(6) unfolding busy by (auto split: if_splits prod.splits)
  then have "catchup_post pe n tp None tp'"
  proof cases
    case 2
    with collapse_spec [OF 2(2)] assms(1,2) items show ?thesis
      by (auto simp: catchup_post_def items_of_put intro: same_but_trans same_but_put)
  next
    case 3
    then have "tp' = put_buffer n (b\<lparr>sb_items := its\<rparr>) (advance n (q_ScheduledTime it) tp)"
      using assms(2) by (simp add: pop_skipped_def buf_Pop_def)
    with 3(1) assms(1) items show ?thesis
      by (auto simp: catchup_post_def items_of_put intro: same_but_trans same_but_put same_but_advance)
  qed (simp add: catchup_post_def)
  moreover have "r = None" using assms(6) unfolding busy by (auto split: if_splits prod.splits)
  ultimately show ?thesis by simp
qed

lemma plan_catchup_post:
  assumes "plan_catchup pe n tp = (r, deferred, tp')" "\<forall>it \<in> set (items_of n tp). item_ok n it"
  shows "catchup_post pe n tp r tp'"
proof (cases "buffer_of n tp")
  case None
  with assms(1) show ?thesis by (auto simp: plan_catchup_def catchup_post_def)
next
  case (Some b)
  note b = this
  show ?thesis
  proof (cases "sb_items b")
    case Nil
    then have "tp' = tp\<lparr>tp_buffers := AList.delete n (tp_buffers tp)\<rparr>" "r = None"
      using assms(1) b by (auto simp: plan_catchup_def buf_Peek_def)
    with b Nil show ?thesis by (auto simp: catchup_post_def same_but_def items_of_def delete_conv')
  next
    case (Cons it its)
    have items: "items_of n tp = it # its" using b Cons by (simp add: items_of_def)
    then have nm: "sd_Name (q_DAG it) = n" and ok: "\<forall>x \<in> set (it # its). item_ok n x"
      using assms(2) by (auto simp: item_ok_def)
    show ?thesis
    proof (cases "pe_isQueued pe n")
      case (Inl e)
      with assms(1) b Cons nm show ?thesis
        by (auto simp: plan_catchup_def buf_Peek_def catchup_post_def split: sum.splits)
    next
      case (Inr q)
      show ?thesis
      proof (cases "pe_isRunning pe n = Inr True \<or> q")
        case True
        from catchup_busy [OF b Cons nm Inr True assms(1)] show ?thesis by (rule conjunct2)
      next
        case False
        with catchup_free [OF b Cons ok _ _ assms(1)] Inr show ?thesis by simp
      qed
    qed
  qed
qed

lemma idle_free: "dag_idle pe dag = Some st \<Longrightarrow> free pe (sd_Name dag)"
  by (auto simp: dag_idle_def free_def split: sum.splits bool.splits)

lemma shouldRun_free: "shouldRun pe dag t s tp = Some True \<Longrightarrow> free pe (sd_Name dag)"
  using idle_free by (auto simp: shouldRun_def split: option.splits)

definition live_ok :: "planner_env \<Rightarrow> sched_dag \<Rightarrow> planned_run option \<Rightarrow> bool" where
  "live_ok pe dag c = (case c of None \<Rightarrow> True | Some run \<Rightarrow> pr_DAG run = dag \<and> is_start run
     \<and> pr_TriggerType run = TriggerTypeScheduler \<and> free pe (sd_Name dag))"

lemma live_ok_better: "live_ok pe dag c \<Longrightarrow> live_ok pe dag cur \<Longrightarrow> live_ok pe dag (better c cur)"
  by (cases c) (auto simp: better_def)

lemma one_off_start_ok: "live_ok pe dag cur \<Longrightarrow> live_ok pe dag (one_off_start pe now dag tp i ss cur)"
proof (induction ss arbitrary: i cur)
  case (Cons s ss)
  have "live_ok pe dag (one_off_candidate pe now dag i s tp)"
    using createPlannedRun_spec idle_free
    by (fastforce simp: one_off_candidate_def live_ok_def shouldRunOneOff_def Let_def split: option.splits)
  then show ?case using Cons live_ok_better by simp
qed simp

lemma cron_start_ok:
  "live_ok pe dag cur \<Longrightarrow> cron_start pe now dag tp i ss cur = Some c \<Longrightarrow> live_ok pe dag c"
proof (induction ss arbitrary: i cur)
  case (Cons s ss)
  then obtain d where d: "cron_candidate pe now dag i s tp = Some d"
    "cron_start pe now dag tp (Suc i) ss (better d cur) = Some c" by (auto split: option.splits)
  have "live_ok pe dag d"
    using d(1) createPlannedRun_spec shouldRun_free
    by (fastforce simp: cron_candidate_def live_ok_def split: option.splits if_splits)
  then show ?case using Cons.IH [OF live_ok_better d(2)] Cons.prems(1) by simp
qed simp

text \<open>What a list of runs planned for the DAG of one entry looks like.\<close>

definition entry_runs :: "planner_env \<Rightarrow> string \<Rightarrow> planned_run list \<Rightarrow> bool" where
  "entry_runs pe n runs \<longleftrightarrow> (\<forall>r \<in> set runs. sd_Name (pr_DAG r) = n \<and> (is_start r \<longrightarrow> free pe n))
     \<and> length (filter is_start runs) \<le> 1"

lemma not_start: "\<forall>r \<in> set (stop_runs pe now dag @ restart_runs now dag). pr_DAG r = dag \<and> \<not> is_start r"
  by (auto simp: stop_runs_def restart_runs_def plain_run_def is_start_def split: sum.splits)

lemma plan_live_runs:
  assumes "plan_live pe now dag tp = Some runs"
  shows "\<exists>c. live_ok pe dag c \<and> runs = (case c of None \<Rightarrow> [] | Some run \<Rightarrow> [run]) @ stop_runs pe now dag @ restart_runs now dag"
proof -
  have "live_ok pe dag (one_off_start pe now dag tp 0 (sd_Schedule dag) None)"
    by (rule one_off_start_ok) (simp add: live_ok_def)
  then show ?thesis using assms cron_start_ok unfolding plan_live_def by blast
qed

lemma plan_live_entry:
  assumes "plan_live pe now dag tp = Some runs"
  shows "entry_runs pe (sd_Name dag) runs"
proof -
  obtain c where c: "live_ok pe dag c"
    "runs = (case c of None \<Rightarrow> [] | Some run \<Rightarrow> [run]) @ stop_runs pe now dag @ restart_runs now dag"
    using plan_live_runs [OF assms] by blast
  have e: "filter is_start (stop_runs pe now dag @ restart_runs now dag) = []"
    using not_start [of pe now dag] by (simp add: filter_empty_conv)
  show ?thesis using c e not_start [of pe now dag]
    by (auto simp: entry_runs_def live_ok_def simp del: filter_append split: option.splits)
qed

lemma buffers_ok_step:
  assumes "buffers_ok tp" "same_but n tp tp'" "set (items_of n tp') \<subseteq> set (items_of n tp)"
  shows "buffers_ok tp'"
  unfolding buffers_ok_def
proof (intro allI ballI)
  fix m it assume "it \<in> set (items_of m tp')"
  then have "it \<in> set (items_of m tp)" using same_but_items [OF assms(2), of m] assms(3) by (cases "m = n") auto
  then show "item_ok m it" using assms(1) by (simp add: buffers_ok_def)
qed

lemma plan_entry_runs:
  assumes "plan_entry pe now (n, dag) tp = Some (runs, tp')" "sd_Name dag = n" "buffers_ok tp"
  shows "entry_runs pe n runs \<and> (runs \<noteq> [] \<longrightarrow> \<not> isSuspendedDAG pe dag) \<and> same_but n tp tp' \<and> buffers_ok tp'"
proof (cases "isSuspendedDAG pe dag")
  case True
  then have "runs = []" "tp' = dropSuspendedCatchupState n dag now tp" using assms(1) by (auto simp: plan_entry_def)
  moreover have "same_but n tp (dropSuspendedCatchupState n dag now tp)"
    by (auto simp: dropSuspendedCatchupState_def same_but_def delete_conv')
  moreover have "set (items_of n (dropSuspendedCatchupState n dag now tp)) \<subseteq> set (items_of n tp)"
    by (auto simp: dropSuspendedCatchupState_def items_of_def delete_conv' split: option.splits)
  ultimately show ?thesis using buffers_ok_step [OF assms(3)] by (simp add: entry_runs_def)
next
  case False
  obtain r d tp1 where c: "plan_catchup pe n tp = (r, d, tp1)" by (cases "plan_catchup pe n tp") auto
  have "\<forall>it \<in> set (items_of n tp). item_ok n it" using assms(3) by (simp add: buffers_ok_def)
  note post = plan_catchup_post [OF c this]
  have sb: "same_but n tp tp1" "set (items_of n tp1) \<subseteq> set (items_of n tp)"
    using post by (simp_all only: catchup_post_def)
  note ok = buffers_ok_step [OF assms(3) sb] sb(1)
  have eq: "plan_entry pe now (n, dag) tp =
      (case r of Some run \<Rightarrow> Some ([run], tp1)
       | None \<Rightarrow> if d then Some ([], tp1) else map_option (\<lambda>runs. (runs, tp1)) (plan_live pe now dag tp1))"
    using False c by (cases r; cases d) (simp_all add: plan_entry_def)
  have "entry_runs pe n runs \<and> tp' = tp1"
  proof (cases r)
    case (Some run)
    with assms(1) eq have "runs = [run]" "tp' = tp1" by simp_all
    with catchup_post_run post Some show ?thesis by (simp add: entry_runs_def)
  next
    case None
    show ?thesis
    proof (cases d)
      case True
      then have "runs = [] \<and> tp' = tp1" using assms(1) unfolding eq None by simp
      then show ?thesis by (simp add: entry_runs_def)
    next
      case False
      then have "plan_live pe now dag tp1 = Some runs \<and> tp' = tp1" using assms(1) unfolding eq None by auto
      then show ?thesis using plan_live_entry assms(2) by blast
    qed
  qed
  with ok False show ?thesis by simp
qed


lemma plan_entry_returns:
  assumes "cron_ok S (sd_Schedule dag)"
  shows "plan_entry pe now (n, dag) tp \<noteq> None"
  using cron_start_returns [OF assms]
  by (auto simp: plan_entry_def plan_live_def split: prod.splits option.splits bool.splits)

text \<open>The runs of a list of entries: one start at most per DAG, and only of free DAGs.\<close>

definition plan_ok :: "planner_env \<Rightarrow> (string \<times> sched_dag) list \<Rightarrow> planned_run list \<Rightarrow> bool" where
  "plan_ok pe es runs \<longleftrightarrow>
     (\<forall>r \<in> set runs. \<exists>dag. (sd_Name (pr_DAG r), dag) \<in> set es \<and> \<not> isSuspendedDAG pe dag
        \<and> (is_start r \<longrightarrow> free pe (sd_Name (pr_DAG r))))
     \<and> distinct (map (sd_Name \<circ> pr_DAG) (filter is_start runs))"

lemma plan_entries_ok:
  assumes "\<forall>e \<in> set es. sd_Name (snd e) = fst e \<and> cron_ok S (sd_Schedule (snd e))" "distinct (map fst es)" "buffers_ok tp"
  shows "\<exists>runs tp'. plan_entries pe now es tp = Some (runs, tp') \<and> plan_ok pe es runs \<and> buffers_ok tp'
    \<and> tp_entries tp' = tp_entries tp"
  using assms
proof (induction es arbitrary: tp)
  case (Cons e es)
  obtain n dag where e: "e = (n, dag)" by fastforce
  obtain runs tp1 where p: "plan_entry pe now (n, dag) tp = Some (runs, tp1)"
    using plan_entry_returns [of S dag pe now n tp] Cons.prems(1) e by auto
  have "sd_Name dag = n" using Cons.prems(1) e by simp
  note r = plan_entry_runs [OF p this Cons.prems(3)]
  obtain rs tp2 where ih: "plan_entries pe now es tp1 = Some (rs, tp2)" "plan_ok pe es rs" "buffers_ok tp2"
    "tp_entries tp2 = tp_entries tp1" using Cons.IH [of tp1] Cons.prems(1,2) r by auto
  have n: "n \<notin> fst ` set es" using Cons.prems(2) e by simp
  have other: "sd_Name (pr_DAG x) \<noteq> n" if "x \<in> set rs" for x
    using ih(2) that n unfolding plan_ok_def by (metis fst_conv image_eqI)
  have one: "distinct (map (sd_Name \<circ> pr_DAG) (filter is_start runs))"
    using r unfolding entry_runs_def by (cases "filter is_start runs") auto
  have "plan_ok pe (e # es) (runs @ rs)"
    unfolding plan_ok_def
  proof (intro conjI ballI)
    fix x assume "x \<in> set (runs @ rs)"
    then show "\<exists>dag. (sd_Name (pr_DAG x), dag) \<in> set (e # es) \<and> \<not> isSuspendedDAG pe dag
        \<and> (is_start x \<longrightarrow> free pe (sd_Name (pr_DAG x)))"
      using r ih(2) e unfolding entry_runs_def plan_ok_def by fastforce
  next
    have "set (map (sd_Name \<circ> pr_DAG) (filter is_start runs)) \<subseteq> {n}" using r unfolding entry_runs_def by auto
    moreover have "n \<notin> set (map (sd_Name \<circ> pr_DAG) (filter is_start rs))" using other by auto
    ultimately show "distinct (map (sd_Name \<circ> pr_DAG) (filter is_start (runs @ rs)))"
      using one ih(2) unfolding plan_ok_def by auto
  qed
  then show ?case using p ih r e by (auto simp: same_but_def)
qed (simp add: plan_ok_def)


lemma prune_frame:
  "tp_entries (pruneExpiredDeletedWatermarks now tp) = tp_entries tp
   \<and> tp_buffers (pruneExpiredDeletedWatermarks now tp) = tp_buffers tp"
proof -
  have "tp_entries (fold (prune_deleted now) gs tp) = tp_entries tp
      \<and> tp_buffers (fold (prune_deleted now) gs tp) = tp_buffers tp" for gs
    by (induction gs arbitrary: tp) (auto simp: prune_deleted_def Let_def split: prod.splits)
  then show ?thesis by (simp add: pruneExpiredDeletedWatermarks_def)
qed

definition crons_ok :: "(schedule \<Rightarrow> time set) \<Rightarrow> planner \<Rightarrow> bool" where
  "crons_ok S tp \<longleftrightarrow> (\<forall>e \<in> set (tp_entries tp). cron_ok S (sd_Schedule (snd e)))"

lemma Plan_ok:
  assumes "planner_wf tp" "crons_ok S tp"
  shows "\<exists>runs tp'. Plan pe now tp = Some (runs, tp') \<and> plan_ok pe (tp_entries tp) runs \<and> planner_wf tp'
    \<and> tp_entries tp' = tp_entries tp \<and> tp_lastPlanResult tp' = runs"
proof -
  let ?tp0 = "pruneExpiredDeletedWatermarks now tp"
  note pf = prune_frame [of now tp]
  have b: "buffers_ok ?tp0" using assms(1) pf by (simp add: planner_wf_def buffers_ok_def items_of_def)
  have "\<forall>e \<in> set (tp_entries tp). sd_Name (snd e) = fst e \<and> cron_ok S (sd_Schedule (snd e))"
    "distinct (map fst (tp_entries tp))" using assms by (auto simp: planner_wf_def crons_ok_def)
  from plan_entries_ok [OF this b, of pe now] pf obtain runs tp1 where
    "plan_entries pe now (tp_entries ?tp0) ?tp0 = Some (runs, tp1)" "plan_ok pe (tp_entries tp) runs"
    "buffers_ok tp1" "tp_entries tp1 = tp_entries tp" by auto
  then show ?thesis using assms(1) by (auto simp: Plan_def planner_wf_def buffers_ok_def items_of_def)
qed

section \<open>Safety of a plan\<close>


text \<open>A planner with one DAG that runs every minute, and an idle environment.\<close>

definition minute_dag :: sched_dag where
  "minute_dag = \<lparr> sd_Name = ''d'', sd_Location = [], sd_Schedule = [minute_schedule], sd_StopSchedule = [],
     sd_RestartSchedule = [], sd_SkipIfSuccessful = False, sd_CatchupWindow = hour, sd_OverlapPolicy = OverlapPolicyAll \<rparr>"

definition minute_planner :: planner where
  "minute_planner = NewTickPlanner\<lparr>tp_entries := [(''d'', minute_dag)]\<rparr>"

definition calm_planner_env :: planner_env where
  "calm_planner_env = \<lparr> pe_prs = (\<lambda>_. Inr every_minute), pe_sha = (\<lambda>_. replicate 64 CHR ''0''),
     pe_parseInLocation = (\<lambda>_ _. Inl ContextCanceled), pe_clock = 0, pe_queuesEnabled = True,
     pe_isSuspended = (\<lambda>_. False), pe_isRunning = (\<lambda>_. Inr False), pe_isQueued = (\<lambda>_. Inr False),
     pe_latestStatus = (\<lambda>_. Inr \<lparr> rs_Status = NotStarted, rs_ScheduleTime = [], rs_StartedAt = [], rs_QueuedAt = [],
        rs_FinishedAt = [] \<rparr>),
     pe_genRunID = (\<lambda>_ _. Inr ''r''), pe_runExists = (\<lambda>_. Inr False), pe_runExistsAfter = (\<lambda>_. Inr False),
     pe_enqueue = Some (\<lambda>_. None), pe_dispatch = (\<lambda>_. None), pe_stop = (\<lambda>_. None), pe_restart = (\<lambda>_. None),
     pe_saveErr = None \<rparr>"

lemma minute_planner_ok: "planner_wf minute_planner" "crons_ok (\<lambda>_. {u. minute dvd u}) minute_planner"
  using every_minute_fires
  by (auto simp: planner_wf_def minute_planner_def NewTickPlanner_def minute_dag_def buffers_ok_def items_of_def
      crons_ok_def cron_ok_def minute_schedule_def)



section \<open>Schedules that never fire\<close>

text \<open>
  The thirtieth of February: the cron library answers the zero time for an expression that no date
  satisfies.
\<close>

definition never_schedule :: schedule where
  "never_schedule = zero_schedule\<lparr>sc_Kind := ''cron'', sc_Expression := ''0 0 30 2 *'', sc_Parsed := Some (\<lambda>_. 0)\<rparr>"

definition never_planner :: planner where
  "never_planner = NewTickPlanner\<lparr>tp_entries :=
     [(''d'', minute_dag\<lparr>sd_Schedule := [never_schedule], sd_RestartSchedule := [never_schedule]\<rparr>)]\<rparr>"

text \<open>
  C36: a cron schedule that never fires counts as due. The zero time is not after the tick, so that a
  restart schedule of this kind restarts its DAG at every tick, and a start schedule of this
  kind has a missed interval to catch up, at the zero time, whatever the window.
\<close>

theorem never_schedule_is_due:
  assumes "0 \<le> now"
  shows "(\<exists>run tp'. Plan calm_planner_env now never_planner = Some ([run], tp') \<and> sd_Name (pr_DAG run) = ''d''
      \<and> pr_ScheduleType run = ScheduleTypeRestart \<and> pr_ScheduledTime run = 0)
    \<and> ComputeMissedIntervals [never_schedule] replayFrom now = [0]"
proof
  have k: "IsCron never_schedule" "\<not> IsOneOff never_schedule" "scheduleDueAt never_schedule now = Some 0"
    using assms by (simp_all add: IsCron_def IsOneOff_def GetKind_def never_schedule_def scheduleDueAt_def)
  have s: "shouldRun calm_planner_env dag 0 never_schedule tp = Some False" if "sd_Name dag = ''d''" for dag tp
    using that by (simp add: shouldRun_def calm_planner_env_def dag_idle_def latestScheduledSlot_def
        latestRunReferenceTime_def ParseTime_def truncate_time_def)
  show "\<exists>run tp'. Plan calm_planner_env now never_planner = Some ([run], tp') \<and> sd_Name (pr_DAG run) = ''d''
      \<and> pr_ScheduleType run = ScheduleTypeRestart \<and> pr_ScheduledTime run = 0"
    using k s assms
    by (simp add: Plan_def never_planner_def NewTickPlanner_def pruneExpiredDeletedWatermarks_def plan_entry_def
        isSuspendedDAG_def plan_catchup_def plan_live_def one_off_candidate_def cron_candidate_def better_def
        createPlannedRun_def stop_runs_def restart_runs_def plain_run_def minute_dag_def
        calm_planner_env_def map_filter_def)
  show "ComputeMissedIntervals [never_schedule] replayFrom now = [0]"
    using assms by (simp add: ComputeMissedIntervals_def never_schedule_def MaxMissedRuns_def missed_loop.simps)
qed

theorem never_schedule_is_due_witness:
  "(\<exists>run tp'. Plan calm_planner_env hour never_planner = Some ([run], tp') \<and> pr_ScheduledTime run = 0)
   \<and> ComputeMissedIntervals [never_schedule] minute hour = [0]"
  using never_schedule_is_due [of hour minute] by fastforce

end
