(* ===== verification/Tick_Catchup.thy ===== *)
theory Tick_Catchup
  imports Tick_Safety
begin

text \<open>
  Catch-up runs over many ticks. With the overlap policy \<open>all\<close> the buffer of a DAG is worked off in
  order: whatever fails or is busy on the way, the slots enqueued so far followed by the slots
  still in the buffer are always the slots that were there at the beginning.
\<close>

section \<open>Buffers that keep everything\<close>

definition all_mode :: "string \<Rightarrow> planner \<Rightarrow> bool" where
  "all_mode n tp \<longleftrightarrow>
     (\<forall>b. buffer_of n tp = Some b \<longrightarrow> sb_overlapPolicy b = OverlapPolicyAll \<and> sb_maxItems b = DefaultMaxBufferItems
        \<and> int (length (sb_items b)) \<le> DefaultMaxBufferItems)
     \<and> (\<forall>it \<in> set (items_of n tp). sd_OverlapPolicy (q_DAG it) = OverlapPolicyAll)"

definition slots :: "string \<Rightarrow> planner \<Rightarrow> time list" where
  "slots n tp = map q_ScheduledTime (items_of n tp)"

definition catchup_run :: "string \<Rightarrow> planned_run \<Rightarrow> bool" where
  "catchup_run n r \<longleftrightarrow> is_start r \<and> pr_TriggerType r = TriggerTypeCatchUp \<and> sd_Name (pr_DAG r) = n"

definition run_ok :: "planned_run \<Rightarrow> bool" where
  "run_ok r \<longleftrightarrow> \<not> IsOneOff (pr_Schedule r) \<and> sd_OverlapPolicy (pr_DAG r) = OverlapPolicyAll"

lemma zero_schedule_kind: "\<not> IsOneOff zero_schedule" "\<not> IsCron zero_schedule"
  by (simp_all add: IsOneOff_def IsCron_def GetKind_def zero_schedule_def is_zero_def)

lemma all_mode_same: "same_but m tp tp' \<Longrightarrow> n \<noteq> m \<Longrightarrow> all_mode n tp \<Longrightarrow> all_mode n tp' \<and> slots n tp' = slots n tp"
  by (simp add: all_mode_def same_but_def items_of_def slots_def)

text \<open>With this policy the catch-up part either leaves the buffer alone or takes its first item.\<close>

lemma plan_catchup_policy_all:
  assumes "buffer_of n tp = Some b" "sb_items b = it # its" "sb_overlapPolicy b = OverlapPolicyAll" "item_ok n it"
    and "plan_catchup pe n tp = (r, d, tp')"
  shows "r = None \<and> tp' = tp
    \<or> r = createPlannedRun pe (q_DAG it) 0 zero_schedule (q_ScheduledTime it) (q_TriggerType it)
      \<and> tp' = put_buffer n (b\<lparr>sb_items := its\<rparr>) tp"
proof -
  have "sd_Name (q_DAG it) = n" using assms(4) by (simp add: item_ok_def)
  then have "plan_catchup pe n tp =
      (case pe_isQueued pe n of
         Inl e \<Rightarrow> (None, True, tp)
       | Inr queued \<Rightarrow>
           if \<not> ((case pe_isRunning pe n of Inl e \<Rightarrow> False | Inr r \<Rightarrow> r) \<or> queued)
           then (createPlannedRun pe (q_DAG it) 0 zero_schedule (q_ScheduledTime it) (q_TriggerType it), False,
                 put_buffer n (b\<lparr>sb_items := its\<rparr>) tp)
           else (None, False, tp))"
    using assms(1-3) by (simp add: plan_catchup_def buf_Peek_def buf_Pop_def split: sum.split)
  then show ?thesis using assms(5) by (auto split: sum.splits if_splits)
qed

lemma plan_catchup_all:
  assumes "plan_catchup pe n tp = (r, d, tp')" "\<forall>it \<in> set (items_of n tp). item_ok n it" "all_mode n tp"
  shows "all_mode n tp' \<and> (case r of None \<Rightarrow> slots n tp' = slots n tp
    | Some run \<Rightarrow> slots n tp = pr_ScheduledTime run # slots n tp' \<and> catchup_run n run \<and> run_ok run
        \<and> int (length (slots n tp')) < DefaultMaxBufferItems)"
proof (cases "buffer_of n tp")
  case None
  with assms(1,3) show ?thesis by (auto simp: plan_catchup_def)
next
  case (Some b)
  note b = this
  have mode: "sb_overlapPolicy b = OverlapPolicyAll" "sb_maxItems b = DefaultMaxBufferItems"
    "int (length (sb_items b)) \<le> DefaultMaxBufferItems" using assms(3) b by (simp_all add: all_mode_def)
  show ?thesis
  proof (cases "sb_items b")
    case Nil
    then have "tp' = tp\<lparr>tp_buffers := AList.delete n (tp_buffers tp)\<rparr>" "r = None"
      using assms(1) b by (auto simp: plan_catchup_def buf_Peek_def)
    with b Nil show ?thesis by (simp add: all_mode_def slots_def items_of_def delete_conv')
  next
    case (Cons it its)
    have items: "items_of n tp = it # its" using b Cons by (simp add: items_of_def)
    then have it: "item_ok n it" using assms(2) by simp
    from plan_catchup_policy_all [OF b Cons mode(1) it assms(1)] show ?thesis
    proof (elim disjE conjE)
      assume r: "r = createPlannedRun pe (q_DAG it) 0 zero_schedule (q_ScheduledTime it) (q_TriggerType it)"
        and tp': "tp' = put_buffer n (b\<lparr>sb_items := its\<rparr>) tp"
      from it have "r \<noteq> None" by (simp add: r createPlannedRun_def item_ok_def Let_def)
      then obtain run where run: "r = Some run" by blast
      have d: "pr_DAG run = q_DAG it" "is_start run" "pr_ScheduledTime run = q_ScheduledTime it"
        "pr_TriggerType run = q_TriggerType it" "pr_Schedule run = zero_schedule"
        using createPlannedRun_spec [OF r [symmetric, unfolded run]] by simp_all
      have pol: "\<forall>x \<in> set (it # its). sd_OverlapPolicy (q_DAG x) = OverlapPolicyAll"
        using assms(3) unfolding all_mode_def items by blast
      have i': "items_of n tp' = its" by (simp add: tp' items_of_put)
      have "all_mode n tp'"
        using mode Cons pol unfolding all_mode_def i' by (simp add: tp' buffer_of_put)
      moreover have "slots n tp = pr_ScheduledTime run # slots n tp'" unfolding slots_def items i' d(3) by simp
      moreover have "catchup_run n run" using d(2) it unfolding catchup_run_def item_ok_def d(1,4) by simp
      moreover have "run_ok run" using pol zero_schedule_kind(1) unfolding run_ok_def d(1,5) by simp
      moreover have "int (length (slots n tp')) < DefaultMaxBufferItems"
        using mode(3) unfolding slots_def i' Cons by simp
      ultimately show ?thesis unfolding run option.case by blast
    qed (use assms(3) in simp)
  qed
qed

lemma live_no_catchup: "plan_live pe now dag tp = Some runs \<Longrightarrow> filter (catchup_run n) runs = []"
proof -
  assume "plan_live pe now dag tp = Some runs"
  then obtain c where c: "live_ok pe dag c"
    "runs = (case c of None \<Rightarrow> [] | Some run \<Rightarrow> [run]) @ stop_runs pe now dag @ restart_runs now dag"
    using plan_live_runs by blast
  have "filter (catchup_run n) (stop_runs pe now dag @ restart_runs now dag) = []"
    using not_start [of pe now dag] by (simp only: filter_empty_conv catchup_run_def) blast
  moreover have "filter (catchup_run n) (case c of None \<Rightarrow> [] | Some run \<Rightarrow> [run]) = []"
    using c(1) by (cases c) (simp_all add: live_ok_def catchup_run_def)
  ultimately show ?thesis unfolding c(2) filter_append by simp
qed

text \<open>The plan of all entries takes at most the first slot.\<close>

definition taken :: "string \<Rightarrow> planner \<Rightarrow> planned_run list \<Rightarrow> planner \<Rightarrow> bool" where
  "taken n tp runs tp' \<longleftrightarrow> all_mode n tp'
     \<and> map pr_ScheduledTime (filter (catchup_run n) runs) @ slots n tp' = slots n tp
     \<and> (\<forall>r \<in> set (filter (catchup_run n) runs). run_ok r) \<and> length (filter (catchup_run n) runs) \<le> 1
     \<and> (filter (catchup_run n) runs \<noteq> [] \<longrightarrow> int (length (slots n tp')) < DefaultMaxBufferItems)"

lemma plan_entry_taken:
  assumes "plan_entry pe now (m, dag) tp = Some (runs, tp')" "sd_Name dag = m" "buffers_ok tp" "all_mode n tp"
    and "m = n \<Longrightarrow> \<not> isSuspendedDAG pe dag"
  shows "taken n tp runs tp'"
proof (cases "m = n")
  case False
  have "entry_runs pe m runs" "same_but m tp tp'" using plan_entry_runs [OF assms(1-3)] by simp_all
  moreover from this False have "filter (catchup_run n) runs = []"
    by (auto simp: filter_empty_conv catchup_run_def entry_runs_def)
  ultimately show ?thesis using all_mode_same [of m tp tp' n] False assms(4) by (simp add: taken_def)
next
  case True
  obtain r d tp1 where c: "plan_catchup pe n tp = (r, d, tp1)" by (cases "plan_catchup pe n tp") auto
  have "\<forall>it \<in> set (items_of n tp). item_ok n it" using assms(3) by (simp add: buffers_ok_def)
  note all = plan_catchup_all [OF c this assms(4)]
  have eq: "plan_entry pe now (n, dag) tp =
      (case r of Some run \<Rightarrow> Some ([run], tp1)
       | None \<Rightarrow> if d then Some ([], tp1) else map_option (\<lambda>runs. (runs, tp1)) (plan_live pe now dag tp1))"
    using assms(5) True c by (cases r; cases d) (simp_all add: plan_entry_def)
  from assms(1) True have p: "plan_entry pe now (n, dag) tp = Some (runs, tp')" by simp
  show ?thesis
  proof (cases r)
    case (Some run)
    then have "runs = [run] \<and> tp' = tp1" using p unfolding eq by auto
    with all Some show ?thesis by (simp add: taken_def)
  next
    case None
    have "filter (catchup_run n) runs = [] \<and> tp' = tp1"
    proof (cases d)
      case True
      then show ?thesis using p unfolding eq None by simp
    next
      case False
      then have "plan_live pe now dag tp1 = Some runs \<and> tp' = tp1" using p unfolding eq None by auto
      then show ?thesis using live_no_catchup by blast
    qed
    with all None show ?thesis by (simp add: taken_def)
  qed
qed

lemma plan_entries_taken:
  assumes "plan_entries pe now es tp = Some (runs, tp')" "distinct (map fst es)" "\<forall>e \<in> set es. sd_Name (snd e) = fst e"
    and "buffers_ok tp" "all_mode n tp" "\<forall>dag. (n, dag) \<in> set es \<longrightarrow> \<not> isSuspendedDAG pe dag"
  shows "taken n tp runs tp' \<and> buffers_ok tp' \<and> tp_entries tp' = tp_entries tp
    \<and> (n \<notin> fst ` set es \<longrightarrow> filter (catchup_run n) runs = [])"
  using assms
proof (induction es arbitrary: tp runs)
  case Nil
  then show ?case by (simp add: taken_def)
next
  case (Cons e es)
  obtain m dag where e: "e = (m, dag)" by fastforce
  obtain rs tp1 rs2 where p: "plan_entry pe now (m, dag) tp = Some (rs, tp1)"
    "plan_entries pe now es tp1 = Some (rs2, tp')" "runs = rs @ rs2"
    using Cons.prems(1) e by (auto split: option.splits)
  have dag: "sd_Name dag = m" "m = n \<Longrightarrow> \<not> isSuspendedDAG pe dag" using Cons.prems(3,6) e by auto
  note r = plan_entry_runs [OF p(1) dag(1) Cons.prems(4)]
  note t1 = plan_entry_taken [OF p(1) dag(1) Cons.prems(4,5) dag(2)]
  have "taken n tp1 rs2 tp' \<and> buffers_ok tp' \<and> tp_entries tp' = tp_entries tp1
      \<and> (n \<notin> fst ` set es \<longrightarrow> filter (catchup_run n) rs2 = [])"
    using Cons.IH [OF p(2)] Cons.prems(2,3,6) r t1 by (simp add: taken_def)
  moreover have "filter (catchup_run n) rs = []" if "m \<noteq> n"
    using r that by (auto simp: filter_empty_conv catchup_run_def entry_runs_def)
  moreover have "n \<notin> fst ` set es" if "m = n" using Cons.prems(2) e that by simp
  ultimately show ?case using t1 r e p(3) by (cases "m = n") (auto simp: taken_def same_but_def)
qed

section \<open>Dispatching\<close>

definition enqueued :: "string \<Rightarrow> effect list \<Rightarrow> time list" where
  "enqueued n effs = List.map_filter
     (\<lambda>e. case e of Enqueued r \<Rightarrow> if sd_Name (pr_DAG r) = n then Some (pr_ScheduledTime r) else None | _ \<Rightarrow> None) effs"

lemma enqueued_simps [simp]:
  "enqueued n [] = []" "enqueued n (a @ b) = enqueued n a @ enqueued n b" "enqueued n [Dispatched r] = []"
  "enqueued n [Enqueued r] = (if sd_Name (pr_DAG r) = n then [pr_ScheduledTime r] else [])"
  by (simp_all add: enqueued_def map_filter_def)

lemma Flush_frame [simp]: "tp_buffers (Flush pe tp) = tp_buffers tp" "tp_entries (Flush pe tp) = tp_entries tp"
  by (auto simp: Flush_def split: option.splits)

lemma consume_frame [simp]: "tp_buffers (consume pe run tp) = tp_buffers tp" "tp_entries (consume pe run tp) = tp_entries tp"
  by (auto simp: consume_def markOneOffConsumed_def Let_def split: prod.splits bool.splits if_splits)

lemma after_success_frame [simp]:
  "tp_buffers (after_success pe run tp) = tp_buffers tp" "tp_entries (after_success pe run tp) = tp_entries tp"
  by (simp_all add: after_success_def Let_def)

lemma reinsert_frame: "tp_entries (reinsertCatchupItem run tp) = tp_entries tp \<and>
   (n \<noteq> sd_Name (pr_DAG run) \<longrightarrow> buffer_of n (reinsertCatchupItem run tp) = buffer_of n tp)"
  by (simp add: reinsertCatchupItem_def Let_def update_conv')

lemma after_failure_frame:
  "tp_entries (after_failure pe run tp) = tp_entries tp
   \<and> (\<not> catchup_run n run \<longrightarrow> buffer_of n (after_failure pe run tp) = buffer_of n tp)"
  using reinsert_frame [of run tp n]
  by (auto simp: after_failure_def Let_def catchup_run_def is_start_def split: sum.splits bool.splits)

lemma dispatch_other:
  assumes "\<not> catchup_run n run" "DispatchRun pe run tp = (effs, tp')"
  shows "buffer_of n tp' = buffer_of n tp \<and> tp_entries tp' = tp_entries tp \<and> enqueued n effs = []"
proof -
  have p: "enqueued n e = []" if "perform pe run = Some (err, e)" for err e
    using that assms(1) by (auto simp: perform_def catchup_run_def is_start_def split: schedule_type.splits if_splits)
  let ?go = "case perform pe run of None \<Rightarrow> ([], tp) | Some (None, effs) \<Rightarrow> (effs, after_success pe run tp)
      | Some (Some e, effs) \<Rightarrow> (effs, after_failure pe run tp)"
  have go: "buffer_of n (snd ?go) = buffer_of n tp \<and> tp_entries (snd ?go) = tp_entries tp \<and> enqueued n (fst ?go) = []"
    using p after_failure_frame [of pe run tp n] assms(1) by (auto split: option.splits prod.splits)
  show ?thesis
    using assms(2) go unfolding DispatchRun_def Let_def
    by (auto split: if_splits sum.splits bool.splits)
qed


text \<open>A catch-up run is enqueued, or goes back to the front of its buffer.\<close>

lemma reinsert_items:
  assumes "catchup_run n run" "run_ok run" "all_mode n tp" "int (length (slots n tp)) < DefaultMaxBufferItems"
  shows "all_mode n (reinsertCatchupItem run tp) \<and> slots n (reinsertCatchupItem run tp) = pr_ScheduledTime run # slots n tp"
proof -
  have n: "sd_Name (pr_DAG run) = n" and pol: "sd_OverlapPolicy (pr_DAG run) = OverlapPolicyAll"
    using assms(1,2) by (simp_all add: catchup_run_def run_ok_def)
  show ?thesis
  proof (cases "buffer_of n tp")
    case None
    then show ?thesis
      by (simp add: reinsertCatchupItem_def n pol all_mode_def slots_def items_of_def update_conv' buf_Prepend_def
          NewScheduleBuffer_def buffer_full_def DefaultMaxBufferItems_def)
  next
    case (Some b)
    then have b: "sb_overlapPolicy b = OverlapPolicyAll" "sb_maxItems b = DefaultMaxBufferItems"
      "int (length (sb_items b)) < DefaultMaxBufferItems"
      "\<forall>it \<in> set (sb_items b). sd_OverlapPolicy (q_DAG it) = OverlapPolicyAll"
      using assms(3,4) by (simp_all add: all_mode_def slots_def items_of_def)
    with Some show ?thesis
      by (simp add: reinsertCatchupItem_def n pol all_mode_def slots_def items_of_def update_conv' buf_Prepend_def
          buffer_full_def)
  qed
qed

lemma dispatch_catchup:
  assumes "catchup_run n run" "run_ok run" "all_mode n tp" "int (length (slots n tp)) < DefaultMaxBufferItems"
    and "\<not> isSuspendedDAG pe (pr_DAG run)" "pe_enqueue pe = Some enq" "DispatchRun pe run tp = (effs, tp')"
  shows "all_mode n tp' \<and> enqueued n effs @ slots n tp' = pr_ScheduledTime run # slots n tp"
proof -
  have run: "sd_Name (pr_DAG run) = n" "pr_ScheduleType run = ScheduleTypeStart" "pr_TriggerType run = TriggerTypeCatchUp"
    "\<not> IsOneOff (pr_Schedule run)"
    using assms(1,2) by (simp_all add: catchup_run_def is_start_def run_ok_def)
  have eq: "DispatchRun pe run tp = (if enq run = None then ([Enqueued run], after_success pe run tp)
      else ([], reinsertCatchupItem run tp))"
    using assms(5,6) run by (auto simp: DispatchRun_def perform_def after_failure_def)
  show ?thesis
  proof (cases "enq run = None")
    case True
    then have "effs = [Enqueued run]" "tp_buffers tp' = tp_buffers tp" using assms(7) eq by auto
    then show ?thesis using assms(3) run(1) by (simp add: all_mode_def slots_def items_of_def)
  next
    case False
    then have "effs = []" "tp' = reinsertCatchupItem run tp" using assms(7) eq by auto
    then show ?thesis using reinsert_items [OF assms(1-4)] by simp
  qed
qed

lemma reinsert_buffers_ok:
  assumes "buffers_ok tp" "is_start run" "pr_TriggerType run = TriggerTypeCatchUp"
  shows "buffers_ok (reinsertCatchupItem run tp)"
proof -
  let ?n = "sd_Name (pr_DAG run)"
  let ?it = "\<lparr> q_DAG = pr_DAG run, q_ScheduledTime = pr_ScheduledTime run, q_TriggerType = pr_TriggerType run,
    q_ScheduleType = pr_ScheduleType run \<rparr>"
  have own: "set (items_of ?n (reinsertCatchupItem run tp)) \<subseteq> insert ?it (set (items_of ?n tp))"
    by (cases "buffer_of ?n tp")
      (simp_all add: reinsertCatchupItem_def Let_def items_of_def update_conv' buf_Prepend_def NewScheduleBuffer_def
        subset_insertI)
  have it: "item_ok ?n ?it" using assms(2,3) by (simp add: item_ok_def is_start_def)
  have other: "items_of m (reinsertCatchupItem run tp) = items_of m tp" if "m \<noteq> ?n" for m
    using reinsert_frame [of run tp m] that by (simp add: items_of_def)
  show ?thesis unfolding buffers_ok_def
  proof (intro allI ballI)
    fix m x assume x: "x \<in> set (items_of m (reinsertCatchupItem run tp))"
    show "item_ok m x"
    proof (cases "m = ?n")
      case True
      then have "x = ?it \<or> x \<in> set (items_of m tp)" using x own by blast
      then show ?thesis using it assms(1) True unfolding buffers_ok_def by blast
    next
      case False
      then show ?thesis using x other assms(1) unfolding buffers_ok_def by simp
    qed
  qed
qed

lemma after_failure_cases:
  "after_failure pe run tp = tp \<or> after_failure pe run tp = consume pe run tp
   \<or> is_start run \<and> pr_TriggerType run = TriggerTypeCatchUp \<and> after_failure pe run tp = reinsertCatchupItem run tp"
  unfolding after_failure_def Let_def is_start_def
  by (cases "pe_runExistsAfter pe (pr_RunID run)"; cases "pr_ScheduleType run"; cases "pr_TriggerType run")
    (simp_all split: bool.split)

lemma DispatchRun_cases:
  "snd (DispatchRun pe run tp) = tp \<or> snd (DispatchRun pe run tp) = advance (sd_Name (pr_DAG run)) (pr_ScheduledTime run) tp
   \<or> snd (DispatchRun pe run tp) = consume pe run tp \<or> snd (DispatchRun pe run tp) = after_success pe run tp
   \<or> snd (DispatchRun pe run tp) = after_failure pe run tp"
proof -
  define go where "go = (case perform pe run of None \<Rightarrow> ([], tp) | Some (None, effs) \<Rightarrow> (effs, after_success pe run tp)
      | Some (Some e, effs) \<Rightarrow> (effs, after_failure pe run tp))"
  have go: "snd go = tp \<or> snd go = after_success pe run tp \<or> snd go = after_failure pe run tp"
    unfolding go_def by (cases "perform pe run") (auto split: option.split)
  show ?thesis
    unfolding DispatchRun_def Let_def go_def [symmetric]
    by (cases "pe_runExists pe (pr_RunID run)") (use go in \<open>auto split: bool.split\<close>)
qed

lemma dispatch_wf:
  assumes "buffers_ok tp" "DispatchRun pe run tp = (effs, tp')"
  shows "buffers_ok tp' \<and> tp_entries tp' = tp_entries tp"
proof -
  have "tp_buffers tp' = tp_buffers tp \<and> tp_entries tp' = tp_entries tp
      \<or> is_start run \<and> pr_TriggerType run = TriggerTypeCatchUp \<and> tp' = reinsertCatchupItem run tp"
    using DispatchRun_cases [of pe run tp] after_failure_cases [of pe run tp] assms(2) by fastforce
  then show ?thesis
  proof (elim disjE conjE)
    assume "tp_buffers tp' = tp_buffers tp" "tp_entries tp' = tp_entries tp"
    then show ?thesis using assms(1) by (simp add: buffers_ok_def items_of_def)
  next
    assume "is_start run" "pr_TriggerType run = TriggerTypeCatchUp" "tp' = reinsertCatchupItem run tp"
    then show ?thesis using reinsert_buffers_ok [OF assms(1)] reinsert_frame [of run tp] by simp
  qed
qed

lemma dispatch_all_wf:
  assumes "buffers_ok tp" "dispatch_all pe runs tp = (effs, tp')"
  shows "buffers_ok tp' \<and> tp_entries tp' = tp_entries tp"
  using assms
proof (induction runs arbitrary: tp effs)
  case (Cons run runs)
  obtain e1 tp1 e2 where "DispatchRun pe run tp = (e1, tp1)" "dispatch_all pe runs tp1 = (e2, tp')"
    using Cons.prems(2) by (auto split: prod.splits)
  then show ?case using Cons.IH [of tp1 e2] dispatch_wf [OF Cons.prems(1)] by simp
qed simp

lemma dispatch_all_other:
  assumes "filter (catchup_run n) runs = []" "dispatch_all pe runs tp = (effs, tp')"
  shows "buffer_of n tp' = buffer_of n tp \<and> enqueued n effs = []"
  using assms
proof (induction runs arbitrary: tp effs)
  case (Cons run runs)
  obtain e1 tp1 e2 where d: "DispatchRun pe run tp = (e1, tp1)" "dispatch_all pe runs tp1 = (e2, tp')" "effs = e1 @ e2"
    using Cons.prems(2) by (auto split: prod.splits)
  moreover have "\<not> catchup_run n run" "filter (catchup_run n) runs = []" using Cons.prems(1) by (auto split: if_splits)
  ultimately show ?case using Cons.IH [of tp1 e2] dispatch_other [of n run pe tp e1 tp1] by simp
qed simp

lemma all_mode_frame: "buffer_of n tp' = buffer_of n tp \<Longrightarrow> all_mode n tp' = all_mode n tp \<and> slots n tp' = slots n tp"
  by (simp add: all_mode_def slots_def items_of_def)

lemma dispatch_all_catchup:
  assumes "taken n tp0 runs tp" "dispatch_all pe runs tp = (effs, tp')"
    and "\<forall>run \<in> set runs. catchup_run n run \<longrightarrow> \<not> isSuspendedDAG pe (pr_DAG run)" "pe_enqueue pe = Some enq"
  shows "all_mode n tp' \<and> enqueued n effs @ slots n tp' = slots n tp0"
proof -
  have "all_mode n tp' \<and> enqueued n effs @ slots n tp' = map pr_ScheduledTime (filter (catchup_run n) runs) @ slots n tp"
    if "all_mode n tp" "\<forall>r \<in> set (filter (catchup_run n) runs). run_ok r" "length (filter (catchup_run n) runs) \<le> 1"
      "filter (catchup_run n) runs \<noteq> [] \<longrightarrow> int (length (slots n tp)) < DefaultMaxBufferItems"
    using that assms(2,3)
  proof (induction runs arbitrary: tp effs)
    case (Cons run runs)
    obtain e1 tp1 e2 where d: "DispatchRun pe run tp = (e1, tp1)" "dispatch_all pe runs tp1 = (e2, tp')" "effs = e1 @ e2"
      using Cons.prems(5) by (auto split: prod.splits)
    show ?case
    proof (cases "catchup_run n run")
      case True
      then have rest: "filter (catchup_run n) runs = []" using Cons.prems(3) by simp
      have "all_mode n tp1 \<and> enqueued n e1 @ slots n tp1 = pr_ScheduledTime run # slots n tp"
        using dispatch_catchup [OF True _ Cons.prems(1) _ _ assms(4) d(1)] Cons.prems(2,4,6) True by simp
      then show ?thesis
        using dispatch_all_other [OF rest d(2)] all_mode_frame [of tp' n tp1] True rest d(3) by simp
    next
      case False
      then have "buffer_of n tp1 = buffer_of n tp" "enqueued n e1 = []" using dispatch_other [OF _ d(1)] by simp_all
      then show ?thesis
        using Cons.IH [OF _ _ _ _ d(2)] Cons.prems(1-4,6) all_mode_frame [of tp1 n tp] False d(3) by simp
    qed
  qed simp
  with assms(1) show ?thesis unfolding taken_def by simp
qed


section \<open>Many ticks\<close>

lemma Advance_frame: "tp_entries (Advance now tp) = tp_entries tp \<and> tp_buffers (Advance now tp) = tp_buffers tp"
proof -
  have "tp_entries (fold advance_live rs a) = tp_entries a \<and> tp_buffers (fold advance_live rs a) = tp_buffers a" for rs a
    by (induction rs arbitrary: a) (simp_all add: advance_live_def)
  then show ?thesis by (simp add: Advance_def)
qed

lemma Plan_taken:
  assumes "Plan pe now tp = Some (runs, tp')" "planner_wf tp" "all_mode n tp"
    and "\<forall>dag. sd_Name dag = n \<longrightarrow> \<not> isSuspendedDAG pe dag"
  shows "taken n tp runs tp'"
proof -
  let ?tp0 = "pruneExpiredDeletedWatermarks now tp"
  note pf = prune_frame [of now tp]
  obtain tp1 where p: "plan_entries pe now (tp_entries ?tp0) ?tp0 = Some (runs, tp1)"
    "tp' = tp1\<lparr>tp_lastPlanResult := runs\<rparr>" using assms(1) by (auto simp: Plan_def Let_def)
  have same: "all_mode n ?tp0 = all_mode n tp" "slots n ?tp0 = slots n tp" using all_mode_frame [of ?tp0 n tp] pf by simp_all
  have "buffers_ok ?tp0" "distinct (map fst (tp_entries ?tp0))" "\<forall>e \<in> set (tp_entries ?tp0). sd_Name (snd e) = fst e"
    using assms(2) pf by (simp_all add: planner_wf_def buffers_ok_def items_of_def)
  then have "taken n ?tp0 runs tp1"
    using plan_entries_taken [OF p(1), of n] assms(3,4) same by fastforce
  moreover have "all_mode n tp' = all_mode n tp1" "slots n tp' = slots n tp1"
    using all_mode_frame [of tp' n tp1] p(2) by simp_all
  ultimately show ?thesis using same unfolding taken_def by simp
qed

lemma runTick_catchup:
  assumes "planner_wf tp" "crons_ok S tp" "all_mode n tp" "\<forall>dag. sd_Name dag = n \<longrightarrow> \<not> isSuspendedDAG pe dag"
    and "pe_enqueue pe \<noteq> None"
  shows "\<exists>effs tp'. runTick pe now tp = Some (effs, tp') \<and> planner_wf tp' \<and> tp_entries tp' = tp_entries tp
    \<and> all_mode n tp' \<and> enqueued n effs @ slots n tp' = slots n tp"
proof -
  obtain runs tp1 where p: "Plan pe now tp = Some (runs, tp1)" "planner_wf tp1" "tp_entries tp1 = tp_entries tp"
    using Plan_ok [OF assms(1,2), of pe now] by blast
  obtain effs tp2 where d: "dispatch_all pe runs tp1 = (effs, tp2)" by fastforce
  obtain enq where enq: "pe_enqueue pe = Some enq" using assms(5) by blast
  have "\<forall>run \<in> set runs. catchup_run n run \<longrightarrow> \<not> isSuspendedDAG pe (pr_DAG run)"
    using assms(4) by (simp add: catchup_run_def)
  note c = dispatch_all_catchup [OF Plan_taken [OF p(1) assms(1,3,4)] d this enq]
  have w: "buffers_ok tp2 \<and> tp_entries tp2 = tp_entries tp1"
    using dispatch_all_wf [OF _ d] p(2) by (simp add: planner_wf_def)
  let ?tp' = "Advance now tp2"
  note a = Advance_frame [of now tp2]
  have "runTick pe now tp = Some (effs, ?tp')" using p(1) d by (simp add: runTick_def)
  moreover have "planner_wf ?tp'" "tp_entries ?tp' = tp_entries tp"
    using p(2,3) w a by (simp_all add: planner_wf_def buffers_ok_def items_of_def)
  moreover have "all_mode n ?tp' = all_mode n tp2" "slots n ?tp' = slots n tp2"
    using all_mode_frame [of ?tp' n tp2] a by simp_all
  ultimately show ?thesis using c by simp
qed


text \<open>Three slots missed; the first tick finds the DAG running, the enqueue of the second fails.\<close>

definition behind_planner :: planner where
  "behind_planner = snd (fill_buffer minute_dag [minute, 2 * minute, 3 * minute] minute_planner)"

lemma behind_items:
  "buffer_of m behind_planner = (if m = ''d'' then Some \<lparr> sb_items = map (\<lambda>t. \<lparr> q_DAG = minute_dag, q_ScheduledTime = t,
     q_TriggerType = TriggerTypeCatchUp, q_ScheduleType = ScheduleTypeStart \<rparr>) [minute, 2 * minute, 3 * minute],
     sb_overlapPolicy = OverlapPolicyAll, sb_dagName = ''d'', sb_maxItems = DefaultMaxBufferItems \<rparr> else None)"
  by (simp add: behind_planner_def fill_buffer_def minute_dag_def minute_planner_def NewTickPlanner_def
      NewScheduleBuffer_def buf_Send_def buffer_full_def DefaultMaxBufferItems_def)

lemma behind_ok: "planner_wf behind_planner" "crons_ok (\<lambda>_. {u. minute dvd u}) behind_planner" "all_mode ''d'' behind_planner"
  "slots ''d'' behind_planner = [minute, 2 * minute, 3 * minute]"
proof -
  have e: "tp_entries behind_planner = tp_entries minute_planner"
    by (simp add: behind_planner_def fill_buffer_def minute_dag_def)
  show "planner_wf behind_planner" "crons_ok (\<lambda>_. {u. minute dvd u}) behind_planner"
    using minute_planner_ok e
    by (auto simp: planner_wf_def crons_ok_def buffers_ok_def items_of_def behind_items item_ok_def minute_dag_def)
  show "all_mode ''d'' behind_planner" "slots ''d'' behind_planner = [minute, 2 * minute, 3 * minute]"
    by (auto simp: all_mode_def slots_def items_of_def behind_items DefaultMaxBufferItems_def minute_dag_def)
qed



section \<open>What is not caught up\<close>

lemma Advance_LastTick: "ss_LastTick (tp_state (Advance now tp)) = now"
proof -
  have "ss_LastTick (tp_state (fold advance_live rs a)) = ss_LastTick (tp_state a)" for rs a
    by (induction rs arbitrary: a) (simp_all add: advance_live_def put_wm_def)
  then show ?thesis by (simp add: Advance_def Let_def)
qed

lemma missed_of_after:
  assumes "cron_ok S (sd_Schedule dag)" "t \<in> set (missed_of pe st dag)"
  shows "ss_LastTick st < t"
proof -
  define a where "a = ComputeReplayFrom (sd_CatchupWindow dag) (ss_LastTick st)
    (wm_LastScheduledTime (lookup zero_watermark (ss_DAGs st) (sd_Name dag))) (pe_clock pe)"
  have a: "ss_LastTick st \<le> a" by (simp add: a_def ComputeReplayFrom_def Let_def)
  have "set (missed_of pe st dag) \<subseteq> set (sort (missed_schedules (sd_Schedule dag) a (pe_clock pe) []))"
    unfolding missed_of_def ComputeMissedIntervals_def Let_def a_def [symmetric]
    by (simp only: set_drop_subset subset_refl split: if_split) simp
  then have "t \<in> set (missed_schedules (sd_Schedule dag) a (pe_clock pe) [])" using assms(2) by auto
  then show ?thesis using missed_schedules_set [OF assms(1), of a "pe_clock pe" "[]"] a by (auto simp: fire_times_def)
qed

text \<open>
  C35: slots that wait in a buffer do not survive it. The state after a tick, which is what is saved,
  has the tick as its last one, so that the missed intervals computed from it, by a restarted
  scheduler or for an updated DAG, are all later than the tick: a catch-up slot that
  was still in the buffer then is not among them.
\<close>

theorem pending_slots_not_replayed:
  assumes "runTick pe now tp = Some (effs, tp')" "cron_ok S (sd_Schedule dag)"
  shows "\<forall>t \<in> set (missed_of pe' (tp_state tp') dag). now < t"
proof -
  obtain runs tp1 where p: "Plan pe now tp = Some (runs, tp1)" using assms(1) by (auto simp: runTick_def)
  obtain e2 tp2 where "dispatch_all pe runs tp1 = (e2, tp2)" by fastforce
  then have "tp' = Advance now tp2" using assms(1) p by (simp add: runTick_def)
  then show ?thesis using missed_of_after [OF assms(2)] Advance_LastTick by fastforce
qed

theorem pending_slots_not_replayed_witness:
  "\<exists>effs tp'. runTick (calm_planner_env\<lparr>pe_isRunning := \<lambda>_. Inr True\<rparr>) (4 * minute) behind_planner = Some (effs, tp')
     \<and> (\<forall>t \<in> set (missed_of (calm_planner_env\<lparr>pe_clock := 5 * minute\<rparr>) (tp_state tp') minute_dag). 4 * minute < t)"
proof -
  let ?pe = "calm_planner_env\<lparr>pe_isRunning := \<lambda>_. Inr True\<rparr>"
  have "\<forall>dag. sd_Name dag = ''d'' \<longrightarrow> \<not> isSuspendedDAG ?pe dag" "pe_enqueue ?pe \<noteq> None"
    by (simp_all add: calm_planner_env_def isSuspendedDAG_def)
  from runTick_catchup [OF behind_ok(1-3) this] obtain effs tp' where
    r: "runTick ?pe (4 * minute) behind_planner = Some (effs, tp')" by blast
  have "cron_ok (\<lambda>_. {u. minute dvd u}) (sd_Schedule minute_dag)"
    using minute_planner_ok(2) by (simp add: crons_ok_def minute_planner_def)
  from pending_slots_not_replayed [OF r this] r show ?thesis by blast
qed

end
