(* ===== verification/Tick_OneOff.thy ===== *)
theory Tick_OneOff
  imports Tick_Catchup
begin

text \<open>
  One-off schedules over many ticks: the state of a one-off goes from pending to consumed with the
  first dispatch that succeeds, and it is never planned after that.
\<close>

section \<open>What touches the state of a one-off\<close>

definition one_offs :: "string \<Rightarrow> planner \<Rightarrow> (string \<times> one_off_state) list" where
  "one_offs n tp = wm_OneOffs (get_wm n tp)"

definition consumed :: "string \<Rightarrow> string \<Rightarrow> planner \<Rightarrow> bool" where
  "consumed n fp tp \<longleftrightarrow> map_option oo_Status (map_of (one_offs n tp) fp) = Some OneOffStatusConsumed"

lemma get_put_wm: "get_wm m (put_wm n w tp) = (if m = n then w else get_wm m tp)"
  by (simp add: get_wm_def put_wm_def lookup_def update_conv')

lemma one_offs_advance [simp]: "one_offs m (advance n t tp) = one_offs m tp"
  by (simp add: one_offs_def advanceDAGWatermark_def Let_def get_put_wm)

lemma one_offs_frame [simp]:
  "one_offs m (put_buffer n b tp) = one_offs m tp"
  "one_offs m (tp\<lparr>tp_buffers := bs\<rparr>) = one_offs m tp" "one_offs m (tp\<lparr>tp_lastPlanResult := rs\<rparr>) = one_offs m tp"
  "one_offs m (tp\<lparr>tp_dirty := d\<rparr>) = one_offs m tp"
  "one_offs m (tp\<lparr>tp_state := (tp_state tp)\<lparr>ss_LastTick := now\<rparr>\<rparr>) = one_offs m tp"
  "one_offs m (Flush pe tp) = one_offs m tp" "one_offs m (reinsertCatchupItem run tp) = one_offs m tp"
  by (simp_all add: one_offs_def put_buffer_def get_wm_def Flush_def reinsertCatchupItem_def Let_def split: option.split)

lemma one_offs_collapse: "collapse n b tp = (b', tp') \<Longrightarrow> one_offs m tp' = one_offs m tp"
  by (auto simp: collapse_def split: prod.splits)

lemma one_offs_pop [simp]: "one_offs m (pop_skipped n b tp) = one_offs m tp"
  by (simp add: pop_skipped_def split: prod.split option.split)

lemma one_offs_drop [simp]: "one_offs m (dropSuspendedCatchupState n dag now tp) = one_offs m tp"
  by (simp add: dropSuspendedCatchupState_def)

lemma one_offs_Advance [simp]: "one_offs m (Advance now tp) = one_offs m tp"
proof -
  have "one_offs m (fold advance_live rs a) = one_offs m a" for rs a
    by (induction rs arbitrary: a) (simp_all add: advance_live_def one_offs_def get_put_wm)
  then show ?thesis by (simp add: Advance_def Let_def)
qed

lemma one_offs_catchup:
  assumes "plan_catchup pe n tp = (r, d, tp')"
  shows "one_offs m tp' = one_offs m tp"
  using assms unfolding plan_catchup_def Let_def
  by (auto split: option.splits sum.splits if_splits prod.splits dest: one_offs_collapse)


section \<open>What is planned\<close>

definition one_off_ok :: "planner \<Rightarrow> planned_run \<Rightarrow> bool" where
  "one_off_ok tp run \<longleftrightarrow> (IsOneOff (pr_Schedule run) \<longrightarrow>
     is_start run \<and> pr_Fingerprint run \<noteq> [] \<and> \<not> consumed (sd_Name (pr_DAG run)) (pr_Fingerprint run) tp)"

lemma one_off_ok_frame: "(\<And>m. one_offs m tp' = one_offs m tp) \<Longrightarrow> one_off_ok tp' run = one_off_ok tp run"
  by (simp add: one_off_ok_def consumed_def)

lemma one_off_candidate_ok: "one_off_candidate pe now dag i s tp = Some run \<Longrightarrow> one_off_ok tp run"
  using createPlannedRun_spec [of pe dag i s _ TriggerTypeScheduler run]
  by (auto simp: one_off_candidate_def one_off_ok_def pendingOneOffState_def consumed_def one_offs_def Let_def
      split: if_splits option.splits)

lemma cron_not_one_off: "IsCron s \<Longrightarrow> \<not> IsOneOff s"
  by (auto simp: IsCron_def IsOneOff_def)

lemma cron_candidate_ok: "cron_candidate pe now dag i s tp = Some (Some run) \<Longrightarrow> one_off_ok tp run"
  using createPlannedRun_spec [of pe dag i s _ TriggerTypeScheduler run] cron_not_one_off [of s]
  by (auto simp: cron_candidate_def one_off_ok_def split: if_splits option.splits)

lemma better_ok: "pred_option P c \<Longrightarrow> pred_option P cur \<Longrightarrow> pred_option P (better c cur)"
  by (cases c) (simp_all add: better_def)

lemma one_off_start_planned:
  "pred_option (one_off_ok tp) cur \<Longrightarrow> pred_option (one_off_ok tp) (one_off_start pe now dag tp i ss cur)"
proof (induction ss arbitrary: i cur)
  case (Cons s ss)
  have "pred_option (one_off_ok tp) (one_off_candidate pe now dag i s tp)"
    using one_off_candidate_ok by (cases "one_off_candidate pe now dag i s tp") auto
  then show ?case using Cons better_ok by simp
qed simp

lemma cron_start_planned:
  "cron_start pe now dag tp i ss cur = Some c \<Longrightarrow> pred_option (one_off_ok tp) cur \<Longrightarrow> pred_option (one_off_ok tp) c"
proof (induction ss arbitrary: i cur)
  case (Cons s ss)
  obtain c1 where c1: "cron_candidate pe now dag i s tp = Some c1"
    "cron_start pe now dag tp (Suc i) ss (better c1 cur) = Some c" using Cons.prems(1) by (auto split: option.splits)
  have "pred_option (one_off_ok tp) c1" using cron_candidate_ok c1(1) by (cases c1) auto
  then show ?case using Cons.IH [OF c1(2)] Cons.prems(2) better_ok by simp
qed simp

lemma not_start_ok: "\<forall>r \<in> set (stop_runs pe now dag @ restart_runs now dag). one_off_ok tp r"
  using zero_schedule_kind(1)
  by (auto simp: stop_runs_def restart_runs_def plain_run_def one_off_ok_def split: sum.splits)

lemma plan_live_planned:
  assumes "plan_live pe now dag tp = Some runs"
  shows "\<forall>r \<in> set runs. one_off_ok tp r"
proof -
  obtain c where c: "cron_start pe now dag tp 0 (sd_Schedule dag) (one_off_start pe now dag tp 0 (sd_Schedule dag) None) = Some c"
    "runs = (case c of None \<Rightarrow> [] | Some run \<Rightarrow> [run]) @ stop_runs pe now dag @ restart_runs now dag"
    using assms unfolding plan_live_def by blast
  have "pred_option (one_off_ok tp) c" using cron_start_planned [OF c(1)] one_off_start_planned by simp
  then show ?thesis unfolding c(2) using not_start_ok [of pe now dag tp] by (cases c) auto
qed

lemma plan_entry_planned:
  assumes "plan_entry pe now (n, dag) tp = Some (runs, tp')" "\<forall>it \<in> set (items_of n tp). item_ok n it"
  shows "(\<forall>r \<in> set runs. one_off_ok tp r) \<and> (\<forall>m. one_offs m tp' = one_offs m tp)"
proof (cases "isSuspendedDAG pe dag")
  case True
  then have "runs = []" "tp' = dropSuspendedCatchupState n dag now tp" using assms(1) by (auto simp: plan_entry_def)
  then show ?thesis by simp
next
  case False
  obtain r d tp1 where c: "plan_catchup pe n tp = (r, d, tp1)" by (cases "plan_catchup pe n tp") auto
  have same: "one_offs m tp1 = one_offs m tp" for m using one_offs_catchup [OF c] .
  have eq: "plan_entry pe now (n, dag) tp =
      (case r of Some run \<Rightarrow> Some ([run], tp1)
       | None \<Rightarrow> if d then Some ([], tp1) else map_option (\<lambda>runs. (runs, tp1)) (plan_live pe now dag tp1))"
    using False c by (cases r; cases d) (simp_all add: plan_entry_def)
  show ?thesis
  proof (cases r)
    case (Some run)
    then have "runs = [run] \<and> tp' = tp1" using assms(1) unfolding eq by simp
    moreover have "pr_Schedule run = zero_schedule"
      using catchup_post_run [of pe n tp run tp1] plan_catchup_post [OF c assms(2)] Some by simp
    ultimately show ?thesis using same zero_schedule_kind(1) by (simp add: one_off_ok_def)
  next
    case None
    then have "tp' = tp1 \<and> (runs = [] \<or> plan_live pe now dag tp1 = Some runs)"
      using assms(1) unfolding eq by (auto split: if_splits)
    then show ?thesis using plan_live_planned [of pe now dag tp1 runs] same one_off_ok_frame [of tp1 tp] by auto
  qed
qed

lemma plan_entries_planned:
  assumes "plan_entries pe now es tp = Some (runs, tp')" "\<forall>e \<in> set es. sd_Name (snd e) = fst e" "buffers_ok tp"
  shows "(\<forall>r \<in> set runs. one_off_ok tp r) \<and> (\<forall>m. one_offs m tp' = one_offs m tp)"
  using assms
proof (induction es arbitrary: tp runs)
  case (Cons e es)
  obtain m dag where e: "e = (m, dag)" by fastforce
  obtain rs tp1 rs2 where p: "plan_entry pe now (m, dag) tp = Some (rs, tp1)"
    "plan_entries pe now es tp1 = Some (rs2, tp')" "runs = rs @ rs2"
    using Cons.prems(1) e by (auto split: option.splits)
  have "sd_Name dag = m" using Cons.prems(2) e by simp
  then have b: "buffers_ok tp1" using plan_entry_runs [OF p(1) _ Cons.prems(3)] by simp
  have it: "\<forall>it \<in> set (items_of m tp). item_ok m it" using Cons.prems(3) by (simp add: buffers_ok_def)
  note t = plan_entry_planned [OF p(1) it]
  have "(\<forall>r \<in> set rs2. one_off_ok tp1 r) \<and> (\<forall>m. one_offs m tp' = one_offs m tp1)"
    using Cons.IH [OF p(2) _ b] Cons.prems(2) by simp
  then show ?case using t one_off_ok_frame [of tp1 tp] p(3) by auto
qed simp


lemma prune_one_offs:
  assumes "n \<in> fst ` set (tp_entries tp)"
  shows "one_offs n (pruneExpiredDeletedWatermarks now tp) = one_offs n tp"
proof -
  have "n \<in> fst ` set (tp_entries a) \<Longrightarrow> one_offs n (prune_deleted now g a) = one_offs n a \<and> tp_entries (prune_deleted now g a) = tp_entries a"
    for g a
    by (auto simp: prune_deleted_def Let_def one_offs_def get_wm_def delete_wm_def lookup_def delete_conv'
        map_of_eq_None_iff split: prod.splits)
  then have "n \<in> fst ` set (tp_entries a) \<Longrightarrow> one_offs n (fold (prune_deleted now) gs a) = one_offs n a" for gs a
    by (induction gs arbitrary: a) simp_all
  with assms show ?thesis by (simp add: pruneExpiredDeletedWatermarks_def)
qed

lemma Plan_planned:
  assumes "Plan pe now tp = Some (runs, tp')" "planner_wf tp" "crons_ok S tp" "n \<in> fst ` set (tp_entries tp)"
  shows "one_offs n tp' = one_offs n tp \<and> (\<forall>r \<in> set runs. sd_Name (pr_DAG r) = n \<longrightarrow> one_off_ok tp r)"
proof -
  let ?tp0 = "pruneExpiredDeletedWatermarks now tp"
  note pf = prune_frame [of now tp]
  obtain tp1 where p: "plan_entries pe now (tp_entries ?tp0) ?tp0 = Some (runs, tp1)"
    "tp' = tp1\<lparr>tp_lastPlanResult := runs\<rparr>" using assms(1) by (auto simp: Plan_def Let_def)
  have "buffers_ok ?tp0" "\<forall>e \<in> set (tp_entries ?tp0). sd_Name (snd e) = fst e"
    using assms(2) pf by (simp_all add: planner_wf_def buffers_ok_def items_of_def)
  then have e: "(\<forall>r \<in> set runs. one_off_ok ?tp0 r) \<and> (\<forall>m. one_offs m tp1 = one_offs m ?tp0)"
    using plan_entries_planned [OF p(1)] by simp
  have n: "one_offs n ?tp0 = one_offs n tp" using prune_one_offs [OF assms(4)] .
  then have "one_off_ok ?tp0 r = one_off_ok tp r" if "sd_Name (pr_DAG r) = n" for r
    using that by (simp add: one_off_ok_def consumed_def)
  with e n p(2) show ?thesis by auto
qed

section \<open>What is dispatched\<close>

definition one_off_run :: "string \<Rightarrow> string \<Rightarrow> planned_run \<Rightarrow> bool" where
  "one_off_run n fp r \<longleftrightarrow> IsOneOff (pr_Schedule r) \<and> sd_Name (pr_DAG r) = n \<and> pr_Fingerprint r = fp"

fun run_of :: "effect \<Rightarrow> planned_run" where
  "run_of (Enqueued r) = r"
| "run_of (Dispatched r) = r"

definition fired :: "string \<Rightarrow> string \<Rightarrow> effect list \<Rightarrow> nat" where
  "fired n fp effs = length (filter (one_off_run n fp) (map run_of effs))"

lemma fired_append [simp]: "fired n fp [] = 0" "fired n fp (a @ b) = fired n fp a + fired n fp b"
  by (simp_all add: fired_def)

lemma consume_mono: "consumed m f tp \<Longrightarrow> consumed m f (consume pe run tp)"
  by (auto simp: consume_def markOneOffConsumed_def Let_def consumed_def one_offs_def [symmetric] split: prod.splits bool.splits)
    (auto simp: one_offs_def get_put_wm update_conv')

lemma consume_consumes:
  assumes "pr_Fingerprint run \<noteq> []"
  shows "consumed (sd_Name (pr_DAG run)) (pr_Fingerprint run) (consume pe run tp)"
proof -
  let ?n = "sd_Name (pr_DAG run)" and ?fp = "pr_Fingerprint run"
  have "consumed ?n ?fp (snd (markOneOffConsumed ?n ?fp (pr_ScheduledTime run) tp))"
    using assms
    by (cases "map_of (wm_OneOffs (get_wm ?n tp)) ?fp")
      (auto simp: markOneOffConsumed_def Let_def consumed_def one_offs_def get_put_wm update_conv' lookup_def zero_one_off_def)
  then show ?thesis
    by (auto simp: consume_def consumed_def split: prod.split bool.split)
qed

lemma after_success_mono: "consumed m f tp \<Longrightarrow> consumed m f (after_success pe run tp)"
  using consume_mono by (simp add: after_success_def Let_def consumed_def)

lemma dispatch_mono:
  assumes "consumed m f tp" "DispatchRun pe run tp = (effs, tp')"
  shows "consumed m f tp'"
proof -
  have f: "consumed m f (after_failure pe run tp)"
    using after_failure_cases [of pe run tp] assms(1) consume_mono [OF assms(1)] by (auto simp: consumed_def)
  show ?thesis
    using DispatchRun_cases [of pe run tp] assms f consume_mono [OF assms(1)] after_success_mono [OF assms(1)]
    by (auto simp: consumed_def)
qed

lemma perform_effects: "perform pe run = Some (err, effs) \<Longrightarrow> effs = [] \<or> err = None \<and> map run_of effs = [run]"
  by (auto simp: perform_def split: schedule_type.splits if_splits)

lemma dispatch_effects:
  assumes "DispatchRun pe run tp = (effs, tp')"
  shows "effs = [] \<or> map run_of effs = [run] \<and> tp' = after_success pe run tp"
proof -
  define go where "go = (case perform pe run of None \<Rightarrow> ([], tp) | Some (None, effs) \<Rightarrow> (effs, after_success pe run tp)
      | Some (Some e, effs) \<Rightarrow> (effs, after_failure pe run tp))"
  have go: "fst go = [] \<or> map run_of (fst go) = [run] \<and> snd go = after_success pe run tp"
  proof (cases "perform pe run")
    case (Some x)
    obtain err e where x: "x = (err, e)" by fastforce
    from perform_effects [OF Some [unfolded x]] show ?thesis unfolding go_def Some x by (cases err) auto
  qed (simp add: go_def)
  have "fst (DispatchRun pe run tp) = [] \<or> DispatchRun pe run tp = go"
    unfolding DispatchRun_def Let_def go_def [symmetric]
    by (cases "pe_runExists pe (pr_RunID run)") (auto split: bool.split)
  with go assms show ?thesis by auto
qed

lemma dispatch_fired:
  assumes "DispatchRun pe run tp = (effs, tp')" "one_off_run n fp run \<Longrightarrow> is_start run \<and> fp \<noteq> []"
  shows "fired n fp effs \<le> (if one_off_run n fp run then 1 else 0) \<and> (0 < fired n fp effs \<longrightarrow> consumed n fp tp')"
proof (cases "effs = []")
  case False
  then have e: "map run_of effs = [run]" "tp' = after_success pe run tp" using dispatch_effects [OF assms(1)] by auto
  have "consumed n fp tp'" if "one_off_run n fp run"
    using consume_consumes [of run pe] assms(2) [OF that] that
    by (auto simp: e(2) after_success_def is_start_def one_off_run_def Let_def)
  then show ?thesis by (simp add: fired_def e(1))
qed simp

lemma dispatch_all_fired:
  assumes "dispatch_all pe runs tp = (effs, tp')" "\<forall>run \<in> set runs. one_off_run n fp run \<longrightarrow> is_start run \<and> fp \<noteq> []"
  shows "fired n fp effs \<le> length (filter (one_off_run n fp) runs)
    \<and> (0 < fired n fp effs \<or> consumed n fp tp \<longrightarrow> consumed n fp tp')"
  using assms
proof (induction runs arbitrary: tp effs)
  case (Cons run runs)
  obtain e1 tp1 e2 where d: "DispatchRun pe run tp = (e1, tp1)" "dispatch_all pe runs tp1 = (e2, tp')" "effs = e1 @ e2"
    using Cons.prems(1) by (auto split: prod.splits)
  have 1: "fired n fp e1 \<le> (if one_off_run n fp run then 1 else 0) \<and> (0 < fired n fp e1 \<longrightarrow> consumed n fp tp1)"
    using dispatch_fired [OF d(1)] Cons.prems(2) by simp
  have "\<forall>run \<in> set runs. one_off_run n fp run \<longrightarrow> is_start run \<and> fp \<noteq> []" using Cons.prems(2) by simp
  note 2 = Cons.IH [OF d(2) this]
  have "consumed n fp tp \<Longrightarrow> consumed n fp tp1" using dispatch_mono d(1) by blast
  with 1 2 d(3) show ?case by (auto split: if_splits)
qed simp


section \<open>Many ticks\<close>

lemma one_start:
  assumes "plan_ok pe es runs"
  shows "length (filter (\<lambda>r. is_start r \<and> sd_Name (pr_DAG r) = n) runs) \<le> 1"
proof -
  have "filter (\<lambda>r. is_start r \<and> sd_Name (pr_DAG r) = n) runs = filter (\<lambda>r. sd_Name (pr_DAG r) = n) (filter is_start runs)"
    by (simp add: conj_commute)
  moreover have "length (filter (\<lambda>r. sd_Name (pr_DAG r) = n) rs) \<le> 1"
    if "distinct (map (sd_Name \<circ> pr_DAG) rs)" for rs :: "planned_run list"
    using that by (induction rs) (auto simp: filter_empty_conv image_iff)
  ultimately show ?thesis using assms unfolding plan_ok_def by metis
qed

lemma some_more: "\<forall>x \<in> set xs. P x \<longrightarrow> Q x \<Longrightarrow> length (filter P xs) \<le> length (filter Q xs)"
  by (induction xs) auto

lemma runTick_fired:
  assumes "planner_wf tp" "crons_ok S tp" "n \<in> fst ` set (tp_entries tp)"
  shows "\<exists>effs tp'. runTick pe now tp = Some (effs, tp') \<and> planner_wf tp' \<and> tp_entries tp' = tp_entries tp
    \<and> fired n fp effs \<le> (if consumed n fp tp then 0 else 1)
    \<and> (0 < fired n fp effs \<or> consumed n fp tp \<longrightarrow> consumed n fp tp')"
proof -
  obtain runs tp1 where p: "Plan pe now tp = Some (runs, tp1)" "planner_wf tp1" "tp_entries tp1 = tp_entries tp"
    "plan_ok pe (tp_entries tp) runs" using Plan_ok [OF assms(1,2), of pe now] by blast
  obtain effs tp2 where d: "dispatch_all pe runs tp1 = (effs, tp2)" by fastforce
  note pl = Plan_planned [OF p(1) assms(1-3)]
  have ok: "\<forall>run \<in> set runs. one_off_run n fp run \<longrightarrow> is_start run \<and> fp \<noteq> [] \<and> \<not> consumed n fp tp"
    using pl by (auto simp: one_off_run_def one_off_ok_def)
  then have "\<forall>run \<in> set runs. one_off_run n fp run \<longrightarrow> is_start run \<and> fp \<noteq> []" by blast
  note f = dispatch_all_fired [OF d this]
  have "consumed n fp tp1 = consumed n fp tp" using pl by (simp add: consumed_def)
  have le: "length (filter (one_off_run n fp) runs) \<le> (if consumed n fp tp then 0 else 1)"
  proof (cases "consumed n fp tp")
    case True
    then have "filter (one_off_run n fp) runs = []" using ok by (auto simp: filter_empty_conv)
    then show ?thesis by simp
  next
    case False
    have "length (filter (one_off_run n fp) runs) \<le> length (filter (\<lambda>r. is_start r \<and> sd_Name (pr_DAG r) = n) runs)"
      using some_more [of runs "one_off_run n fp" "\<lambda>r. is_start r \<and> sd_Name (pr_DAG r) = n"] ok
      by (simp add: one_off_run_def)
    with one_start [OF p(4), of n] False show ?thesis by simp
  qed
  have w: "buffers_ok tp2 \<and> tp_entries tp2 = tp_entries tp1"
    using dispatch_all_wf [OF _ d] p(2) by (simp add: planner_wf_def)
  note a = Advance_frame [of now tp2]
  have "runTick pe now tp = Some (effs, Advance now tp2)" using p(1) d by (simp add: runTick_def)
  moreover have "planner_wf (Advance now tp2)" "tp_entries (Advance now tp2) = tp_entries tp"
    using p(2,3) w a by (simp_all add: planner_wf_def buffers_ok_def items_of_def)
  moreover have "consumed n fp (Advance now tp2) = consumed n fp tp2" by (simp add: consumed_def)
  ultimately show ?thesis using f le \<open>consumed n fp tp1 = _\<close> by (meson le_trans)
qed



text \<open>A DAG with one one-off schedule, whose first dispatch fails.\<close>

definition once_planner :: planner where
  "once_planner = NewTickPlanner\<lparr>tp_entries := [(''d'', minute_dag\<lparr>sd_Schedule := [sample_at]\<rparr>)],
     tp_state := newEmptyState\<lparr>ss_DAGs := [(''d'', zero_watermark\<lparr>wm_OneOffs :=
       [(''at:2026-03-01T09:30:00Z'', \<lparr> oo_ScheduledTime = 5 * minute, oo_Status = OneOffStatusPending \<rparr>)]\<rparr>)]\<rparr>\<rparr>"

lemma once_planner_ok: "planner_wf once_planner" "crons_ok (\<lambda>_. {}) once_planner" "''d'' \<in> fst ` set (tp_entries once_planner)"
  by (simp_all add: planner_wf_def once_planner_def NewTickPlanner_def minute_dag_def buffers_ok_def items_of_def
      crons_ok_def cron_ok_def sample_at_def zero_schedule_def)


end
