(* ===== verification/Entry_Reader.thy ===== *)
theory Entry_Reader
  imports Tick_OneOff
begin

text \<open>
  The DAG files and the planner together (\<open>entryreader.go\<close>, \<open>TickPlanner.drainEvents\<close>): the reader
  keeps a registry of the files it has loaded and sends a change for every file event, the planner
  takes the changes in order between its ticks. A reachable planner is well formed, and it
  schedules exactly the DAGs of the files as long as no two files carry the same name.
\<close>

section \<open>The registry of files\<close>

type_synonym registry = "(string \<times> sched_dag) list"

record fs_event =
  fe_Name :: string
  fe_Create :: bool
  fe_Write :: bool
  fe_Rename :: bool
  fe_Remove :: bool

definition IsYAMLFile :: "string \<Rightarrow> bool" where
  "IsYAMLFile filename \<longleftrightarrow> filename \<noteq> [] \<and> path_ext filename \<in> {''.yaml'', ''.yml''}"

text \<open>Loading a file of the directory is an argument.\<close>

definition handleFSEvent ::
  "(string \<Rightarrow> go_error + sched_dag) \<Rightarrow> fs_event \<Rightarrow> registry \<Rightarrow> dag_change list \<times> registry" where
  "handleFSEvent load ev reg =
     (let fileName = path_base (fe_Name ev) in
      if fe_Create ev \<or> fe_Write ev then
        (case load fileName of
           Inl e \<Rightarrow> ([], reg)
         | Inr dag \<Rightarrow>
             (let existed = map_of reg fileName;
                  oldDAGName = (case existed of
                      Some oldDAG \<Rightarrow> if sd_Name oldDAG \<noteq> sd_Name dag then sd_Name oldDAG else []
                    | None \<Rightarrow> [])
              in ((if oldDAGName \<noteq> [] then [DAGChangeDeleted oldDAGName] else []) @
                  [if existed \<noteq> None \<and> oldDAGName = [] then DAGChangeUpdated (Some dag) (sd_Name dag)
                   else DAGChangeAdded (Some dag) (sd_Name dag)],
                  AList.update fileName dag reg)))
      else if fe_Rename ev \<or> fe_Remove ev then
        ((case map_of reg fileName of Some dag \<Rightarrow> [DAGChangeDeleted (sd_Name dag)] | None \<Rightarrow> []),
         AList.delete fileName reg)
      else ([], reg))"

definition watch_event ::
  "(string \<Rightarrow> go_error + sched_dag) \<Rightarrow> fs_event \<Rightarrow> registry \<Rightarrow> dag_change list \<times> registry" where
  "watch_event load ev reg = (if \<not> IsYAMLFile (fe_Name ev) then ([], reg) else handleFSEvent load ev reg)"

fun initialize :: "(string \<times> (go_error + sched_dag)) list \<Rightarrow> registry \<Rightarrow> registry" where
  "initialize [] reg = reg"
| "initialize ((name, loaded) # fis) reg =
     initialize fis
       (if IsYAMLFile name then (case loaded of Inl e \<Rightarrow> reg | Inr dag \<Rightarrow> AList.update name dag reg) else reg)"

definition registry_DAGs :: "registry \<Rightarrow> sched_dag list" where
  "registry_DAGs reg = map snd reg"

section \<open>The service\<close>

record service =
  sv_registry :: registry
  sv_events :: "dag_change list"
  sv_planner :: planner

definition service_init ::
  "planner_env \<Rightarrow> go_error + scheduler_state \<Rightarrow> (string \<times> (go_error + sched_dag)) list \<Rightarrow> service" where
  "service_init pe loaded fis =
     (let reg = initialize fis []
      in \<lparr> sv_registry = reg, sv_events = [],
           sv_planner = planner_Init pe loaded (registry_DAGs reg) NewTickPlanner \<rparr>)"

text \<open>
  A file event, a change taken from the channel, a tick or a flush. The channel keeps the order of the
  changes; a tick and a change exclude each other by \<open>entryMu\<close>.
\<close>

inductive service_step :: "service \<Rightarrow> service \<Rightarrow> bool" where
  watch: "watch_event load ev (sv_registry s) = (evs, reg') \<Longrightarrow>
    service_step s (s\<lparr>sv_registry := reg', sv_events := sv_events s @ evs\<rparr>)"
| drain: "sv_events s = e # es \<Longrightarrow>
    service_step s (s\<lparr>sv_events := es, sv_planner := handleEvent pe e (sv_planner s)\<rparr>)"
| tick: "runTick pe now (sv_planner s) = Some (effs, tp') \<Longrightarrow> service_step s (s\<lparr>sv_planner := tp'\<rparr>)"
| flush: "service_step s (s\<lparr>sv_planner := Flush pe (sv_planner s)\<rparr>)"

inductive_cases service_stepE: "service_step s s'"

section \<open>What a change does\<close>

fun apply_change :: "dag_change \<Rightarrow> (string \<times> sched_dag) list \<Rightarrow> (string \<times> sched_dag) list" where
  "apply_change (DAGChangeAdded (Some dag) n) es = AList.update n dag es"
| "apply_change (DAGChangeUpdated (Some dag) n) es = AList.update n dag es"
| "apply_change (DAGChangeDeleted n) es = AList.delete n es"
| "apply_change _ es = es"

fun change_ok :: "dag_change \<Rightarrow> bool" where
  "change_ok (DAGChangeAdded (Some dag) n) = (sd_Name dag = n)"
| "change_ok (DAGChangeUpdated (Some dag) n) = (sd_Name dag = n)"
| "change_ok _ = True"

lemma store_reconciled_frame:
  "tp_entries (snd (store_reconciled n r tp)) = tp_entries tp \<and> tp_buffers (snd (store_reconciled n r tp)) = tp_buffers tp"
  by (cases r) (simp add: store_reconciled_def)

lemma reconcile_both_frame:
  "tp_entries (snd (reconcile_both pe dag r)) = tp_entries (snd r) \<and> tp_buffers (snd (reconcile_both pe dag r)) = tp_buffers (snd r)"
  using store_reconciled_frame
  by (cases r) (simp add: reconcile_both_def tp_reconcileStartScheduleState_def reconcileOneOffSchedules_def
      split: prod.split, metis snd_conv)

lemma flush_if_frame: "tp_entries (flush_if pe r) = tp_entries (snd r) \<and> tp_buffers (flush_if pe r) = tp_buffers (snd r)"
  by (cases r) (simp add: flush_if_def)


lemma buf_Send_items: "set (sb_items (snd (buf_Send it b))) \<subseteq> insert it (set (sb_items b))"
  by (auto simp: buf_Send_def)

lemma send_missed_ok:
  assumes "\<forall>it \<in> set (sb_items b). item_ok (sd_Name dag) it"
  shows "\<forall>it \<in> set (sb_items (send_missed dag ts b)). item_ok (sd_Name dag) it"
  using assms
proof (induction ts arbitrary: b)
  case (Cons t ts)
  let ?it = "\<lparr> q_DAG = dag, q_ScheduledTime = t, q_TriggerType = TriggerTypeCatchUp, q_ScheduleType = ScheduleTypeStart \<rparr>"
  obtain ok b' where b': "buf_Send ?it b = (ok, b')" by fastforce
  have "item_ok (sd_Name dag) ?it" by (simp add: item_ok_def)
  then have "\<forall>it \<in> set (sb_items b'). item_ok (sd_Name dag) it"
    using Cons.prems buf_Send_items [of ?it b] unfolding b' snd_conv by blast
  with Cons.IH [of b'] show ?case by (cases ok) (simp_all add: b')
qed simp

lemma fill_buffer_ok:
  assumes "buffers_ok tp"
  shows "buffers_ok (snd (fill_buffer dag missed tp)) \<and> tp_entries (snd (fill_buffer dag missed tp)) = tp_entries tp"
proof -
  define b where "b = send_missed dag missed (NewScheduleBuffer (sd_Name dag) (sd_OverlapPolicy dag))"
  have b: "\<forall>it \<in> set (sb_items b). item_ok (sd_Name dag) it"
    unfolding b_def by (rule send_missed_ok) (simp add: NewScheduleBuffer_def)
  obtain dropped b' where d: "(if sd_OverlapPolicy dag = OverlapPolicyLatest then DropAllButLast b else ([], b)) = (dropped, b')"
    by fastforce
  have "set (sb_items b') \<subseteq> set (sb_items b)"
    using d last_in_set [of "sb_items b"] by (fastforce simp: DropAllButLast_def split: if_splits)
  with b have b': "\<forall>it \<in> set (sb_items b'). item_ok (sd_Name dag) it" by blast
  obtain adv tp1 where a: "(if dropped = [] then (False, tp)
      else advanceDAGWatermark (sd_Name dag) (q_ScheduledTime (last dropped)) tp) = (adv, tp1)" by fastforce
  then have "tp1 = tp \<or> tp1 = advance (sd_Name dag) (q_ScheduledTime (last dropped)) tp"
    by (cases "dropped = []") simp_all
  then have tp1: "tp_entries tp1 = tp_entries tp" "tp_buffers tp1 = tp_buffers tp" by (elim disjE, simp_all)+
  have eq: "snd (fill_buffer dag missed tp) = tp1\<lparr>tp_buffers := AList.update (sd_Name dag) b' (tp_buffers tp1)\<rparr>"
    unfolding fill_buffer_def Let_def b_def [symmetric] d prod.case a by simp
  have "items_of m (snd (fill_buffer dag missed tp)) = (if m = sd_Name dag then sb_items b' else items_of m tp)" for m
    unfolding eq by (simp add: items_of_def update_conv' tp1)
  then show ?thesis using assms b' tp1 eq by (simp add: buffers_ok_def)
qed

lemma recompute_ok:
  assumes "buffers_ok tp"
  shows "buffers_ok (snd (recomputeBuffer pe dag tp)) \<and> tp_entries (snd (recomputeBuffer pe dag tp)) = tp_entries tp"
  using assms fill_buffer_ok by (simp add: recomputeBuffer_def Let_def)

lemma buffers_ok_frame: "tp_buffers tp' = tp_buffers tp \<Longrightarrow> buffers_ok tp' = buffers_ok tp"
  by (simp add: buffers_ok_def items_of_def)

lemma buffers_ok_delete: "buffers_ok tp \<Longrightarrow> buffers_ok (tp\<lparr>tp_buffers := AList.delete n (tp_buffers tp)\<rparr>)"
  by (auto simp: buffers_ok_def items_of_def delete_conv' split: option.splits if_splits)

lemma set_entry_frame:
  "tp_entries (set_entry n dag tp) = AList.update n dag (tp_entries tp)" "tp_buffers (set_entry n dag tp) = tp_buffers tp"
  by (simp_all add: set_entry_def)

lemma handleEvent_ok:
  assumes "buffers_ok tp"
  shows "buffers_ok (handleEvent pe e tp) \<and> tp_entries (handleEvent pe e tp) = apply_change e (tp_entries tp)"
proof (cases e)
  case (DAGChangeAdded d n)
  show ?thesis
  proof (cases d)
    case (Some dag)
    define r where "r = reconcile_both pe dag (advanceDAGWatermark n (pe_clock pe) (set_entry n dag tp))"
    have "handleEvent pe e tp = flush_if pe r" by (simp add: DAGChangeAdded Some r_def)
    moreover have "tp_entries (flush_if pe r) = AList.update n dag (tp_entries tp)" "tp_buffers (flush_if pe r) = tp_buffers tp"
      using flush_if_frame [of pe r] reconcile_both_frame [of pe dag "advanceDAGWatermark n (pe_clock pe) (set_entry n dag tp)"]
      by (simp_all add: r_def set_entry_frame)
    ultimately show ?thesis using buffers_ok_frame [of "flush_if pe r" tp] assms DAGChangeAdded Some by simp
  qed (simp add: DAGChangeAdded assms)
next
  case (DAGChangeUpdated d n)
  show ?thesis
  proof (cases d)
    case (Some dag)
    define tp2 where "tp2 = (set_entry n dag tp)\<lparr>tp_buffers := AList.delete n (tp_buffers (set_entry n dag tp))\<rparr>"
    define r where "r = (if 0 < sd_CatchupWindow dag then recomputeBuffer pe dag tp2 else (False, tp2))"
    have "buffers_ok (set_entry n dag tp)" using assms buffers_ok_frame [of "set_entry n dag tp" tp] by (simp add: set_entry_frame)
    then have 2: "buffers_ok tp2" "tp_entries tp2 = AList.update n dag (tp_entries tp)"
      unfolding tp2_def by (simp_all only: buffers_ok_delete) (simp add: set_entry_frame)
    then have r: "buffers_ok (snd r)" "tp_entries (snd r) = tp_entries tp2" unfolding r_def using recompute_ok by simp_all
    have "handleEvent pe e tp = flush_if pe (reconcile_both pe dag r)"
      by (simp add: DAGChangeUpdated Some r_def tp2_def Let_def)
    moreover have "tp_entries (flush_if pe (reconcile_both pe dag r)) = tp_entries (snd r)"
      "tp_buffers (flush_if pe (reconcile_both pe dag r)) = tp_buffers (snd r)"
      using flush_if_frame [of pe "reconcile_both pe dag r"] reconcile_both_frame [of pe dag r] by simp_all
    ultimately show ?thesis
      using r 2 buffers_ok_frame [of "flush_if pe (reconcile_both pe dag r)" "snd r"] DAGChangeUpdated Some by simp
  qed (simp add: DAGChangeUpdated assms)
next
  case (DAGChangeDeleted n)
  then show ?thesis
    using buffers_ok_delete [OF assms, of n] by (simp add: Let_def buffers_ok_def items_of_def)
qed


section \<open>Reachable planners are well formed\<close>

definition entries_ok :: "(string \<times> sched_dag) list \<Rightarrow> bool" where
  "entries_ok es \<longleftrightarrow> distinct (map fst es) \<and> (\<forall>e \<in> set es. sd_Name (snd e) = fst e)"

lemma planner_wf_entries: "planner_wf tp \<longleftrightarrow> entries_ok (tp_entries tp) \<and> buffers_ok tp"
  by (simp add: planner_wf_def entries_ok_def)

lemma entries_ok_update: "entries_ok es \<Longrightarrow> sd_Name dag = n \<Longrightarrow> entries_ok (AList.update n dag es)"
  unfolding entries_ok_def
proof (elim conjE, intro conjI)
  assume "distinct (map fst es)"
  then show "distinct (map fst (AList.update n dag es))" by (rule distinct_update)
next
  assume "\<forall>e \<in> set es. sd_Name (snd e) = fst e" "sd_Name dag = n"
  then show "\<forall>e \<in> set (AList.update n dag es). sd_Name (snd e) = fst e" by (induction es) auto
qed

lemma entries_ok_delete: "entries_ok es \<Longrightarrow> entries_ok (AList.delete n es)"
  unfolding entries_ok_def by (auto simp: AList.delete_eq intro: distinct_delete [unfolded AList.delete_eq])

lemma entries_ok_change: "entries_ok es \<Longrightarrow> change_ok c \<Longrightarrow> entries_ok (apply_change c es)"
  by (cases c rule: change_ok.cases) (simp_all add: entries_ok_update entries_ok_delete)

lemma plan_entries_wf:
  assumes "plan_entries pe now es tp = Some (runs, tp')" "\<forall>e \<in> set es. sd_Name (snd e) = fst e" "buffers_ok tp"
  shows "buffers_ok tp' \<and> tp_entries tp' = tp_entries tp"
  using assms
proof (induction es arbitrary: tp runs)
  case (Cons e es)
  obtain m dag where e: "e = (m, dag)" by fastforce
  obtain rs tp1 rs2 where p: "plan_entry pe now (m, dag) tp = Some (rs, tp1)" "plan_entries pe now es tp1 = Some (rs2, tp')"
    using Cons.prems(1) e by (auto split: option.splits)
  have "sd_Name dag = m" using Cons.prems(2) e by simp
  then have "buffers_ok tp1" "tp_entries tp1 = tp_entries tp"
    using plan_entry_runs [OF p(1) _ Cons.prems(3)] by (simp_all add: same_but_def)
  with Cons.IH [OF p(2)] Cons.prems(2) show ?case by simp
qed simp

lemma runTick_wf:
  assumes "runTick pe now tp = Some (effs, tp')" "planner_wf tp"
  shows "planner_wf tp' \<and> tp_entries tp' = tp_entries tp"
proof -
  obtain runs tp1 where p: "Plan pe now tp = Some (runs, tp1)" using assms(1) by (auto simp: runTick_def)
  obtain e2 tp2 where d: "dispatch_all pe runs tp1 = (e2, tp2)" by fastforce
  have tp': "tp' = Advance now tp2" using assms(1) p d by (simp add: runTick_def)
  let ?tp0 = "pruneExpiredDeletedWatermarks now tp"
  note pf = prune_frame [of now tp]
  obtain tp3 where p3: "plan_entries pe now (tp_entries ?tp0) ?tp0 = Some (runs, tp3)"
    "tp1 = tp3\<lparr>tp_lastPlanResult := runs\<rparr>" using p by (auto simp: Plan_def Let_def)
  have "buffers_ok ?tp0" "\<forall>e \<in> set (tp_entries ?tp0). sd_Name (snd e) = fst e"
    using assms(2) pf buffers_ok_frame [of ?tp0 tp] by (simp_all add: planner_wf_def)
  from plan_entries_wf [OF p3(1) this(2,1)] have "buffers_ok tp3 \<and> tp_entries tp3 = tp_entries tp" using pf by simp
  then have "buffers_ok tp1 \<and> tp_entries tp1 = tp_entries tp" using p3(2) buffers_ok_frame [of tp1 tp3] by simp
  then have "buffers_ok tp2 \<and> tp_entries tp2 = tp_entries tp" using dispatch_all_wf [OF _ d] by simp
  then show ?thesis
    using assms(2) Advance_frame [of now tp2] buffers_ok_frame [of tp' tp2] by (simp add: planner_wf_def tp')
qed


lemma handleEvent_wf:
  assumes "planner_wf tp" "change_ok e"
  shows "planner_wf (handleEvent pe e tp)"
  using assms handleEvent_ok [of tp pe e] entries_ok_change by (simp add: planner_wf_entries)

lemma Flush_wf: "planner_wf (Flush pe tp) = planner_wf tp"
  by (simp add: planner_wf_def buffers_ok_def items_of_def)

definition set_entries :: "sched_dag list \<Rightarrow> (string \<times> sched_dag) list \<Rightarrow> (string \<times> sched_dag) list" where
  "set_entries dags es = fold (\<lambda>dag es. AList.update (sd_Name dag) dag es) dags es"

lemma set_entries_ok: "entries_ok es \<Longrightarrow> entries_ok (set_entries dags es)"
  by (induction dags arbitrary: es) (simp_all add: set_entries_def entries_ok_update)

lemma initBuffers_ok:
  assumes "buffers_ok tp"
  shows "buffers_ok (initBuffers pe dags tp) \<and> tp_entries (initBuffers pe dags tp) = tp_entries tp"
proof -
  have "buffers_ok a \<Longrightarrow> buffers_ok (fold (init_buffer pe st) ds a) \<and> tp_entries (fold (init_buffer pe st) ds a) = tp_entries a"
    for st ds a
  proof (induction ds arbitrary: a)
    case (Cons d ds)
    have "init_buffer pe st d a = a \<or> init_buffer pe st d a = snd (fill_buffer d (missed_of pe st d) a)"
      unfolding init_buffer_def Let_def by (simp only: split: if_split) blast
    then have "buffers_ok (init_buffer pe st d a) \<and> tp_entries (init_buffer pe st d a) = tp_entries a"
      using Cons.prems fill_buffer_ok [OF Cons.prems, of d "missed_of pe st d"] by (elim disjE) (simp_all only: simp_thms)
    with Cons.IH [of "init_buffer pe st d a"] show ?case by simp
  qed simp
  with assms show ?thesis by (simp add: initBuffers_def)
qed

lemma planner_Init_ok:
  "tp_entries (planner_Init pe loaded dags NewTickPlanner) = set_entries dags []
   \<and> buffers_ok (planner_Init pe loaded dags NewTickPlanner)"
proof -
  define st1 where "st1 = (let st = (case loaded of Inl e \<Rightarrow> newEmptyState | Inr st \<Rightarrow> st)
    in if ss_Version st = 0 then st\<lparr>ss_Version := SchedulerStateVersion\<rparr> else st)"
  define kept where "kept = filter (\<lambda>e. fst e \<in> set (map sd_Name dags)) (ss_DAGs st1)"
  obtain m changed where f: "fold (reconcile_dag pe) dags (kept, kept \<noteq> ss_DAGs st1) = (m, changed)" by fastforce
  define tp1 where "tp1 = NewTickPlanner\<lparr>tp_entries := set_entries dags (tp_entries NewTickPlanner),
    tp_state := st1\<lparr>ss_DAGs := m\<rparr>, tp_dirty := (tp_dirty NewTickPlanner \<or> changed)\<rparr>"
  have i: "planner_Init pe loaded dags NewTickPlanner =
      (let tp2 = initBuffers pe dags tp1 in if changed then Flush pe tp2 else tp2)"
    unfolding planner_Init_def set_entries_def st1_def [unfolded Let_def, symmetric] Let_def
    unfolding kept_def [symmetric] f prod.case tp1_def set_entries_def ..
  have "buffers_ok tp1" "tp_entries tp1 = set_entries dags []"
    by (simp_all add: tp1_def buffers_ok_def items_of_def NewTickPlanner_def)
  then have b: "buffers_ok (initBuffers pe dags tp1)" "tp_entries (initBuffers pe dags tp1) = set_entries dags []"
    using initBuffers_ok [of tp1 pe dags] by simp_all
  then show ?thesis
    unfolding i Let_def using buffers_ok_frame [of "Flush pe (initBuffers pe dags tp1)" "initBuffers pe dags tp1"] by simp
qed

lemma planner_Init_wf: "planner_wf (planner_Init pe loaded dags NewTickPlanner)"
  using planner_Init_ok [of pe loaded dags] set_entries_ok [of "[]" dags] by (simp add: planner_wf_entries entries_ok_def [of "[]"])

lemma watch_events_ok: "watch_event load ev reg = (evs, reg') \<Longrightarrow> \<forall>e \<in> set evs. change_ok e"
  by (auto simp: watch_event_def handleFSEvent_def Let_def split: if_splits sum.splits option.splits)


definition service_ok :: "service \<Rightarrow> bool" where
  "service_ok s \<longleftrightarrow> planner_wf (sv_planner s) \<and> (\<forall>e \<in> set (sv_events s). change_ok e)"

lemma service_ok_init: "service_ok (service_init pe loaded fis)"
  by (simp add: service_ok_def service_init_def Let_def planner_Init_wf)

lemma service_ok_step: "service_step s s' \<Longrightarrow> service_ok s \<Longrightarrow> service_ok s'"
proof (induction rule: service_step.induct)
  case (watch load ev s evs reg')
  then show ?case using watch_events_ok [OF watch.hyps] by (auto simp: service_ok_def)
next
  case (drain s e es pe)
  then show ?case using handleEvent_wf [of "sv_planner s" e pe] by (simp add: service_ok_def)
next
  case (tick pe now s effs tp')
  then show ?case using runTick_wf [OF tick.hyps] by (simp add: service_ok_def)
qed (simp add: service_ok_def Flush_wf)

lemma service_ok_reachable: "service_step\<^sup>*\<^sup>* s s' \<Longrightarrow> service_ok s \<Longrightarrow> service_ok s'"
  by (induction rule: rtranclp_induct) (auto intro: service_ok_step)

section \<open>The planner follows the files\<close>

definition names_ok :: "registry \<Rightarrow> bool" where
  "names_ok reg \<longleftrightarrow> (\<forall>f g d e. map_of reg f = Some d \<and> map_of reg g = Some e \<and> sd_Name d = sd_Name e \<longrightarrow> f = g)
     \<and> (\<forall>f d. map_of reg f = Some d \<longrightarrow> sd_Name d \<noteq> [])"

definition tracks :: "(string \<times> sched_dag) list \<Rightarrow> registry \<Rightarrow> bool" where
  "tracks es reg \<longleftrightarrow> (\<forall>n d. map_of es n = Some d \<longleftrightarrow> (\<exists>f. map_of reg f = Some d \<and> sd_Name d = n))"

lemma tracks_delete:
  assumes "tracks es reg" "names_ok reg" "map_of reg f = Some old"
  shows "tracks (AList.delete (sd_Name old) es) (AList.delete f reg)"
proof -
  have k: "sd_Name d \<noteq> sd_Name old \<longleftrightarrow> g \<noteq> f" if "map_of reg g = Some d" for g d
    using assms(2,3) that unfolding names_ok_def by (metis option.inject)
  have es: "map_of es n = Some d \<longleftrightarrow> (\<exists>g. map_of reg g = Some d \<and> sd_Name d = n)" for n d
    using assms(1) unfolding tracks_def by blast
  have "map_of (AList.delete (sd_Name old) es) n = Some d \<longleftrightarrow> n \<noteq> sd_Name old \<and> map_of es n = Some d"
    "map_of (AList.delete f reg) g = Some d \<longleftrightarrow> g \<noteq> f \<and> map_of reg g = Some d" for n d g
    by (simp_all add: delete_conv')
  then show ?thesis unfolding tracks_def using k es by metis
qed

lemma tracks_add:
  assumes "tracks es reg" "map_of reg f = None" "names_ok (AList.update f dag reg)"
  shows "tracks (AList.update (sd_Name dag) dag es) (AList.update f dag reg)"
  unfolding tracks_def
proof (intro allI)
  fix n d
  have other: "sd_Name d \<noteq> sd_Name dag" if "map_of reg g = Some d" for g d
    using assms(2,3) that unfolding names_ok_def update_conv' by (metis fun_upd_apply option.distinct(1))
  have reg: "map_of (AList.update f dag reg) g = Some d \<longleftrightarrow> g = f \<and> d = dag \<or> g \<noteq> f \<and> map_of reg g = Some d" for g
    by (auto simp: update_conv')
  have es: "map_of es n = Some d \<longleftrightarrow> (\<exists>g. map_of reg g = Some d \<and> sd_Name d = n)"
    using assms(1) unfolding tracks_def by blast
  have f: "g \<noteq> f" if "map_of reg g = Some d" for g using assms(2) that by auto
  show "map_of (AList.update (sd_Name dag) dag es) n = Some d \<longleftrightarrow>
      (\<exists>g. map_of (AList.update f dag reg) g = Some d \<and> sd_Name d = n)"
  proof (cases "n = sd_Name dag")
    case True
    then have u: "map_of (AList.update (sd_Name dag) dag es) n = Some d \<longleftrightarrow> d = dag" by (auto simp: update_conv')
    have "d = dag" if "map_of (AList.update f dag reg) g = Some d" "sd_Name d = n" for g
      using that reg other True by metis
    moreover have "map_of (AList.update f dag reg) f = Some dag" by (simp add: update_conv')
    ultimately show ?thesis unfolding u using True by blast
  next
    case False
    then have "map_of (AList.update (sd_Name dag) dag es) n = Some d \<longleftrightarrow> map_of es n = Some d" by (simp add: update_conv')
    moreover have "map_of (AList.update f dag reg) g = Some d \<and> sd_Name d = n \<longleftrightarrow> map_of reg g = Some d \<and> sd_Name d = n" for g
      using False f reg by metis
    ultimately show ?thesis unfolding es by simp
  qed
qed

lemma update_delete: "map_of (AList.update f dag (AList.delete f reg)) = map_of (AList.update f dag reg)"
  by (simp add: update_conv' delete_conv' fun_eq_iff)

lemma tracks_cong: "map_of reg' = map_of reg \<Longrightarrow> map_of es' = map_of es \<Longrightarrow> tracks es' reg' = tracks es reg"
  by (simp add: tracks_def)

lemma names_ok_cong: "map_of reg' = map_of reg \<Longrightarrow> names_ok reg' = names_ok reg"
  by (simp add: names_ok_def)

lemma tracks_watch:
  assumes "watch_event load ev reg = (evs, reg')" "tracks es reg" "names_ok reg" "names_ok reg'"
  shows "tracks (fold apply_change evs es) reg'"
proof -
  let ?f = "path_base (fe_Name ev)"
  consider (same) "evs = []" "reg' = reg"
    | (load) dag where "load ?f = Inr dag" "reg' = AList.update ?f dag reg"
        "evs = (if (case map_of reg ?f of Some old \<Rightarrow> if sd_Name old \<noteq> sd_Name dag then sd_Name old else [] | None \<Rightarrow> []) \<noteq> []
            then [DAGChangeDeleted (case map_of reg ?f of Some old \<Rightarrow> if sd_Name old \<noteq> sd_Name dag then sd_Name old else [] | None \<Rightarrow> [])]
            else []) @ [if map_of reg ?f \<noteq> None \<and> (case map_of reg ?f of Some old \<Rightarrow> if sd_Name old \<noteq> sd_Name dag then sd_Name old else [] | None \<Rightarrow> []) = []
             then DAGChangeUpdated (Some dag) (sd_Name dag) else DAGChangeAdded (Some dag) (sd_Name dag)]"
    | (removed) "reg' = AList.delete ?f reg"
        "evs = (case map_of reg ?f of Some dag \<Rightarrow> [DAGChangeDeleted (sd_Name dag)] | None \<Rightarrow> [])"
    using assms(1) unfolding watch_event_def handleFSEvent_def Let_def by (auto split: if_splits sum.splits)
  then show ?thesis
  proof cases
    case same
    then show ?thesis using assms(2) by simp
  next
    case (load dag)
    show ?thesis
    proof (cases "map_of reg ?f")
      case None
      then show ?thesis using tracks_add [OF assms(2) None] assms(4) load(2,3) by simp
    next
      case (Some old)
      have "tracks (AList.delete (sd_Name old) es) (AList.delete ?f reg)" using tracks_delete [OF assms(2,3) Some] .
      moreover have "map_of (AList.delete ?f reg) ?f = None" by (simp add: delete_conv')
      moreover have "names_ok (AList.update ?f dag (AList.delete ?f reg))"
        using assms(4) load(2) names_ok_cong [OF update_delete] by simp
      ultimately have t: "tracks (AList.update (sd_Name dag) dag (AList.delete (sd_Name old) es)) reg'"
        using tracks_add tracks_cong [OF update_delete refl] unfolding load(2) by blast
      have "sd_Name old \<noteq> []" using assms(3) Some by (simp add: names_ok_def)
      then have e: "fold apply_change evs es = AList.update (sd_Name dag) dag
          (if sd_Name old \<noteq> sd_Name dag then AList.delete (sd_Name old) es else es)"
        unfolding load(3) by (simp add: Some)
      show ?thesis
      proof (cases "sd_Name old = sd_Name dag")
        case True
        then show ?thesis using t tracks_cong [OF refl update_delete [of "sd_Name dag" dag es]] unfolding e by simp
      qed (use t e in simp)
    qed
  next
    case removed
    show ?thesis
    proof (cases "map_of reg ?f")
      case None
      then have "map_of (AList.delete ?f reg) = map_of reg" by (auto simp: delete_conv')
      then show ?thesis using assms(2) None tracks_cong [of "AList.delete ?f reg" reg es es] unfolding removed by simp
    qed (use tracks_delete [OF assms(2,3)] in \<open>simp add: removed\<close>)
  qed
qed


lemma set_entries_lookup:
  assumes "\<forall>d \<in> set ds. \<forall>e \<in> set ds. sd_Name d = sd_Name e \<longrightarrow> d = e"
  shows "map_of (set_entries ds es) n = Some d \<longleftrightarrow>
    d \<in> set ds \<and> sd_Name d = n \<or> n \<notin> sd_Name ` set ds \<and> map_of es n = Some d"
  using assms
proof (induction ds arbitrary: es)
  case (Cons a ds)
  have "map_of (set_entries (a # ds) es) n = Some d \<longleftrightarrow>
      d \<in> set ds \<and> sd_Name d = n \<or> n \<notin> sd_Name ` set ds \<and> map_of (AList.update (sd_Name a) a es) n = Some d"
    using Cons.IH [of "AList.update (sd_Name a) a es"] Cons.prems by (simp add: set_entries_def)
  also have "\<dots> \<longleftrightarrow> d \<in> set (a # ds) \<and> sd_Name d = n \<or> n \<notin> sd_Name ` set (a # ds) \<and> map_of es n = Some d"
  proof (cases "n = sd_Name a")
    case True
    have "e = a" if "e \<in> set ds" "sd_Name e = n" for e using Cons.prems that True by simp
    with True show ?thesis by (auto simp: update_conv')
  next
    case False
    then show ?thesis by (auto simp: update_conv')
  qed
  finally show ?case .
qed (simp add: set_entries_def)

lemma initialize_distinct: "distinct (map fst reg) \<Longrightarrow> distinct (map fst (initialize fis reg))"
  by (induction fis reg rule: initialize.induct) (simp_all add: distinct_update split: sum.split)

lemma tracks_init:
  assumes "names_ok reg" "distinct (map fst reg)"
  shows "tracks (set_entries (registry_DAGs reg) []) reg"
proof -
  have mem: "d \<in> set (registry_DAGs reg) \<longleftrightarrow> (\<exists>f. map_of reg f = Some d)" for d
    using assms(2) by (auto simp: registry_DAGs_def intro: rev_image_eqI dest: map_of_SomeD)
  have "\<forall>d \<in> set (registry_DAGs reg). \<forall>e \<in> set (registry_DAGs reg). sd_Name d = sd_Name e \<longrightarrow> d = e"
    using assms(1) mem unfolding names_ok_def by (metis option.inject)
  from set_entries_lookup [OF this, of "[]"] show ?thesis by (simp add: tracks_def mem)
qed

definition follows :: "service \<Rightarrow> bool" where
  "follows s \<longleftrightarrow> planner_wf (sv_planner s)
     \<and> tracks (fold apply_change (sv_events s) (tp_entries (sv_planner s))) (sv_registry s)"

lemma follows_init:
  "names_ok (sv_registry (service_init pe loaded fis)) \<Longrightarrow> follows (service_init pe loaded fis)"
  using tracks_init [of "initialize fis []"] initialize_distinct [of "[]" fis]
    planner_Init_ok [of pe loaded "registry_DAGs (initialize fis [])"]
  by (simp add: follows_def service_init_def Let_def planner_Init_wf)

lemma follows_step:
  assumes "service_step s s'" "service_ok s" "follows s" "names_ok (sv_registry s)" "names_ok (sv_registry s')"
  shows "follows s'"
  using assms
proof (induction rule: service_step.induct)
  case (watch load ev s evs reg')
  then show ?case using tracks_watch [OF watch.hyps] by (simp add: follows_def)
next
  case (drain s e es pe)
  then show ?case using handleEvent_ok [of "sv_planner s" pe e] handleEvent_wf [of "sv_planner s" e pe]
    by (simp add: follows_def service_ok_def planner_wf_entries)
next
  case (tick pe now s effs tp')
  then show ?case using runTick_wf [OF tick.hyps] by (simp add: follows_def)
qed (simp add: follows_def Flush_wf)

section \<open>Properties of the service\<close>

text \<open>
  C8: every reachable planner is well formed. Whatever files appear, change and disappear, and however
  changes, ticks and flushes interleave, entries and buffers are kept under the names of their
  DAGs and buffers hold catch-up starts only. With schedules that fire in the future the next tick
  therefore returns.
\<close>

theorem service_planner_wf:
  assumes "service_step\<^sup>*\<^sup>* (service_init pe0 loaded fis) s"
  shows "planner_wf (sv_planner s)
    \<and> (crons_ok S (sv_planner s) \<longrightarrow> (\<exists>effs tp'. runTick pe now (sv_planner s) = Some (effs, tp')))"
proof
  show wf: "planner_wf (sv_planner s)"
    using service_ok_reachable [OF assms service_ok_init] by (simp add: service_ok_def)
  show "crons_ok S (sv_planner s) \<longrightarrow> (\<exists>effs tp'. runTick pe now (sv_planner s) = Some (effs, tp'))"
  proof
    assume "crons_ok S (sv_planner s)"
    then obtain runs tp1 where "Plan pe now (sv_planner s) = Some (runs, tp1)" using Plan_ok [OF wf] by blast
    moreover obtain effs tp2 where "dispatch_all pe runs tp1 = (effs, tp2)" by fastforce
    ultimately show "\<exists>effs tp'. runTick pe now (sv_planner s) = Some (effs, tp')" by (simp add: runTick_def)
  qed
qed

text \<open>
  C7: the planner schedules what the files say. As long as the loaded files never carry the same DAG
  name twice, the entries of the planner are exactly the DAGs of the registry, under their
  names, whenever all changes have been taken from the channel.
\<close>

theorem entries_track_files:
  assumes "(\<lambda>a b. service_step a b \<and> names_ok (sv_registry b))\<^sup>*\<^sup>* (service_init pe0 loaded fis) s"
    and "names_ok (sv_registry (service_init pe0 loaded fis))" "sv_events s = []"
  shows "map_of (tp_entries (sv_planner s)) n = Some d \<longleftrightarrow> (\<exists>f. map_of (sv_registry s) f = Some d \<and> sd_Name d = n)"
proof -
  have "service_ok s \<and> follows s \<and> names_ok (sv_registry s)"
    using assms(1)
  proof (induction rule: rtranclp_induct)
    case base
    then show ?case using service_ok_init follows_init assms(2) by blast
  next
    case (step a b)
    then show ?case using service_ok_step follows_step by blast
  qed
  then show ?thesis using assms(3) by (simp add: follows_def tracks_def)
qed


text \<open>A file that appears in an empty directory.\<close>

definition created :: "string \<Rightarrow> fs_event" where
  "created f = \<lparr> fe_Name = f, fe_Create = True, fe_Write = False, fe_Rename = False, fe_Remove = False \<rparr>"

definition removed :: "string \<Rightarrow> fs_event" where
  "removed f = \<lparr> fe_Name = f, fe_Create = False, fe_Write = False, fe_Rename = False, fe_Remove = True \<rparr>"

definition empty_service :: service where
  "empty_service = service_init calm_planner_env (Inr newEmptyState) []"

definition one_file :: service where
  "one_file = empty_service\<lparr>sv_registry := [(''d.yaml'', minute_dag)], sv_events := [],
     sv_planner := handleEvent calm_planner_env (DAGChangeAdded (Some minute_dag) ''d'') (sv_planner empty_service)\<rparr>"

lemma yaml_names [simp]:
  "path_base ''d.yaml'' = ''d.yaml''" "IsYAMLFile ''d.yaml''" "path_base ''e.yaml'' = ''e.yaml''" "IsYAMLFile ''e.yaml''"
  by code_simp+

lemma minute_dag_name [simp]: "sd_Name minute_dag = ''d''"
  by (simp add: minute_dag_def)

lemma empty_service_simps [simp]: "sv_registry empty_service = []" "sv_events empty_service = []"
  by (simp_all add: empty_service_def service_init_def)

lemma one_file_steps:
  "\<exists>a. service_step empty_service a \<and> service_step a one_file \<and> sv_registry a = [(''d.yaml'', minute_dag)]"
proof -
  let ?e = "DAGChangeAdded (Some minute_dag) ''d''"
  let ?a = "empty_service\<lparr>sv_registry := [(''d.yaml'', minute_dag)], sv_events := [?e]\<rparr>"
  have "watch_event (\<lambda>_. Inr minute_dag) (created ''d.yaml'') (sv_registry empty_service) =
      ([?e], [(''d.yaml'', minute_dag)])"
    by (simp add: watch_event_def handleFSEvent_def created_def)
  from service_step.watch [OF this] have "service_step empty_service ?a" by simp
  moreover have "service_step ?a one_file"
    using service_step.drain [of ?a ?e "[]" calm_planner_env] by (simp add: one_file_def)
  ultimately show ?thesis by auto
qed

theorem service_planner_wf_witness: "planner_wf (sv_planner one_file)"
proof -
  have "service_step\<^sup>*\<^sup>* (service_init calm_planner_env (Inr newEmptyState) []) one_file"
    using one_file_steps unfolding empty_service_def by (meson converse_rtranclp_into_rtranclp r_into_rtranclp)
  from service_planner_wf [OF this] show ?thesis by blast
qed

theorem entries_track_files_witness: "map_of (tp_entries (sv_planner one_file)) ''d'' = Some minute_dag"
proof -
  let ?R = "\<lambda>a b. service_step a b \<and> names_ok (sv_registry b)"
  have n: "names_ok [(''d.yaml'', minute_dag)]" "names_ok []" by (simp_all add: names_ok_def)
  have r: "sv_registry one_file = [(''d.yaml'', minute_dag)]" "sv_events one_file = []" by (simp_all add: one_file_def)
  obtain a where "service_step empty_service a" "service_step a one_file" "sv_registry a = [(''d.yaml'', minute_dag)]"
    using one_file_steps by blast
  then have "?R empty_service a" "?R a one_file" using n(1) r(1) by simp_all
  then have "?R\<^sup>*\<^sup>* (service_init calm_planner_env (Inr newEmptyState) []) one_file"
    unfolding empty_service_def [symmetric] by (rule converse_rtranclp_into_rtranclp [OF _ r_into_rtranclp])
  from entries_track_files [OF this _ r(2), of "''d''" minute_dag] show ?thesis
    using n(2) r(1) by (simp add: empty_service_def [symmetric])
qed


end
