(* ===== verification/Queue_Processor.thy ===== *)
theory Queue_Processor
  imports Tick_Planner Backoff Queue_Store "HOL-Library.Sublist" "HOL-Library.Word"
begin

unbundle bit_operations_syntax

text \<open>
  The part of the scheduler that takes runs from the queues (\<open>queue_processor.go\<close>): how many runs a
  queue may start, which items are taken, and when an item leaves its queue. What the stores answer
  during a pass is a record; the polls for the start of a run are a list, one for each
  iteration of \<open>backoff.Retry\<close>.
\<close>

section \<open>Errors\<close>

text \<open>\<open>PermanentErr\<close> is \<open>backoff.PermanentError\<close>, which wraps two errors at once.\<close>

datatype op_error = PlainErr go_error | StaleQueueDispatch string | PermanentErr op_error

fun is_permanent :: "op_error \<Rightarrow> bool" where
  "is_permanent (PermanentErr e) = True"
| "is_permanent e = False"

fun as_stale :: "op_error \<Rightarrow> bool" where
  "as_stale (StaleQueueDispatch r) = True"
| "as_stale (PermanentErr e) = as_stale e"
| "as_stale (PlainErr e) = False"

definition errProcessorClosed :: go_error where
  "errProcessorClosed = Sentinel ''processor closed''"

definition errNotStarted :: go_error where
  "errNotStarted = Sentinel ''execution not started''"

definition ErrDAGRunIDNotFound :: go_error where
  "ErrDAGRunIDNotFound = Sentinel ''dag-run ID not found''"

definition ErrNoStatusData :: go_error where
  "ErrNoStatusData = Sentinel ''no status data''"

definition ErrCorruptedStatusFile :: go_error where
  "ErrCorruptedStatusFile = Sentinel ''corrupted status file''"

definition ErrDAGRunLeaseNotFound :: go_error where
  "ErrDAGRunLeaseNotFound = Sentinel ''dag-run lease not found''"

section \<open>Attempts and leases\<close>

record qp_status =
  qs_Name :: string
  qs_Status :: status
  qs_TriggerType :: trigger_type
  qs_AttemptID :: string
  qs_AttemptKey :: string
  qs_SuspendFlagName :: string

record qp_attempt =
  qa_ID :: string
  qa_Hidden :: bool
  qa_status :: "go_error + qp_status"
  qa_dag :: "go_error + sched_dag"

record dag_run_lease =
  ls_DAGRun :: dag_run_ref
  ls_QueueName :: string
  ls_AttemptID :: string
  ls_LastHeartbeatAt :: int

definition unix_milli :: "int \<Rightarrow> time" where
  "unix_milli ms = 62135596800 * second + ms * millisecond"

definition LastHeartbeatTime :: "dag_run_lease \<Rightarrow> time" where
  "LastHeartbeatTime l = (if ls_LastHeartbeatAt l = 0 then 0 else unix_milli (ls_LastHeartbeatAt l))"

definition IsFresh :: "time \<Rightarrow> duration \<Rightarrow> dag_run_lease \<Rightarrow> bool" where
  "IsFresh now staleThreshold l \<longleftrightarrow>
     \<not> (staleThreshold \<le> 0 \<or> ls_LastHeartbeatAt l = 0) \<and> now - LastHeartbeatTime l < staleThreshold"

definition DefaultStaleLeaseThreshold :: duration where
  "DefaultStaleLeaseThreshold = 30 * second"

text \<open>The hash \<open>fnv.New64a\<close> and its hexadecimal form.\<close>

definition fnv64a :: "string \<Rightarrow> 64 word" where
  "fnv64a s = fold (\<lambda>c h. (h XOR of_nat (of_char c)) * 1099511628211) s 14695981039346656037"

fun hex_digits :: "nat \<Rightarrow> nat \<Rightarrow> string" where
  "hex_digits 0 n = []"
| "hex_digits (Suc k) n = hex_digits k (n div 16) @ [hex_char (n mod 16)]"

definition GenerateAttemptKey :: "string \<Rightarrow> string \<Rightarrow> string \<Rightarrow> string \<Rightarrow> string \<Rightarrow> string" where
  "GenerateAttemptKey rootName rootID dagName dagRunID attemptID =
     hex_digits 16 (unat (fnv64a (rootName @ CHR 0x00 # rootID @ CHR 0x00 # dagName @ CHR 0x00 # dagRunID)))
     @ '':'' @ attemptID"

definition queueAttemptKey :: "dag_run_ref \<Rightarrow> qp_attempt \<Rightarrow> qp_status \<Rightarrow> string" where
  "queueAttemptKey runRef attempt st =
     (let attemptID = (if qs_AttemptID st = [] then qa_ID attempt else qs_AttemptID st)
      in if qs_AttemptKey st \<noteq> [] then qs_AttemptKey st
         else if attemptID = [] then []
         else GenerateAttemptKey (dr_Name runRef) (dr_ID runRef) (dr_Name runRef) (dr_ID runRef) attemptID)"

section \<open>The processor and its environment\<close>

record backoff_config =
  bc_InitialInterval :: duration
  bc_MaxInterval :: duration
  bc_MaxRetries :: int
  bc_StartupGracePeriod :: duration

definition DefaultBackoffConfig :: "bool \<Rightarrow> backoff_config" where
  "DefaultBackoffConfig windows = \<lparr> bc_InitialInterval = 500 * millisecond, bc_MaxInterval = 5 * second,
     bc_MaxRetries = 8, bc_StartupGracePeriod = (if windows then second else 100 * millisecond) \<rparr>"

record proc_queue =
  pq_maxConcurrency :: int
  pq_isGlobal :: bool
  pq_inflight :: int

text \<open>What one poll meets: the context, the processor, the result of a dispatch, the stores.\<close>

record startup_poll =
  po_ctxErr :: "go_error option"
  po_waitErr :: "go_error option"
  po_ctxDone :: "go_error option"
  po_closed :: bool
  po_dispatch :: "op_error option"
  po_execErr :: "go_error option"
  po_alive :: "go_error + bool"
  po_now :: time
  po_attempt :: "go_error + qp_attempt"
  po_lease :: "string \<Rightarrow> go_error + dag_run_lease option"

record qp_env =
  qe_backoff :: backoff_config
  qe_oor :: "real \<Rightarrow> duration"
  qe_hasLeaseStore :: bool
  qe_hasTaskStore :: bool
  qe_leaseStaleThreshold :: duration
  qe_isSuspended :: "string \<Rightarrow> bool"
  qe_isDistributed :: "sched_dag \<Rightarrow> bool"
  qe_closed :: bool
  qe_itemClosed :: bool
  qe_now :: time
  qe_List :: "go_error + (go_error + dag_run_ref) list"
  qe_CountAlive :: "go_error + int"
  qe_ListByQueue :: "go_error + dag_run_lease list"
  qe_CountOutstanding :: "go_error + int"
  qe_HasOutstanding :: "string \<Rightarrow> go_error + bool"
  qe_IsRunAlive :: "dag_run_ref \<Rightarrow> go_error + bool"
  qe_FindAttempt :: "dag_run_ref \<Rightarrow> go_error + qp_attempt"
  qe_CompareAndSwap :: "dag_run_ref \<Rightarrow> go_error + bool"
  qe_Dequeue :: "dag_run_ref \<Rightarrow> go_error option"
  qe_launchedAt :: "dag_run_ref \<Rightarrow> time"
  qe_polls :: "dag_run_ref \<Rightarrow> startup_poll list"

definition leaseStaleThresholdOrDefault :: "qp_env \<Rightarrow> duration" where
  "leaseStaleThresholdOrDefault env =
     (if qe_leaseStaleThreshold env \<le> 0 then DefaultStaleLeaseThreshold else qe_leaseStaleThreshold env)"

definition startup_policy :: "qp_env \<Rightarrow> exponential_policy" where
  "startup_policy env = (NewExponentialBackoffPolicy (bc_InitialInterval (qe_backoff env)))
     \<lparr>ep_MaxInterval := bc_MaxInterval (qe_backoff env), ep_MaxRetries := bc_MaxRetries (qe_backoff env)\<rparr>"

section \<open>The queues\<close>

fun config_queues :: "(string \<times> int) list \<Rightarrow> (string \<times> proc_queue) list \<Rightarrow> (string \<times> proc_queue) list" where
  "config_queues [] qs = qs"
| "config_queues ((name, maxActiveRuns) # cfg) qs =
     config_queues cfg
       (AList.update name \<lparr> pq_maxConcurrency = max maxActiveRuns 1, pq_isGlobal = True, pq_inflight = 0 \<rparr> qs)"

fun ensure_queues :: "string list \<Rightarrow> (string \<times> proc_queue) list \<Rightarrow> (string \<times> proc_queue) list" where
  "ensure_queues [] qs = qs"
| "ensure_queues (name # names) qs =
     ensure_queues names
       (if map_of qs name = None
        then AList.update name \<lparr> pq_maxConcurrency = 1, pq_isGlobal = False, pq_inflight = 0 \<rparr> qs
        else qs)"

definition removeInactiveQueues :: "string list \<Rightarrow> (string \<times> proc_queue) list \<Rightarrow> (string \<times> proc_queue) list" where
  "removeInactiveQueues active qs = filter (\<lambda>(name, q). pq_isGlobal q \<or> name \<in> set active) qs"

text \<open>The queues at the start of the passes of one iteration of the loop, by the answer of \<open>QueueList\<close>.\<close>

definition update_queues :: "go_error + string list \<Rightarrow> (string \<times> proc_queue) list \<Rightarrow> (string \<times> proc_queue) list" where
  "update_queues queueList qs =
     (case queueList of Inl e \<Rightarrow> qs | Inr names \<Rightarrow> removeInactiveQueues names (ensure_queues names qs))"

definition queues_after :: "(string \<times> int) list \<Rightarrow> (go_error + string list) list \<Rightarrow> (string \<times> proc_queue) list" where
  "queues_after cfg answers = fold update_queues answers (config_queues cfg [])"

section \<open>Counting and selecting\<close>

definition countActiveDistributedRuns :: "qp_env \<Rightarrow> go_error + int" where
  "countActiveDistributedRuns env =
     (if \<not> qe_hasLeaseStore env then Inr 0
      else case qe_ListByQueue env of
        Inl e \<Rightarrow> Inl e
      | Inr leases \<Rightarrow> Inr (int (length (filter (IsFresh (qe_now env) (leaseStaleThresholdOrDefault env)) leases))))"

definition countOutstandingDispatchReservations :: "qp_env \<Rightarrow> go_error + int" where
  "countOutstandingDispatchReservations env =
     (if \<not> qe_hasTaskStore env then Inr 0 else qe_CountOutstanding env)"

definition hasOutstandingDispatchReservation :: "qp_env \<Rightarrow> dag_run_ref \<Rightarrow> go_error + bool" where
  "hasOutstandingDispatchReservation env runRef =
     (if \<not> qe_hasTaskStore env then Inr False
      else case qe_FindAttempt env runRef of
        Inl e \<Rightarrow> if errors_is e ErrDAGRunIDNotFound then Inr False else Inl e
      | Inr attempt \<Rightarrow>
          if qa_Hidden attempt then Inr False
          else case qa_status attempt of
            Inl e \<Rightarrow> if errors_is e ErrNoStatusData \<or> errors_is e ErrCorruptedStatusFile then Inr False else Inl e
          | Inr st \<Rightarrow>
              if qs_Status st \<noteq> Queued then Inr False
              else let key = queueAttemptKey runRef attempt st
                   in if key = [] then Inr False else qe_HasOutstanding env key)"

fun select_loop ::
  "qp_env \<Rightarrow> int \<Rightarrow> (go_error + dag_run_ref) list \<Rightarrow> (go_error + dag_run_ref) list \<Rightarrow>
   go_error + (go_error + dag_run_ref) list" where
  "select_loop env freeSlots [] runnable = Inr runnable"
| "select_loop env freeSlots (item # items) runnable =
     (if freeSlots \<le> int (length runnable) then Inr runnable
      else if qe_hasTaskStore env then
        (case item of
           Inl e \<Rightarrow> select_loop env freeSlots items runnable
         | Inr runRef \<Rightarrow>
             (case hasOutstandingDispatchReservation env runRef of
                Inl e \<Rightarrow> Inl e
              | Inr reserved \<Rightarrow>
                  select_loop env freeSlots items (if reserved then runnable else runnable @ [item])))
      else select_loop env freeSlots items (runnable @ [item]))"

definition selectRunnableQueueItems ::
  "qp_env \<Rightarrow> (go_error + dag_run_ref) list \<Rightarrow> int \<Rightarrow> go_error + (go_error + dag_run_ref) list" where
  "selectRunnableQueueItems env items freeSlots =
     (if freeSlots \<le> 0 then Inr [] else select_loop env freeSlots items [])"


section \<open>Waiting for a run to start\<close>

definition checkContextAndQuit :: "startup_poll \<Rightarrow> op_error option" where
  "checkContextAndQuit p =
     (case po_ctxDone p of
        Some e \<Rightarrow> Some (PermanentErr (PlainErr e))
      | None \<Rightarrow> if po_closed p then Some (PermanentErr (PlainErr errProcessorClosed)) else None)"

definition isPreStartExecutionFailure :: "go_error \<Rightarrow> bool" where
  "isPreStartExecutionFailure err \<longleftrightarrow>
     \<not> (errors_is err ContextCanceled \<or> errors_is err DeadlineExceeded) \<and> as_exit_error err = None"

text \<open>\<open>po_execErr\<close> is the error with which a local execution has ended by the time of the poll.\<close>

definition readStartupExecutionError :: "bool \<Rightarrow> startup_poll \<Rightarrow> go_error option" where
  "readStartupExecutionError execErrCh p =
     (case po_execErr p of
        Some e \<Rightarrow> if execErrCh \<and> isPreStartExecutionFailure e then Some e else None
      | None \<Rightarrow> None)"

definition inStartupGracePeriod :: "qp_env \<Rightarrow> time \<Rightarrow> time \<Rightarrow> bool" where
  "inStartupGracePeriod env launchedAt now \<longleftrightarrow>
     0 < bc_StartupGracePeriod (qe_backoff env) \<and> now - launchedAt < bc_StartupGracePeriod (qe_backoff env)"

definition hasFreshDistributedLease ::
  "qp_env \<Rightarrow> string \<Rightarrow> dag_run_ref \<Rightarrow> qp_attempt \<Rightarrow> qp_status \<Rightarrow> startup_poll \<Rightarrow> go_error + bool" where
  "hasFreshDistributedLease env queueName runRef attempt st p =
     (if \<not> qe_hasLeaseStore env then Inr False
      else
        let attemptID = (if qs_AttemptID st = [] then qa_ID attempt else qs_AttemptID st);
            key = queueAttemptKey runRef attempt st
        in if key = [] then Inr False
           else case po_lease p key of
             Inl e \<Rightarrow> if errors_is e ErrDAGRunLeaseNotFound then Inr False else Inl e
           | Inr None \<Rightarrow> Inr False
           | Inr (Some lease) \<Rightarrow>
               if ls_DAGRun lease \<noteq> runRef
                 \<or> queueName \<noteq> [] \<and> ls_QueueName lease \<noteq> [] \<and> ls_QueueName lease \<noteq> queueName
                 \<or> attemptID \<noteq> [] \<and> ls_AttemptID lease \<noteq> [] \<and> ls_AttemptID lease \<noteq> attemptID
               then Inr False
               else Inr (IsFresh (po_now p) (leaseStaleThresholdOrDefault env) lease))"

definition checkStartupStatus ::
  "qp_env \<Rightarrow> string \<Rightarrow> dag_run_ref \<Rightarrow> bool \<Rightarrow> startup_poll \<Rightarrow> op_error option \<times> bool" where
  "checkStartupStatus env queueName runRef execErrCh p =
     (let grace = inStartupGracePeriod env (qe_launchedAt env runRef) (po_now p);
          notStarted = (Some (PlainErr errNotStarted), False)
      in case checkContextAndQuit p of
           Some e \<Rightarrow> (Some e, False)
         | None \<Rightarrow>
             (case readStartupExecutionError execErrCh p of
                Some e \<Rightarrow> (Some (PermanentErr (PlainErr e)), False)
              | None \<Rightarrow>
                  if po_alive p = Inr True then (None, True)
                  else if grace \<and> \<not> qe_hasLeaseStore env then notStarted
                  else case po_attempt p of
                    Inl e \<Rightarrow> (Some (PlainErr e), False)
                  | Inr attempt \<Rightarrow>
                      (case qa_status attempt of
                         Inl e \<Rightarrow> (Some (PlainErr e), False)
                       | Inr st \<Rightarrow>
                           if qs_Status st \<noteq> Queued then (None, True)
                           else case hasFreshDistributedLease env queueName runRef attempt st p of
                             Inr True \<Rightarrow> (None, True)
                           | Inr False \<Rightarrow> notStarted
                           | Inl e \<Rightarrow> if grace then notStarted else (Some (PlainErr e), False))))"

definition retry_startup :: "qp_env \<Rightarrow> ('s \<Rightarrow> startup_poll \<Rightarrow> op_error option \<times> 's) \<Rightarrow> 's \<Rightarrow> startup_poll list \<Rightarrow>
    (op_error option \<times> 's) option" where
  "retry_startup env op s ps =
     retry_op (\<lambda>e. \<not> is_permanent e) (exponential_interval (qe_oor env) (startup_policy env)) 0 op
       (\<lambda>p. map_option PlainErr (po_ctxErr p)) (\<lambda>p. map_option PlainErr (po_waitErr p)) s ps"

definition waitForStartup :: "qp_env \<Rightarrow> string \<Rightarrow> dag_run_ref \<Rightarrow> bool option" where
  "waitForStartup env queueName runRef =
     map_option snd (retry_startup env (\<lambda>started p. checkStartupStatus env queueName runRef True p) False
       (qe_polls env runRef))"

text \<open>The variables of the operation are \<open>dispatched\<close> and \<open>started\<close>.\<close>

definition dispatch_op :: "qp_env \<Rightarrow> string \<Rightarrow> dag_run_ref \<Rightarrow> bool \<times> bool \<Rightarrow> startup_poll \<Rightarrow>
    op_error option \<times> (bool \<times> bool)" where
  "dispatch_op env queueName runRef vars p =
     (case vars of (dispatched, started) \<Rightarrow>
        (case checkContextAndQuit p of
           Some e \<Rightarrow> (Some e, (dispatched, started))
         | None \<Rightarrow>
             (case (if dispatched then None else po_dispatch p) of
                Some err \<Rightarrow> (Some (if as_stale err then PermanentErr err else err), (dispatched, started))
              | None \<Rightarrow>
                  (case checkStartupStatus env queueName runRef False p of
                     (err, started') \<Rightarrow> (err, (True, started'))))))"

datatype qp_effect = Launched dag_run_ref | Aborted dag_run_ref | Removed dag_run_ref

definition dispatchAndWaitForStartup :: "qp_env \<Rightarrow> string \<Rightarrow> dag_run_ref \<Rightarrow> (bool \<times> qp_effect list) option" where
  "dispatchAndWaitForStartup env queueName runRef =
     map_option
       (\<lambda>(err, (dispatched, started)).
          (case err of Some e \<Rightarrow> as_stale e \<or> started | None \<Rightarrow> started,
           if dispatched then [Launched runRef] else []))
       (retry_startup env (dispatch_op env queueName runRef) (False, False) (qe_polls env runRef))"

section \<open>Processing an item\<close>

definition suspendFlagName :: "qp_status \<Rightarrow> sched_dag \<Rightarrow> string" where
  "suspendFlagName st dag =
     (if qs_SuspendFlagName st \<noteq> [] then qs_SuspendFlagName st
      else if SuspendFlagName dag \<noteq> [] then SuspendFlagName dag
      else qs_Name st)"

definition isSuspendedRun :: "qp_env \<Rightarrow> qp_status \<Rightarrow> sched_dag \<Rightarrow> bool" where
  "isSuspendedRun env st dag \<longleftrightarrow>
     isSchedulerManagedTriggerType (qs_TriggerType st)
     \<and> suspendFlagName st dag \<noteq> [] \<and> qe_isSuspended env (suspendFlagName st dag)"

definition dropSuspendedQueuedRun :: "qp_env \<Rightarrow> dag_run_ref \<Rightarrow> qp_effect list" where
  "dropSuspendedQueuedRun env runRef =
     (case qe_CompareAndSwap env runRef of
        Inl e \<Rightarrow> []
      | Inr swapped \<Rightarrow>
          (if swapped then [Aborted runRef] else [])
          @ (if qe_Dequeue env runRef = None then [Removed runRef] else []))"

definition processDAG :: "qp_env \<Rightarrow> string \<Rightarrow> go_error + dag_run_ref \<Rightarrow> (bool \<times> qp_effect list) option" where
  "processDAG env queueName item =
     (if qe_itemClosed env then Some (False, [])
      else case item of
        Inl e \<Rightarrow> Some (False, [])
      | Inr runRef \<Rightarrow>
          (case qe_IsRunAlive env runRef of
             Inl e \<Rightarrow> Some (False, [])
           | Inr running \<Rightarrow>
               if running then Some (True, [])
               else case qe_FindAttempt env runRef of
                 Inl e \<Rightarrow> Some (errors_is e ErrDAGRunIDNotFound, [])
               | Inr attempt \<Rightarrow>
                   if qa_Hidden attempt then Some (True, [])
                   else case qa_status attempt of
                     Inl e \<Rightarrow> Some (errors_is e ErrCorruptedStatusFile, [])
                   | Inr st \<Rightarrow>
                       if qs_Status st \<noteq> Queued then Some (True, [])
                       else case qa_dag attempt of
                         Inl e \<Rightarrow> Some (False, [])
                       | Inr dag \<Rightarrow>
                           if isSuspendedRun env st dag then Some (False, dropSuspendedQueuedRun env runRef)
                           else if qe_isDistributed env dag then dispatchAndWaitForStartup env queueName runRef
                           else map_option (\<lambda>started. (started, [Launched runRef]))
                             (waitForStartup env queueName runRef)))"

definition process_item :: "qp_env \<Rightarrow> string \<Rightarrow> go_error + dag_run_ref \<Rightarrow> qp_effect list option" where
  "process_item env queueName item =
     map_option
       (\<lambda>(ok, effs).
          effs @ (case item of
             Inl e \<Rightarrow> []
           | Inr runRef \<Rightarrow> if ok \<and> qe_Dequeue env runRef = None then [Removed runRef] else []))
       (processDAG env queueName item)"

fun process_batch :: "qp_env \<Rightarrow> string \<Rightarrow> (go_error + dag_run_ref) list \<Rightarrow> qp_effect list option" where
  "process_batch env queueName [] = Some []"
| "process_batch env queueName (item # items) =
     (case process_item env queueName item of
        None \<Rightarrow> None
      | Some effs \<Rightarrow> map_option (\<lambda>es. effs @ es) (process_batch env queueName items))"

text \<open>The free slots of a queue, or an error of one of the counts.\<close>

definition free_slots :: "qp_env \<Rightarrow> proc_queue \<Rightarrow> go_error + int" where
  "free_slots env q =
     (case qe_CountAlive env of
        Inl e \<Rightarrow> Inl e
      | Inr localAlive \<Rightarrow>
          (case countActiveDistributedRuns env of
             Inl e \<Rightarrow> Inl e
           | Inr distributedAlive \<Rightarrow>
               (case countOutstandingDispatchReservations env of
                  Inl e \<Rightarrow> Inl e
                | Inr outstanding \<Rightarrow>
                    Inr (pq_maxConcurrency q - (localAlive + distributedAlive) - pq_inflight q - outstanding))))"

definition ProcessQueueItems :: "qp_env \<Rightarrow> (string \<times> proc_queue) list \<Rightarrow> string \<Rightarrow> qp_effect list option" where
  "ProcessQueueItems env queues queueName =
     (if qe_closed env then Some []
      else case map_of queues queueName of
        None \<Rightarrow> Some []
      | Some q \<Rightarrow>
          (case qe_List env of
             Inl e \<Rightarrow> Some []
           | Inr items \<Rightarrow>
               if items = [] then Some []
               else case free_slots env q of
                 Inl e \<Rightarrow> Some []
               | Inr freeSlots \<Rightarrow>
                   if freeSlots \<le> 0 then Some []
                   else case selectRunnableQueueItems env items freeSlots of
                     Inl e \<Rightarrow> Some []
                   | Inr runnable \<Rightarrow> process_batch env queueName runnable))"


section \<open>The concurrency of a queue\<close>

text \<open>The last entry of the configuration with the name counts; other queues run one DAG at a time.\<close>

definition queue_limit :: "(string \<times> int) list \<Rightarrow> string \<Rightarrow> int" where
  "queue_limit cfg name = (case map_of (rev cfg) name of Some n \<Rightarrow> max n 1 | None \<Rightarrow> 1)"

definition new_queue :: "int \<Rightarrow> bool \<Rightarrow> proc_queue" where
  "new_queue n g = \<lparr> pq_maxConcurrency = n, pq_isGlobal = g, pq_inflight = 0 \<rparr>"

text \<open>Names are unique, the configured queues are there, and all others are plain.\<close>

definition queue_ok :: "(string \<times> int) list \<Rightarrow> string \<Rightarrow> proc_queue option \<Rightarrow> bool" where
  "queue_ok cfg name q \<longleftrightarrow>
     (case map_of (rev cfg) name of
        Some n \<Rightarrow> q = Some (new_queue (max n 1) True)
      | None \<Rightarrow> q = None \<or> q = Some (new_queue 1 False))"

definition queues_ok :: "(string \<times> int) list \<Rightarrow> (string \<times> proc_queue) list \<Rightarrow> bool" where
  "queues_ok cfg qs \<longleftrightarrow> distinct (map fst qs) \<and> (\<forall>name. queue_ok cfg name (map_of qs name))"

lemma queue_ok_new: "queue_ok cfg name None \<Longrightarrow> queue_ok cfg name (Some (new_queue 1 False))"
  by (simp add: queue_ok_def split: option.splits)

lemma queue_ok_removed:
  "queue_ok cfg name q \<Longrightarrow>
   queue_ok cfg name (case q of Some q \<Rightarrow> if pq_isGlobal q \<or> b then Some q else None | None \<Rightarrow> None)"
  by (auto simp: queue_ok_def new_queue_def split: option.splits)

lemma queue_ok_limit:
  "queue_ok cfg name (Some q) \<Longrightarrow> pq_maxConcurrency q = queue_limit cfg name \<and> pq_inflight q = 0"
  by (auto simp: queue_ok_def queue_limit_def new_queue_def split: option.splits)

lemma config_queues_map:
  "map_of (config_queues cfg qs) name =
     (case map_of (rev cfg) name of Some n \<Rightarrow> Some (new_queue (max n 1) True) | None \<Rightarrow> map_of qs name)"
  by (induction cfg qs rule: config_queues.induct)
    (auto simp: update_conv' new_queue_def map_add_def split: option.splits)

lemma config_queues_distinct: "distinct (map fst qs) \<Longrightarrow> distinct (map fst (config_queues cfg qs))"
  by (induction cfg qs rule: config_queues.induct) (simp_all add: distinct_update)

lemma config_queues_ok: "queues_ok cfg (config_queues cfg [])"
  by (simp add: queues_ok_def queue_ok_def config_queues_map config_queues_distinct split: option.split)

lemma ensure_queues_ok: "queues_ok cfg qs \<Longrightarrow> queues_ok cfg (ensure_queues names qs)"
proof (induction names qs rule: ensure_queues.induct)
  case (2 name names qs)
  let ?qs = "AList.update name (new_queue 1 False) qs"
  have "queues_ok cfg ?qs" if "map_of qs name = None"
    using that 2(2) queue_ok_new [of cfg name] unfolding queues_ok_def
    by (simp add: update_conv' distinct_update fun_upd_apply del: Some_eq_map_of_iff map_of_eq_Some_iff) metis
  then show ?case using 2 by (simp add: new_queue_def)
qed simp

lemma removeInactiveQueues_ok:
  assumes "queues_ok cfg qs"
  shows "queues_ok cfg (removeInactiveQueues active qs)"
proof -
  have d: "distinct (map fst qs)" using assms by (simp add: queues_ok_def)
  then have m: "map_of (removeInactiveQueues active qs) name =
      (case map_of qs name of Some q \<Rightarrow> if pq_isGlobal q \<or> name \<in> set active then Some q else None | None \<Rightarrow> None)" for name
    unfolding removeInactiveQueues_def
    by (induction qs) (auto split: option.splits simp: map_of_eq_None_iff dest: map_of_SomeD)
  have "distinct (map fst (removeInactiveQueues active qs))"
    unfolding removeInactiveQueues_def using d by (rule distinct_map_filter)
  moreover have "queue_ok cfg name (map_of (removeInactiveQueues active qs) name)" for name
    unfolding m using assms by (intro queue_ok_removed) (simp add: queues_ok_def)
  ultimately show ?thesis by (simp add: queues_ok_def)
qed

lemma queues_after_ok: "queues_ok cfg (queues_after cfg answers)"
proof -
  have "queues_ok cfg (fold update_queues answers qs)" if "queues_ok cfg qs" for qs
    using that
  proof (induction answers arbitrary: qs)
    case (Cons l answers)
    have "queues_ok cfg (update_queues l qs)"
      using Cons.prems by (simp add: update_queues_def ensure_queues_ok removeInactiveQueues_ok split: sum.split)
    then show ?case by (simp add: Cons.IH)
  qed simp
  then show ?thesis by (simp add: queues_after_def config_queues_ok)
qed

lemma queues_after_limit:
  "map_of (queues_after cfg answers) name = Some q \<Longrightarrow> pq_maxConcurrency q = queue_limit cfg name \<and> pq_inflight q = 0"
  using queues_after_ok [of cfg answers] queue_ok_limit [of cfg name q] unfolding queues_ok_def by metis

section \<open>Passes return\<close>

definition config_ok :: "backoff_config \<Rightarrow> bool" where
  "config_ok c \<longleftrightarrow> 0 \<le> bc_InitialInterval c \<and> 0 \<le> bc_MaxInterval c \<and> bc_MaxInterval c \<le> max_int64 \<and> 0 < bc_MaxRetries c"

lemma startup_policy_valid: "config_ok (qe_backoff env) \<Longrightarrow> exponential_valid (startup_policy env)"
  by unfold_locales (simp_all add: config_ok_def startup_policy_def NewExponentialBackoffPolicy_def)

lemma retry_startup_returns:
  assumes "config_ok (qe_backoff env)" "bc_MaxRetries (qe_backoff env) < int (length ps)"
  shows "retry_startup env op s ps \<noteq> None"
proof -
  let ?as = "op_attempts op (\<lambda>p. map_option PlainErr (po_ctxErr p)) (\<lambda>p. map_option PlainErr (po_waitErr p)) s ps"
  have "0 < ep_MaxRetries (startup_policy env)" "ep_MaxRetries (startup_policy env) < int (length ?as)"
    using assms by (simp_all add: config_ok_def startup_policy_def)
  then have "Retry (\<lambda>e. \<not> is_permanent e) (exponential_interval (qe_oor env) (startup_policy env)) 0 [] ?as \<noteq> None"
    using exponential_valid.exponential_ends [OF startup_policy_valid [OF assms(1)], of 0 ?as] by fastforce
  then show ?thesis
    using retry_op_Retry [of "\<lambda>e. \<not> is_permanent e" "exponential_interval (qe_oor env) (startup_policy env)" 0 op
        "\<lambda>p. map_option PlainErr (po_ctxErr p)" "\<lambda>p. map_option PlainErr (po_waitErr p)" s ps "[]"]
    unfolding retry_startup_def by (metis option.map_disc_iff)
qed

definition polls_enough :: "qp_env \<Rightarrow> bool" where
  "polls_enough env \<longleftrightarrow> config_ok (qe_backoff env) \<and> (\<forall>r. bc_MaxRetries (qe_backoff env) < int (length (qe_polls env r)))"

lemma wait_returns: "polls_enough env \<Longrightarrow> waitForStartup env queueName r \<noteq> None"
  by (simp add: polls_enough_def waitForStartup_def retry_startup_returns del: not_None_eq)

lemma dispatch_returns: "polls_enough env \<Longrightarrow> dispatchAndWaitForStartup env queueName r \<noteq> None"
  by (simp add: polls_enough_def dispatchAndWaitForStartup_def retry_startup_returns del: not_None_eq)

lemma processDAG_returns: "polls_enough env \<Longrightarrow> processDAG env queueName item \<noteq> None"
  using wait_returns [of env queueName] dispatch_returns [of env queueName]
  by (simp add: processDAG_def split: sum.split del: not_None_eq)

lemma process_batch_returns: "polls_enough env \<Longrightarrow> process_batch env queueName items \<noteq> None"
  using processDAG_returns
  by (induction items) (auto simp: process_item_def split: option.split)

section \<open>Capacity and order\<close>

definition launched :: "qp_effect list \<Rightarrow> dag_run_ref list" where
  "launched effs = List.map_filter (\<lambda>e. case e of Launched r \<Rightarrow> Some r | _ \<Rightarrow> None) effs"

definition refs :: "(go_error + dag_run_ref) list \<Rightarrow> dag_run_ref list" where
  "refs items = List.map_filter (\<lambda>it. case it of Inr r \<Rightarrow> Some r | Inl e \<Rightarrow> None) items"

text \<open>An item that a pass may take: with a store of dispatches, only one without an outstanding dispatch.\<close>

definition runnable :: "qp_env \<Rightarrow> go_error + dag_run_ref \<Rightarrow> bool" where
  "runnable env item \<longleftrightarrow> (qe_hasTaskStore env \<longrightarrow>
     (case item of Inl e \<Rightarrow> False | Inr r \<Rightarrow> hasOutstandingDispatchReservation env r = Inr False))"

lemma launched_simps [simp]:
  "launched [] = []" "launched (a @ b) = launched a @ launched b" "launched (Launched r # es) = r # launched es"
  "launched (Aborted r # es) = launched es" "launched (Removed r # es) = launched es"
  by (simp_all add: launched_def map_filter_def)

lemma refs_simps [simp]: "refs [] = []" "refs (Inr r # its) = r # refs its" "refs (Inl e # its) = refs its"
  by (simp_all add: refs_def map_filter_def)

lemma length_refs: "length (refs items) \<le> length items"
  by (induction items rule: list.induct) (auto simp: refs_def map_filter_def intro: le_SucI)

lemma select_loop_take:
  "select_loop env free items acc = Inr r \<Longrightarrow> int (length acc) \<le> free \<Longrightarrow>
   r = acc @ take (nat free - length acc) (filter (runnable env) items)"
proof (induction env free items acc rule: select_loop.induct)
  case (2 env free item items acc)
  show ?case
  proof (cases "free \<le> int (length acc)")
    case True
    with 2 show ?thesis by auto
  next
    case False
    then have n: "nat free - length acc = Suc (nat free - length (acc @ [item]))" "int (length (acc @ [item])) \<le> free"
      by simp_all
    show ?thesis
    proof (cases "qe_hasTaskStore env")
      case True
      note store = this
      show ?thesis
      proof (cases item)
        case (Inl e)
        then show ?thesis using 2 False store by (simp add: runnable_def)
      next
        case (Inr ref)
        obtain b where b: "hasOutstandingDispatchReservation env ref = Inr b"
          using 2(4) False store Inr by (auto split: sum.splits)
        have sel: "select_loop env free items (if b then acc else acc @ [item]) = Inr r"
          using 2(4) False store Inr b by (cases b) simp_all
        note ih = 2(2) [OF False store Inr b sel]
        show ?thesis
        proof (cases b)
          case True
          then show ?thesis using ih 2(5) store Inr b by (simp add: runnable_def)
        next
          case b': False
          then have "runnable env item" using b Inr by (simp add: runnable_def)
          then show ?thesis using ih n b' by simp
        qed
      qed
    next
      case store: False
      then have "runnable env item" by (simp add: runnable_def)
      then show ?thesis using 2(3) [OF False store] 2(4,5) False store n by simp
    qed
  qed
qed simp

lemma process_item_launches:
  assumes "process_item env queueName item = Some effs"
  shows "subseq (launched effs) (refs [item])"
proof (cases item)
  case (Inl e)
  with assms show ?thesis by (auto simp: process_item_def processDAG_def split: if_splits)
next
  case (Inr r)
  have d: "launched (snd x) = [] \<or> launched (snd x) = [r]" if "dispatchAndWaitForStartup env queueName r = Some x" for x
    using that by (auto simp: dispatchAndWaitForStartup_def)
  have s: "launched (dropSuspendedQueuedRun env r) = []"
    by (simp add: dropSuspendedQueuedRun_def split: sum.split)
  have p: "launched (snd x) = [] \<or> launched (snd x) = [r]" if "processDAG env queueName item = Some x" for x
    using that Inr s by (auto simp: processDAG_def split: if_splits sum.splits dest: d)
  obtain x where "processDAG env queueName item = Some x"
    "launched effs = launched (snd x)"
    using assms Inr by (auto simp: process_item_def split: if_splits)
  with p Inr show ?thesis by fastforce
qed

lemma refs_Cons: "refs (it # its) = refs [it] @ refs its"
  by (cases it) simp_all

lemma process_batch_launches:
  "process_batch env queueName items = Some effs \<Longrightarrow> subseq (launched effs) (refs items)"
proof (induction items arbitrary: effs)
  case (Cons item items)
  then obtain a b where ab: "process_item env queueName item = Some a" "process_batch env queueName items = Some b"
    "effs = a @ b"
    by (auto split: option.splits)
  then show ?case
    using process_item_launches [OF ab(1)] Cons.IH [OF ab(2)] refs_Cons [of item items]
    by (simp add: list_emb_append_mono)
qed simp

text \<open>A pass is idle, or it is one batch of the items that \<open>selectRunnableQueueItems\<close> chose.\<close>

lemma ProcessQueueItems_cases:
  obtains (idle) "ProcessQueueItems env queues queueName = Some []"
  | (batch) q items free sel where "map_of queues queueName = Some q" "qe_List env = Inr items"
      "free_slots env q = Inr free" "0 < free" "select_loop env free items [] = Inr sel"
      "ProcessQueueItems env queues queueName = process_batch env queueName sel"
proof (cases "ProcessQueueItems env queues queueName = Some []")
  case False
  then obtain q items free sel where c: "map_of queues queueName = Some q" "qe_List env = Inr items" "\<not> qe_closed env"
      "items \<noteq> []" "free_slots env q = Inr free" "\<not> free \<le> 0" "selectRunnableQueueItems env items free = Inr sel"
    unfolding ProcessQueueItems_def by (auto split: if_splits option.splits sum.splits)
  then have "ProcessQueueItems env queues queueName = process_batch env queueName sel"
    "select_loop env free items [] = Inr sel"
    by (simp_all add: ProcessQueueItems_def selectRunnableQueueItems_def)
  with c show ?thesis by (intro batch [of q items free sel]) simp_all
qed (rule idle)

section \<open>When an item leaves its queue\<close>

text \<open>What a poll shows of a run that has started: its process, a status, or the lease of a worker.\<close>

definition seen_started :: "qp_env \<Rightarrow> string \<Rightarrow> dag_run_ref \<Rightarrow> startup_poll \<Rightarrow> bool" where
  "seen_started env queueName r p \<longleftrightarrow>
     po_alive p = Inr True
     \<or> (case po_attempt p of
          Inl e \<Rightarrow> False
        | Inr a \<Rightarrow>
            (case qa_status a of
               Inl e \<Rightarrow> False
             | Inr st \<Rightarrow> qs_Status st \<noteq> Queued \<or> hasFreshDistributedLease env queueName r a st p = Inr True))"

definition seen_stale :: "startup_poll \<Rightarrow> bool" where
  "seen_stale p \<longleftrightarrow> (case po_dispatch p of Some e \<Rightarrow> as_stale e | None \<Rightarrow> False)"

lemma checkStartupStatus_started:
  assumes "checkStartupStatus env queueName r ch p = (err, started)" started
  shows "seen_started env queueName r p \<and> err = None"
proof (cases "po_alive p = Inr True")
  case True
  with assms show ?thesis by (auto simp: checkStartupStatus_def Let_def seen_started_def split: option.splits)
next
  case False
  with assms show ?thesis
    by (auto simp: checkStartupStatus_def Let_def seen_started_def split: option.splits sum.splits if_splits bool.splits)
qed

text \<open>An invariant of the variables of the operation and a property of its errors hold of the result of the retries.\<close>

lemma retry_op_inv:
  assumes "\<And>s p err s'. p \<in> set ps \<Longrightarrow> op s p = (err, s') \<Longrightarrow> I s \<Longrightarrow> I s' \<and> (\<forall>e. err = Some e \<longrightarrow> E e)"
    and "\<And>p e. p \<in> set ps \<Longrightarrow> ctxErr p = Some e \<Longrightarrow> E e" "\<And>p e. p \<in> set ps \<Longrightarrow> waitErr p = Some e \<Longrightarrow> E e"
    and "I s" "retry_op R P k op ctxErr waitErr s ps = Some (err, s')"
  shows "I s' \<and> (\<forall>e. err = Some e \<longrightarrow> E e)"
  using assms
proof (induction ps arbitrary: s k)
  case (Cons p ps)
  obtain oerr s1 where op: "op s p = (oerr, s1)" by fastforce
  have s1: "I s1" "\<forall>e. oerr = Some e \<longrightarrow> E e"
    using Cons.prems(1) [OF _ op Cons.prems(4)] by simp_all
  have ih: "I s' \<and> (\<forall>e. err = Some e \<longrightarrow> E e)"
    if "retry_op R P (Suc k) op ctxErr waitErr s1 ps = Some (err, s')"
  proof (rule Cons.IH [OF _ _ _ s1(1) that], goal_cases)
    case (1 q)
    from 1(2) 1(3) show ?case by (rule Cons.prems(1) [OF list.set_intros(2) [OF 1(1)]])
  next
    case (2 q)
    from 2(2) show ?case by (rule Cons.prems(2) [OF list.set_intros(2) [OF 2(1)]])
  next
    case (3 q)
    from 3(2) show ?case by (rule Cons.prems(3) [OF list.set_intros(2) [OF 3(1)]])
  qed
  show ?case
    using Cons.prems(2) [of p] Cons.prems(3) [of p] Cons.prems(4,5) s1 op ih
    by (auto simp: retrier_Next_def split: option.splits if_splits)
qed simp

lemma waitForStartup_seen:
  assumes "waitForStartup env queueName r = Some True"
  shows "\<exists>p \<in> set (qe_polls env r). seen_started env queueName r p"
proof -
  let ?I = "\<lambda>s. s \<longrightarrow> (\<exists>p \<in> set (qe_polls env r). seen_started env queueName r p)"
  obtain err where rs: "retry_startup env (\<lambda>started p. checkStartupStatus env queueName r True p) False (qe_polls env r)
      = Some (err, True)"
    using assms by (auto simp: waitForStartup_def)
  have step: "?I s' \<and> (\<forall>e. oerr = Some e \<longrightarrow> True)"
    if "p \<in> set (qe_polls env r)" "checkStartupStatus env queueName r True p = (oerr, s')" "?I s" for s p oerr s'
    using checkStartupStatus_started [OF that(2)] that(1) by blast
  have "?I True \<and> (\<forall>e. err = Some e \<longrightarrow> True)"
    by (rule retry_op_inv [where I = ?I and E = "\<lambda>e. True", OF step _ _ _ rs [unfolded retry_startup_def]]) simp_all
  then show ?thesis by simp
qed


lemma checkStartupStatus_not_stale:
  "checkStartupStatus env queueName r ch p = (Some e, s) \<Longrightarrow> \<not> as_stale e"
  by (auto simp: checkStartupStatus_def checkContextAndQuit_def Let_def split: option.splits sum.splits if_splits bool.splits)

lemma dispatch_op_seen:
  assumes "dispatch_op env queueName r vars p = (err, vars')"
  shows "(snd vars' \<longrightarrow> snd vars \<or> seen_started env queueName r p) \<and> (\<forall>e. err = Some e \<and> as_stale e \<longrightarrow> seen_stale p)"
proof -
  obtain d s where v: "vars = (d, s)" by fastforce
  have stop: "\<not> as_stale e" if "checkContextAndQuit p = Some e" for e
    using that by (auto simp: checkContextAndQuit_def split: option.splits if_splits)
  obtain ce cs where cs: "checkStartupStatus env queueName r False p = (ce, cs)" by fastforce
  have c: "cs \<longrightarrow> seen_started env queueName r p"
    using checkStartupStatus_started [OF cs] by blast
  have ns: "\<not> as_stale e" if "ce = Some e" for e
    using cs that checkStartupStatus_not_stale by blast
  show ?thesis
    using assms v stop cs c ns unfolding dispatch_op_def seen_stale_def
    by (auto split: option.splits if_splits)
qed

lemma dispatchAndWaitForStartup_seen:
  assumes "dispatchAndWaitForStartup env queueName r = Some (True, effs)"
  shows "\<exists>p \<in> set (qe_polls env r). seen_started env queueName r p \<or> seen_stale p"
proof -
  let ?B = "\<exists>p \<in> set (qe_polls env r). seen_started env queueName r p \<or> seen_stale p"
  obtain err d s where rs: "retry_startup env (dispatch_op env queueName r) (False, False) (qe_polls env r) = Some (err, (d, s))"
    and ok: "s \<or> (\<exists>e. err = Some e \<and> as_stale e)"
    using assms by (auto simp: dispatchAndWaitForStartup_def split: option.splits)
  let ?I = "\<lambda>vars. snd vars \<longrightarrow> ?B" and ?E = "\<lambda>e. as_stale e \<longrightarrow> ?B"
  have step: "?I vars' \<and> (\<forall>e. oerr = Some e \<longrightarrow> ?E e)"
    if "p \<in> set (qe_polls env r)" "dispatch_op env queueName r vars p = (oerr, vars')" "?I vars" for vars p oerr vars'
    using dispatch_op_seen [OF that(2)] that(1,3) by blast
  have "?I (d, s) \<and> (\<forall>e. err = Some e \<longrightarrow> ?E e)"
    by (rule retry_op_inv [where I = ?I and E = ?E, OF step _ _ _ rs [unfolded retry_startup_def]]) auto
  with ok show ?thesis by auto
qed

text \<open>
  The reasons for which an item may leave its queue. Only the last one, a start that was seen or a dispatch that
  the coordinator found stale, depends on the polls.
\<close>

definition done_with :: "qp_env \<Rightarrow> string \<Rightarrow> dag_run_ref \<Rightarrow> bool" where
  "done_with env queueName r \<longleftrightarrow>
     qe_IsRunAlive env r = Inr True
     \<or> (case qe_FindAttempt env r of
          Inl e \<Rightarrow> errors_is e ErrDAGRunIDNotFound
        | Inr a \<Rightarrow>
            qa_Hidden a
            \<or> (case qa_status a of
                 Inl e \<Rightarrow> errors_is e ErrCorruptedStatusFile
               | Inr st \<Rightarrow>
                   qs_Status st \<noteq> Queued
                   \<or> (case qa_dag a of
                        Inl e \<Rightarrow> False
                      | Inr dag \<Rightarrow>
                          if isSuspendedRun env st dag then (\<exists>b. qe_CompareAndSwap env r = Inr b)
                          else \<exists>p \<in> set (qe_polls env r). seen_started env queueName r p \<or> seen_stale p)))"

lemma dropSuspendedQueuedRun_removed:
  "Removed r' \<in> set (dropSuspendedQueuedRun env r) \<Longrightarrow> r' = r \<and> (\<exists>b. qe_CompareAndSwap env r = Inr b)"
  by (cases "qe_CompareAndSwap env r") (auto simp: dropSuspendedQueuedRun_def split: if_splits)

lemma processDAG_done:
  assumes "processDAG env queueName (Inr r) = Some (ok, effs)"
  shows "(ok \<longrightarrow> done_with env queueName r) \<and> (\<forall>r'. Removed r' \<in> set effs \<longrightarrow> r' = r \<and> done_with env queueName r)"
proof -
  have d: "(b \<longrightarrow> (\<exists>p \<in> set (qe_polls env r). seen_started env queueName r p \<or> seen_stale p))
      \<and> (\<forall>r'. Removed r' \<notin> set es)"
    if "dispatchAndWaitForStartup env queueName r = Some (b, es)" for b es
  proof -
    have "\<forall>r'. Removed r' \<notin> set es"
      using that by (auto simp: dispatchAndWaitForStartup_def split: if_splits)
    then show ?thesis using that dispatchAndWaitForStartup_seen [of env queueName r es] by (cases b) simp_all
  qed
  have w: "b \<longrightarrow> (\<exists>p \<in> set (qe_polls env r). seen_started env queueName r p \<or> seen_stale p)"
    if "waitForStartup env queueName r = Some b" for b
    using that waitForStartup_seen [of env queueName r] by auto
  show ?thesis
    using assms unfolding processDAG_def done_with_def
    by (auto split: if_splits sum.splits dest: d w dropSuspendedQueuedRun_removed)
qed

lemma process_item_done:
  assumes "process_item env queueName item = Some effs" "Removed r \<in> set effs"
  shows "item = Inr r \<and> done_with env queueName r"
proof (cases item)
  case (Inl e)
  with assms show ?thesis by (auto simp: process_item_def processDAG_def split: if_splits)
next
  case (Inr r')
  then obtain ok es where p: "processDAG env queueName (Inr r') = Some (ok, es)"
    "Removed r \<in> set es \<or> ok \<and> r = r'"
    using assms by (auto simp: process_item_def split: if_splits)
  then show ?thesis using processDAG_done [OF p(1)] Inr by auto
qed

lemma process_batch_done:
  "process_batch env queueName items = Some effs \<Longrightarrow> Removed r \<in> set effs \<Longrightarrow>
   Inr r \<in> set items \<and> done_with env queueName r"
  by (induction items arbitrary: effs) (auto split: option.splits dest: process_item_done)


section \<open>Properties\<close>

text \<open>A queue of two local runs, the first of which starts at once while the DAG of the second cannot be read.\<close>

definition sample_poll :: startup_poll where
  "sample_poll = \<lparr> po_ctxErr = None, po_waitErr = None, po_ctxDone = None, po_closed = False, po_dispatch = None,
     po_execErr = None, po_alive = Inr True, po_now = 0, po_attempt = Inl ErrDAGRunIDNotFound,
     po_lease = (\<lambda>_. Inr None) \<rparr>"

definition sample_queued :: qp_status where
  "sample_queued = \<lparr> qs_Name = ''d'', qs_Status = Queued, qs_TriggerType = TriggerTypeManual, qs_AttemptID = ''a'',
     qs_AttemptKey = [], qs_SuspendFlagName = [] \<rparr>"

definition sample_qdag :: sched_dag where
  "sample_qdag = \<lparr> sd_Name = ''d'', sd_Location = [], sd_Schedule = [], sd_StopSchedule = [], sd_RestartSchedule = [],
     sd_SkipIfSuccessful = False, sd_CatchupWindow = 0, sd_OverlapPolicy = [] \<rparr>"

definition run_ref :: "string \<Rightarrow> dag_run_ref" where
  "run_ref i = \<lparr> dr_Name = ''d'', dr_ID = i \<rparr>"

definition sample_qenv :: qp_env where
  "sample_qenv = \<lparr> qe_backoff = DefaultBackoffConfig False, qe_oor = (\<lambda>_. 0), qe_hasLeaseStore = False,
     qe_hasTaskStore = False, qe_leaseStaleThreshold = 0, qe_isSuspended = (\<lambda>_. False), qe_isDistributed = (\<lambda>_. False),
     qe_closed = False, qe_itemClosed = False, qe_now = 0, qe_List = Inr [Inr (run_ref ''1''), Inr (run_ref ''2'')],
     qe_CountAlive = Inr 1, qe_ListByQueue = Inr [], qe_CountOutstanding = Inr 0, qe_HasOutstanding = (\<lambda>_. Inr False),
     qe_IsRunAlive = (\<lambda>_. Inr False),
     qe_FindAttempt = (\<lambda>r. Inr \<lparr> qa_ID = ''a'', qa_Hidden = False, qa_status = Inr sample_queued,
        qa_dag = (if dr_ID r = ''1'' then Inr sample_qdag else Inl ErrNoStatusData) \<rparr>),
     qe_CompareAndSwap = (\<lambda>_. Inr True), qe_Dequeue = (\<lambda>_. None), qe_launchedAt = (\<lambda>_. 0),
     qe_polls = (\<lambda>_. replicate 9 sample_poll) \<rparr>"

definition sample_queues :: "(string \<times> proc_queue) list" where
  "sample_queues = config_queues [(''q'', 2)] []"

lemma sample_polls_enough: "polls_enough sample_qenv"
  by (simp add: polls_enough_def config_ok_def sample_qenv_def DefaultBackoffConfig_def max_int64_def)

lemma sample_pass:
  "ProcessQueueItems sample_qenv sample_queues ''q'' = Some [Launched (run_ref ''1''), Removed (run_ref ''1'')]"
  by code_simp

text \<open>
  C9: A pass over a queue always returns, as long as the polls cover the retries of the configured back-off. However
  the list of queues changed before, it starts runs only into the configured capacity: together with the
  processes, the fresh leases and the outstanding dispatches they stay within the limit of the queue (or the pass
  starts nothing). The runs are those at the head of the queue that have no outstanding dispatch, each started at most
  once and listed in the order of the queue (the source starts them concurrently).
\<close>

theorem queue_pass_capacity:
  assumes "polls_enough env" "qe_List env = Inr items" "qe_CountAlive env = Inr alive"
    "countActiveDistributedRuns env = Inr leased" "countOutstandingDispatchReservations env = Inr reserved"
  shows "\<exists>effs. ProcessQueueItems env (queues_after cfg answers) queueName = Some effs
    \<and> (let busy = alive + leased + reserved; limit = queue_limit cfg queueName
       in busy + int (length (launched effs)) \<le> max busy limit
          \<and> subseq (launched effs) (refs (take (nat (limit - busy)) (filter (runnable env) items))))"
proof (cases rule: ProcessQueueItems_cases [of env "queues_after cfg answers" queueName])
  case idle
  then show ?thesis by (simp add: Let_def)
next
  case (batch q items' free sel)
  then have eq: "items' = items" "free = queue_limit cfg queueName - (alive + leased + reserved)"
    using assms queues_after_limit [OF batch(1)] by (auto simp: free_slots_def)
  have sel: "sel = take (nat free) (filter (runnable env) items)"
    using select_loop_take [OF batch(5)] batch(4) eq by simp
  obtain effs where effs: "process_batch env queueName sel = Some effs"
    using process_batch_returns [OF assms(1), of queueName sel] by blast
  have sub: "subseq (launched effs) (refs sel)" by (rule process_batch_launches [OF effs])
  have "length (launched effs) \<le> length (refs sel)" by (rule list_emb_length [OF sub])
  also have "\<dots> \<le> nat free" using length_refs [of sel] sel by simp
  finally have "length (launched effs) \<le> nat free" .
  then have "int (length (launched effs)) \<le> free" using batch(4) by simp
  then show ?thesis using batch(6) effs sub sel eq by (auto simp: Let_def)
qed

theorem queue_pass_capacity_witness:
  "\<exists>effs. ProcessQueueItems sample_qenv (queues_after [(''q'', 2)] [Inr [''q'', ''r'']]) ''q'' = Some effs
     \<and> 1 + int (length (launched effs)) \<le> 2"
  using queue_pass_capacity [OF sample_polls_enough, of "[Inr (run_ref ''1''), Inr (run_ref ''2'')]" 1 0 0
      "[(''q'', 2)]" "[Inr [''q'', ''r'']]" "''q''"]
  by (simp add: sample_qenv_def countActiveDistributedRuns_def countOutstandingDispatchReservations_def queue_limit_def
      Let_def)
    blast



text \<open>An item that a pass can neither start nor discard.\<close>

definition unreadable :: "qp_env \<Rightarrow> go_error + dag_run_ref \<Rightarrow> bool" where
  "unreadable env item \<longleftrightarrow>
     (case item of
        Inl e \<Rightarrow> True
      | Inr r \<Rightarrow>
          qe_IsRunAlive env r = Inr False
          \<and> (case qe_FindAttempt env r of
               Inl e \<Rightarrow> False
             | Inr a \<Rightarrow>
                 \<not> qa_Hidden a
                 \<and> (case qa_status a of Inl e \<Rightarrow> False | Inr st \<Rightarrow> qs_Status st = Queued)
                 \<and> (case qa_dag a of Inl e \<Rightarrow> True | Inr dag \<Rightarrow> False)))"

lemma process_unreadable: "unreadable env item \<Longrightarrow> process_item env queueName item = Some []"
proof (cases item)
  case (Inl e)
  then have "processDAG env queueName item = Some (False, [])" by (simp add: processDAG_def)
  then show ?thesis using Inl by (simp add: process_item_def)
next
  case (Inr r)
  assume "unreadable env item"
  then obtain a st e where "qe_IsRunAlive env r = Inr False" "qe_FindAttempt env r = Inr a" "\<not> qa_Hidden a"
    "qa_status a = Inr st" "qs_Status st = Queued" "qa_dag a = Inl e"
    using Inr by (auto simp: unreadable_def split: sum.splits)
  then have "processDAG env queueName item = Some (False, [])" using Inr by (simp add: processDAG_def)
  then show ?thesis using Inr by (simp add: process_item_def)
qed

lemma batch_unreadable: "\<forall>item \<in> set items. unreadable env item \<Longrightarrow> process_batch env queueName items = Some []"
  by (induction items) (simp_all add: process_unreadable)



end
