(* ===== verification/Labels.thy ===== *)
theory Labels
  imports Go_Base
begin

text \<open>
  Labels of DAGs and runs (\<open>core/label.go\<close>), the filters on them, names of workspaces
  (\<open>workspace/workspace.go\<close>) and the label that assigns a DAG to a workspace (\<open>core/exec/workspace.go\<close>).
  Text is ASCII.
\<close>

section \<open>Labels\<close>

record label =
  lb_Key :: string
  lb_Value :: string

definition label_String :: "label \<Rightarrow> string" where
  "label_String t = (if lb_Value t = [] then lb_Key t else lb_Key t @ ''='' @ lb_Value t)"

definition IsZeroLabel :: "label \<Rightarrow> bool" where
  "IsZeroLabel t \<longleftrightarrow> lb_Key t = []"

definition MaxLabelKeyLength :: nat where
  "MaxLabelKeyLength = 63"

definition MaxLabelValueLength :: nat where
  "MaxLabelValueLength = 255"

definition alnum :: "char \<Rightarrow> bool" where
  "alnum c \<longleftrightarrow> (let n = (of_char c :: nat) in 48 \<le> n \<and> n \<le> 57 \<or> 65 \<le> n \<and> n \<le> 90 \<or> 97 \<le> n \<and> n \<le> 122)"

fun ValidLabelKeyPattern :: "string \<Rightarrow> bool" where
  "ValidLabelKeyPattern [] = False"
| "ValidLabelKeyPattern (c # s) = (alnum c \<and> list_all (\<lambda>d. alnum d \<or> d \<in> set ''_.-'') s)"

fun ValidLabelValuePattern :: "string \<Rightarrow> bool" where
  "ValidLabelValuePattern [] = False"
| "ValidLabelValuePattern (c # s) = (alnum c \<and> list_all (\<lambda>d. alnum d \<or> d \<in> set ''_./-'') s)"

text \<open>The number of an error tells the branches apart.\<close>

definition ValidateLabel :: "label \<Rightarrow> go_error option" where
  "ValidateLabel t =
     (if lb_Key t = [] then Some (Errorf 0 ''label key cannot be empty'')
      else if MaxLabelKeyLength < length (lb_Key t) then Some (Errorf 1 ''label key exceeds max length 63'')
      else if \<not> ValidLabelKeyPattern (lb_Key t) then Some (Errorf 2 ''label key contains invalid characters'')
      else if MaxLabelValueLength < length (lb_Value t) then Some (Errorf 3 ''label value exceeds max length 255'')
      else if lb_Value t \<noteq> [] \<and> \<not> ValidLabelValuePattern (lb_Value t)
        then Some (Errorf 4 ''label value contains invalid characters'')
      else None)"

text \<open>The errors that \<open>errors.Join\<close> joins, none when all labels are valid.\<close>

definition ValidateLabels :: "label list \<Rightarrow> go_error list" where
  "ValidateLabels labels =
     List.map_filter (\<lambda>t. map_option (Wrap 0 (''label '' @ label_String t)) (ValidateLabel t)) labels"

definition ParseLabel :: "string \<Rightarrow> label" where
  "ParseLabel s0 =
     (let s = trim_space s0 in
      if s = [] then \<lparr> lb_Key = [], lb_Value = [] \<rparr>
      else case str_cut s (CHR ''='') of
        (key, value, found) \<Rightarrow>
          if \<not> found then \<lparr> lb_Key = to_lower (trim_space key), lb_Value = [] \<rparr>
          else \<lparr> lb_Key = to_lower (trim_space key), lb_Value = to_lower (trim_space value) \<rparr>)"

definition NewLabels :: "string list \<Rightarrow> label list" where
  "NewLabels strs = filter (\<lambda>t. \<not> IsZeroLabel t) (map ParseLabel strs)"

definition labels_Strings :: "label list \<Rightarrow> string list" where
  "labels_Strings ts = map label_String ts"

fun labels_Keys :: "label list \<Rightarrow> string list \<Rightarrow> string list" where
  "labels_Keys [] keys = keys"
| "labels_Keys (t # ts) keys = labels_Keys ts (if lb_Key t \<in> set keys then keys else keys @ [lb_Key t])"

definition HasKey :: "label list \<Rightarrow> string \<Rightarrow> bool" where
  "HasKey ts key \<longleftrightarrow> list_ex (\<lambda>t. lb_Key t = to_lower key) ts"

definition labels_Get :: "label list \<Rightarrow> string \<Rightarrow> string list" where
  "labels_Get ts key = map lb_Value (filter (\<lambda>t. lb_Key t = to_lower key) ts)"

section \<open>Filters on labels\<close>

datatype label_filter_type =
  LabelFilterTypeKeyOnly | LabelFilterTypeExact | LabelFilterTypeNegation | LabelFilterTypeWildcard

record label_filter =
  lf_Type :: label_filter_type
  lf_Key :: string
  lf_Value :: string

definition containsWildcard :: "string \<Rightarrow> bool" where
  "containsWildcard s \<longleftrightarrow> list_ex (\<lambda>c. c = CHR ''*'' \<or> c = CHR ''?'') s"

definition ParseLabelFilter :: "string \<Rightarrow> label_filter" where
  "ParseLabelFilter s0 =
     (let s = trim_space s0 in
      if s = [] then \<lparr> lf_Type = LabelFilterTypeKeyOnly, lf_Key = [], lf_Value = [] \<rparr>
      else if has_prefix s ''!'' then
        \<lparr> lf_Type = LabelFilterTypeNegation, lf_Key = to_lower (trim_space (tl s)), lf_Value = [] \<rparr>
      else case str_cut s (CHR ''='') of
        (key0, value0, found) \<Rightarrow>
          if found then
            let key = to_lower (trim_space key0); value = to_lower (trim_space value0)
            in \<lparr> lf_Type = (if containsWildcard key \<or> containsWildcard value then LabelFilterTypeWildcard
                   else LabelFilterTypeExact), lf_Key = key, lf_Value = value \<rparr>
          else
            \<lparr> lf_Type = (if containsWildcard (to_lower s) then LabelFilterTypeWildcard else LabelFilterTypeKeyOnly),
               lf_Key = to_lower s, lf_Value = [] \<rparr>)"

text \<open>
  The regular expressions that \<open>globToRegex\<close> writes: anchored sequences of \<open>.*\<close>, \<open>.\<close> and (escaped)
  characters. A dot matches every character but a newline.
\<close>

datatype re_item = ReStar | ReDot | ReChar char

definition globToRegex :: "string \<Rightarrow> re_item list" where
  "globToRegex glob = map (\<lambda>c. if c = CHR ''*'' then ReStar else if c = CHR ''?'' then ReDot else ReChar c) glob"

fun re_match :: "re_item list \<Rightarrow> string \<Rightarrow> bool" where
  "re_match [] s = (s = [])"
| "re_match (ReStar # r) [] = re_match r []"
| "re_match (ReStar # r) (c # s) = (re_match r (c # s) \<or> c \<noteq> CHR 0x0A \<and> re_match (ReStar # r) s)"
| "re_match (ReDot # r) [] = False"
| "re_match (ReDot # r) (c # s) = (c \<noteq> CHR 0x0A \<and> re_match r s)"
| "re_match (ReChar d # r) [] = False"
| "re_match (ReChar d # r) (c # s) = (c = d \<and> re_match r s)"

definition matchGlob :: "string \<Rightarrow> string \<Rightarrow> bool" where
  "matchGlob pattern s = re_match (globToRegex pattern) s"

definition filter_MatchesLabels :: "label_filter \<Rightarrow> label list \<Rightarrow> bool" where
  "filter_MatchesLabels f labels =
     (case lf_Type f of
        LabelFilterTypeKeyOnly \<Rightarrow> HasKey labels (lf_Key f)
      | LabelFilterTypeExact \<Rightarrow> list_ex (\<lambda>t. lb_Key t = lf_Key f \<and> lb_Value t = lf_Value f) labels
      | LabelFilterTypeNegation \<Rightarrow> \<not> HasKey labels (lf_Key f)
      | LabelFilterTypeWildcard \<Rightarrow>
          list_ex (\<lambda>t. matchGlob (lf_Key f) (lb_Key t) \<and> (lf_Value f = [] \<or> matchGlob (lf_Value f) (lb_Value t))) labels)"

definition MatchesFilters :: "label list \<Rightarrow> label_filter list \<Rightarrow> bool" where
  "MatchesFilters labels filters \<longleftrightarrow> list_all (\<lambda>f. filter_MatchesLabels f labels) filters"

section \<open>Workspaces\<close>

definition ErrInvalidWorkspaceName :: go_error where
  "ErrInvalidWorkspaceName = Sentinel ''invalid workspace name''"

definition workspaceNamePattern :: "string \<Rightarrow> bool" where
  "workspaceNamePattern s \<longleftrightarrow> s \<noteq> [] \<and> list_all (\<lambda>c. alnum c \<or> c \<in> set ''_-'') s"

definition ValidateName :: "string \<Rightarrow> go_error option" where
  "ValidateName name =
     (if name = [] then Some ErrInvalidWorkspaceName
      else if to_lower name \<in> {''all'', ''default''} then Some (Wrap 0 ''reserved name'' ErrInvalidWorkspaceName)
      else if \<not> workspaceNamePattern name then Some (Wrap 1 ''invalid characters'' ErrInvalidWorkspaceName)
      else None)"

definition WorkspaceLabelKey :: string where
  "WorkspaceLabelKey = ''workspace''"

datatype workspace_label_state = WorkspaceLabelMissing | WorkspaceLabelValid | WorkspaceLabelInvalid

fun workspace_label_loop :: "string list \<Rightarrow> string \<Rightarrow> string \<times> workspace_label_state" where
  "workspace_label_loop [] workspaceName =
     (if workspaceName = [] then ([], WorkspaceLabelMissing) else (workspaceName, WorkspaceLabelValid))"
| "workspace_label_loop (value # values) workspaceName =
     (if value = [] then ([], WorkspaceLabelInvalid)
      else if ValidateName value \<noteq> None then (value, WorkspaceLabelInvalid)
      else if workspaceName \<noteq> [] \<and> workspaceName \<noteq> value then (workspaceName, WorkspaceLabelInvalid)
      else workspace_label_loop values value)"

definition WorkspaceLabelFromLabels :: "label list \<Rightarrow> string \<times> workspace_label_state" where
  "WorkspaceLabelFromLabels labels = workspace_label_loop (labels_Get labels WorkspaceLabelKey) []"

definition WorkspaceNameFromLabels :: "label list \<Rightarrow> string \<times> bool" where
  "WorkspaceNameFromLabels labels =
     (case WorkspaceLabelFromLabels labels of (workspaceName, state) \<Rightarrow> (workspaceName, state = WorkspaceLabelValid))"

record workspace_filter =
  wf_Enabled :: bool
  wf_Workspaces :: "string list"
  wf_IncludeUnlabelled :: bool

definition workspace_MatchesLabels :: "workspace_filter option \<Rightarrow> label list \<Rightarrow> bool" where
  "workspace_MatchesLabels f labels =
     (case f of
        None \<Rightarrow> True
      | Some f \<Rightarrow>
          if \<not> wf_Enabled f then True
          else case WorkspaceLabelFromLabels labels of
            (workspaceName, WorkspaceLabelMissing) \<Rightarrow> wf_IncludeUnlabelled f
          | (workspaceName, WorkspaceLabelInvalid) \<Rightarrow> False
          | (workspaceName, WorkspaceLabelValid) \<Rightarrow> workspaceName \<in> set (wf_Workspaces f))"

section \<open>Lemmas\<close>

text \<open>A workspace name has no white space, so that trimming keeps it.\<close>

lemma valid_name_chars: "ValidateName w = None \<Longrightarrow> c \<in> set w \<Longrightarrow> alnum c \<or> c \<in> set ''_-''"
  by (auto simp: ValidateName_def workspaceNamePattern_def list_all_iff split: if_splits)

lemma valid_name_nonempty: "ValidateName w = None \<Longrightarrow> w \<noteq> []"
  by (auto simp: ValidateName_def)

lemma valid_name_no_space: "ValidateName w = None \<Longrightarrow> c \<in> set w \<Longrightarrow> \<not> is_space c"
  by (drule (1) valid_name_chars) (auto simp: alnum_def is_space_def Let_def)

lemma valid_name_trim: "ValidateName w = None \<Longrightarrow> trim_space w = w"
  using valid_name_nonempty [of w] valid_name_no_space [of w "hd w"] valid_name_no_space [of w "last w"]
  by (simp add: trim_space_fixed)

lemma workspace_label_loop_valid:
  "name \<noteq> [] \<Longrightarrow> workspace_label_loop vs name = (w, WorkspaceLabelValid) \<longleftrightarrow>
   w = name \<and> (\<forall>v \<in> set vs. v = name) \<and> (vs \<noteq> [] \<longrightarrow> ValidateName name = None)"
  by (induction vs name rule: workspace_label_loop.induct) (auto dest: valid_name_nonempty)

lemma WorkspaceLabel_valid:
  "WorkspaceLabelFromLabels labels = (w, WorkspaceLabelValid) \<longleftrightarrow>
   set (labels_Get labels WorkspaceLabelKey) = {w} \<and> ValidateName w = None"
proof (cases "labels_Get labels WorkspaceLabelKey")
  case (Cons v vs)
  then show ?thesis
    by (auto simp: WorkspaceLabelFromLabels_def workspace_label_loop_valid dest: valid_name_nonempty)
qed (simp add: WorkspaceLabelFromLabels_def)

lemma workspace_label_loop_missing:
  "workspace_label_loop vs name = (w, WorkspaceLabelMissing) \<longleftrightarrow> name = [] \<and> vs = [] \<and> w = []"
  by (induction vs name rule: workspace_label_loop.induct) auto

lemma WorkspaceLabel_missing:
  "WorkspaceLabelFromLabels labels = (w, WorkspaceLabelMissing) \<longleftrightarrow> labels_Get labels WorkspaceLabelKey = [] \<and> w = []"
  by (auto simp: WorkspaceLabelFromLabels_def workspace_label_loop_missing)

lemma ParseLabel_lower: "to_lower (lb_Value (ParseLabel s)) = lb_Value (ParseLabel s)"
  by (simp add: ParseLabel_def Let_def split: prod.split)

text \<open>Values of parsed labels are in lower case.\<close>

lemma NewLabels_Get_lower: "v \<in> set (labels_Get (NewLabels strs) key) \<Longrightarrow> to_lower v = v"
  by (auto simp: labels_Get_def NewLabels_def ParseLabel_lower)

text \<open>Without wildcards a glob pattern matches itself only.\<close>

lemma matchGlob_exact: "\<not> containsWildcard p \<Longrightarrow> matchGlob p s \<longleftrightarrow> s = p"
proof (induction p arbitrary: s)
  case (Cons c p)
  then show ?case by (cases s) (auto simp: matchGlob_def globToRegex_def containsWildcard_def)
qed (simp add: matchGlob_def globToRegex_def)

text \<open>Labels as parsing makes them.\<close>

definition canonical_label :: "label \<Rightarrow> bool" where
  "canonical_label t \<longleftrightarrow> lb_Key t \<noteq> [] \<and> CHR ''='' \<notin> set (lb_Key t)
     \<and> trim_space (lb_Key t) = lb_Key t \<and> to_lower (lb_Key t) = lb_Key t
     \<and> trim_space (lb_Value t) = lb_Value t \<and> to_lower (lb_Value t) = lb_Value t"

lemma set_trim_space: "set (trim_space s) \<subseteq> set s"
  by (auto simp: trim_space_def dest!: set_dropWhileD)

lemma lower_char_eq: "lower_char c = CHR ''='' \<longleftrightarrow> c = CHR ''=''"
  by (auto simp: lower_char_def Let_def dest: arg_cong [where f = "of_char :: char \<Rightarrow> nat"])

lemma key_no_equals: "CHR ''='' \<notin> set k \<Longrightarrow> CHR ''='' \<notin> set (to_lower (trim_space k))"
proof
  assume "CHR ''='' \<notin> set k" "CHR ''='' \<in> set (to_lower (trim_space k))"
  then obtain c where "c \<in> set (trim_space k)" "lower_char c = CHR ''=''" by (metis to_lower_def image_iff set_map)
  then have "CHR ''='' \<in> set k" using lower_char_eq [of c] subsetD [OF set_trim_space] by simp
  with \<open>CHR ''='' \<notin> set k\<close> show False by simp
qed

lemma ParseLabel_canonical:
  assumes "\<not> IsZeroLabel (ParseLabel s)"
  shows "canonical_label (ParseLabel s)"
proof -
  obtain k v f where cut: "str_cut (trim_space s) (CHR ''='') = (k, v, f)" using prod_cases3 by blast
  have "CHR ''='' \<notin> set k"
    using cut by (auto simp: str_cut_eq split: if_splits dest: set_takeWhileD)
  then show ?thesis
    using assms cut by (auto simp: ParseLabel_def IsZeroLabel_def canonical_label_def trim_space_lower key_no_equals Let_def)
qed

lemma ParseLabel_String:
  assumes "canonical_label t"
  shows "ParseLabel (label_String t) = t"
proof -
  let ?s = "label_String t"
  have k: "lb_Key t \<noteq> []" "\<not> is_space (hd (lb_Key t))"
    using assms trim_space_ends [of "lb_Key t"] by (auto simp: canonical_label_def)
  have "\<not> is_space (last ?s)"
    using assms k trim_space_ends [of "lb_Key t"] trim_space_ends [of "lb_Value t"]
    by (auto simp: canonical_label_def label_String_def)
  moreover have "\<not> is_space (hd ?s)" "?s \<noteq> []" using k by (auto simp: label_String_def)
  ultimately have trim: "trim_space ?s = ?s" "?s \<noteq> []" by (auto intro: trim_space_fixed)
  show ?thesis
  proof (cases "lb_Value t = []")
    case True
    then show ?thesis using assms trim k
      by (simp add: ParseLabel_def label_String_def canonical_label_def str_cut_eq)
  next
    case False
    then have "str_cut ?s (CHR ''='') = (lb_Key t, lb_Value t, True)"
      using assms by (simp add: label_String_def canonical_label_def str_cut_append)
    then show ?thesis using assms trim by (simp add: ParseLabel_def canonical_label_def)
  qed
qed

section \<open>Properties\<close>

text \<open>
  Labels survive being written out and read back, whatever strings they were made from: this is what saving them
  as JSON does.
\<close>

theorem labels_roundtrip: "NewLabels (labels_Strings (NewLabels strs)) = NewLabels strs"
proof -
  have "ParseLabel (label_String t) = t" "\<not> IsZeroLabel t" if "t \<in> set (NewLabels strs)" for t
    using that ParseLabel_String ParseLabel_canonical by (auto simp: NewLabels_def)
  then have "map ParseLabel (labels_Strings (NewLabels strs)) = NewLabels strs"
    "filter (\<lambda>t. \<not> IsZeroLabel t) (NewLabels strs) = NewLabels strs"
    by (auto simp: labels_Strings_def map_idI filter_id_conv)
  then show ?thesis by (simp add: NewLabels_def [of "labels_Strings _"])
qed

text \<open>
  The strings that a glob pattern stands for: a star for any text and a question mark for any character, newlines
  excepted.
\<close>

primrec glob_lang :: "string \<Rightarrow> string set" where
  "glob_lang [] = {[]}"
| "glob_lang (c # p) =
     (if c = CHR ''*'' then {u @ v |u v. CHR 0x0A \<notin> set u \<and> v \<in> glob_lang p}
      else if c = CHR ''?'' then {d # v |d v. d \<noteq> CHR 0x0A \<and> v \<in> glob_lang p}
      else {c # v |v. v \<in> glob_lang p})"

lemma re_match_star:
  "re_match (ReStar # r) s \<longleftrightarrow> (\<exists>u v. s = u @ v \<and> CHR 0x0A \<notin> set u \<and> re_match r v)"
proof (induction s)
  case (Cons c s)
  show ?case
  proof
    assume "re_match (ReStar # r) (c # s)"
    then consider "re_match r (c # s)" | "c \<noteq> CHR 0x0A" "re_match (ReStar # r) s" by auto
    then show "\<exists>u v. c # s = u @ v \<and> CHR 0x0A \<notin> set u \<and> re_match r v"
    proof cases
      case 1
      then show ?thesis by (intro exI [of _ "[]"] exI [of _ "c # s"]) simp
    next
      case 2
      then obtain u v where "s = u @ v" "CHR 0x0A \<notin> set u" "re_match r v" using Cons.IH by blast
      then show ?thesis using 2 by (intro exI [of _ "c # u"] exI [of _ v]) simp
    qed
  next
    assume "\<exists>u v. c # s = u @ v \<and> CHR 0x0A \<notin> set u \<and> re_match r v"
    then obtain u v where "c # s = u @ v" "CHR 0x0A \<notin> set u" "re_match r v" by blast
    then show "re_match (ReStar # r) (c # s)" using Cons.IH by (cases u) auto
  qed
qed simp

lemma matchGlob_lang: "matchGlob p s \<longleftrightarrow> s \<in> glob_lang p"
proof (induction p arbitrary: s)
  case (Cons c p)
  have "re_match (ReStar # globToRegex p) s \<longleftrightarrow> s \<in> glob_lang (CHR ''*'' # p)"
    using Cons.IH by (auto simp: re_match_star matchGlob_def)
  moreover have "matchGlob (c # p) s \<longleftrightarrow> s \<in> glob_lang (c # p)" if "c \<noteq> CHR ''*''"
    using that Cons.IH by (cases s) (auto simp: matchGlob_def globToRegex_def)
  ultimately show ?case by (cases "c = CHR ''*''") (auto simp: matchGlob_def globToRegex_def)
qed (simp add: matchGlob_def globToRegex_def)

end
