(* ===== verification/Workspace_Access.thy ===== *)
theory Workspace_Access
  imports Labels "HOL-Library.Multiset"
begin

text \<open>
  Who may see and change what: roles and access policies (\<open>auth/role.go\<close>, \<open>auth/workspace_access.go\<close>,
  \<open>auth/user.go\<close>) and the checks of the web API that use them (\<open>service/frontend/api/v1/workspace_access.go\<close> and
  \<open>api.go\<close>). The record \<open>api_env\<close> has the configuration of the API and the user of a request.
\<close>

section \<open>Roles\<close>

type_synonym role = string

definition RoleAdmin :: role where
  "RoleAdmin = ''admin''"

definition RoleManager :: role where
  "RoleManager = ''manager''"

definition RoleDeveloper :: role where
  "RoleDeveloper = ''developer''"

definition RoleOperator :: role where
  "RoleOperator = ''operator''"

definition RoleViewer :: role where
  "RoleViewer = ''viewer''"

definition RoleNone :: role where
  "RoleNone = []"

lemmas role_defs = RoleAdmin_def RoleManager_def RoleDeveloper_def RoleOperator_def RoleViewer_def RoleNone_def

definition role_Valid :: "role \<Rightarrow> bool" where
  "role_Valid r \<longleftrightarrow> r \<in> set [RoleAdmin, RoleManager, RoleDeveloper, RoleOperator, RoleViewer]"

definition IsSet :: "role \<Rightarrow> bool" where
  "IsSet r \<longleftrightarrow> r \<noteq> RoleNone"

definition CanWrite :: "role \<Rightarrow> bool" where
  "CanWrite r \<longleftrightarrow> r = RoleAdmin \<or> r = RoleManager \<or> r = RoleDeveloper"

definition CanExecute :: "role \<Rightarrow> bool" where
  "CanExecute r \<longleftrightarrow> r = RoleAdmin \<or> r = RoleManager \<or> r = RoleDeveloper \<or> r = RoleOperator"

definition CanManageAudit :: "role \<Rightarrow> bool" where
  "CanManageAudit r \<longleftrightarrow> r = RoleAdmin \<or> r = RoleManager"

definition IsAdmin :: "role \<Rightarrow> bool" where
  "IsAdmin r \<longleftrightarrow> r = RoleAdmin"

definition ParseRole :: "string \<Rightarrow> go_error + role" where
  "ParseRole s = (if \<not> role_Valid s then Inl (Errorf 0 (''invalid role: '' @ s)) else Inr s)"

section \<open>Access policies\<close>

definition ErrInvalidWorkspaceAccess :: go_error where
  "ErrInvalidWorkspaceAccess = Sentinel ''invalid workspace access''"

record workspace_grant =
  wg_Workspace :: string
  wg_Role :: role

record workspace_access =
  wa_All :: bool
  wa_Grants :: "workspace_grant list"

definition AllWorkspaceAccess :: workspace_access where
  "AllWorkspaceAccess = \<lparr> wa_All = True, wa_Grants = [] \<rparr>"

definition NormalizeWorkspaceAccess :: "workspace_access option \<Rightarrow> workspace_access" where
  "NormalizeWorkspaceAccess access =
     (case access of
        None \<Rightarrow> \<lparr> wa_All = True, wa_Grants = [] \<rparr>
      | Some a \<Rightarrow>
          if wa_All a then \<lparr> wa_All = True, wa_Grants = [] \<rparr>
          else \<lparr> wa_All = False,
            wa_Grants = map (\<lambda>g. \<lparr> wg_Workspace = trim_space (wg_Workspace g), wg_Role = wg_Role g \<rparr>) (wa_Grants a) \<rparr>)"

definition CloneWorkspaceAccess :: "workspace_access option \<Rightarrow> workspace_access" where
  "CloneWorkspaceAccess access =
     (let normalized = NormalizeWorkspaceAccess access
      in \<lparr> wa_All = wa_All normalized, wa_Grants = wa_Grants normalized \<rparr>)"

fun grant_role :: "string \<Rightarrow> workspace_grant list \<Rightarrow> role \<times> bool" where
  "grant_role workspaceName [] = (RoleNone, False)"
| "grant_role workspaceName (grant # grants) =
     (if wg_Workspace grant = workspaceName then (wg_Role grant, True) else grant_role workspaceName grants)"

definition EffectiveRole :: "role \<Rightarrow> workspace_access option \<Rightarrow> string \<Rightarrow> role \<times> bool" where
  "EffectiveRole globalRole access workspaceName0 =
     (let workspaceName = trim_space workspaceName0 in
      if workspaceName = [] then (globalRole, True)
      else let normalized = NormalizeWorkspaceAccess access in
        if wa_All normalized then (globalRole, True)
        else grant_role workspaceName (wa_Grants normalized))"

definition HasWorkspaceAccess :: "workspace_access option \<Rightarrow> string \<Rightarrow> bool" where
  "HasWorkspaceAccess access workspaceName = snd (EffectiveRole RoleViewer access workspaceName)"

text \<open>\<open>workspaceExists\<close> may be nil. The numbers of the errors tell the branches apart.\<close>

definition invalid_access :: "nat \<Rightarrow> string \<Rightarrow> go_error option" where
  "invalid_access n what = Some (Wrap n (''invalid workspace access: '' @ what) ErrInvalidWorkspaceAccess)"

fun validate_grants :: "(string \<Rightarrow> bool) option \<Rightarrow> string list \<Rightarrow> workspace_grant list \<Rightarrow> go_error option" where
  "validate_grants workspaceExists seen [] = None"
| "validate_grants workspaceExists seen (grant # grants) =
     (let workspaceName = trim_space (wg_Workspace grant) in
      if workspaceName = [] then invalid_access 4 ''workspace name is required''
      else if workspaceName \<in> set seen then invalid_access 5 ''duplicate workspace grant''
      else if \<not> role_Valid (wg_Role grant) then invalid_access 6 ''invalid grant role''
      else if wg_Role grant = RoleAdmin then invalid_access 7 ''admin cannot be scoped to a workspace''
      else if (case workspaceExists of Some ex \<Rightarrow> \<not> ex workspaceName | None \<Rightarrow> False)
        then invalid_access 8 ''workspace does not exist''
      else validate_grants workspaceExists (workspaceName # seen) grants)"

definition ValidateWorkspaceAccess ::
  "role \<Rightarrow> workspace_access option \<Rightarrow> (string \<Rightarrow> bool) option \<Rightarrow> go_error option" where
  "ValidateWorkspaceAccess globalRole access workspaceExists =
     (if \<not> role_Valid globalRole then invalid_access 0 ''invalid global role''
      else if (case access of Some a \<Rightarrow> wa_All a \<and> wa_Grants a \<noteq> [] | None \<Rightarrow> False)
        then invalid_access 1 ''all-workspaces access cannot include workspace grants''
      else let normalized = NormalizeWorkspaceAccess access in
        if wa_All normalized then None
        else if globalRole \<noteq> RoleViewer then invalid_access 2 ''scoped workspace access requires global role viewer''
        else if wa_Grants normalized = [] then invalid_access 3 ''scoped workspace access requires at least one workspace grant''
        else validate_grants workspaceExists [] (wa_Grants normalized))"

section \<open>Users\<close>

record user =
  us_ID :: string
  us_Username :: string
  us_PasswordHash :: string
  us_Role :: role
  us_WorkspaceAccess :: "workspace_access option"
  us_CreatedAt :: time
  us_UpdatedAt :: time
  us_AuthProvider :: string
  us_OIDCIssuer :: string
  us_OIDCSubject :: string
  us_IsDisabled :: bool

text \<open>The id is a fresh UUID.\<close>

definition NewUser :: "string \<Rightarrow> time \<Rightarrow> string \<Rightarrow> string \<Rightarrow> role \<Rightarrow> user" where
  "NewUser uuid now username passwordHash r =
     \<lparr> us_ID = uuid, us_Username = username, us_PasswordHash = passwordHash, us_Role = r,
       us_WorkspaceAccess = Some AllWorkspaceAccess, us_CreatedAt = now, us_UpdatedAt = now, us_AuthProvider = [],
       us_OIDCIssuer = [], us_OIDCSubject = [], us_IsDisabled = False \<rparr>"

text \<open>\<open>UserForStorage\<close> has the fields of \<open>User\<close>.\<close>

definition user_ToStorage :: "user \<Rightarrow> user" where
  "user_ToStorage u = u\<lparr>us_WorkspaceAccess := Some (CloneWorkspaceAccess (us_WorkspaceAccess u))\<rparr>"

definition storage_ToUser :: "user \<Rightarrow> user" where
  "storage_ToUser u = u\<lparr>us_WorkspaceAccess := Some (CloneWorkspaceAccess (us_WorkspaceAccess u))\<rparr>"

definition IsOIDCUser :: "user \<Rightarrow> bool" where
  "IsOIDCUser u \<longleftrightarrow> us_AuthProvider u = ''oidc''"

section \<open>Checks of the API\<close>

datatype api_error =
    errDAGWritesDisabled | errAuthRequired | errPermissionDenied | errInsufficientPermissions
  | BadWorkspaceAccess string | BadWorkspace string | WorkspaceResourceNotFound | WorkspaceStoreUnavailable
  | OtherError go_error

text \<open>\<open>ae_workspaceStore\<close> is none when there is no store, else the names in it or the error of \<open>List\<close>.\<close>

record api_env =
  ae_authService :: bool
  ae_user :: "user option"
  ae_permissionWriteDAGs :: bool
  ae_dagWritesDisabled :: bool
  ae_workspaceStore :: "(go_error + string list) option"

definition requireAdmin :: "api_env \<Rightarrow> api_error option" where
  "requireAdmin a =
     (if \<not> ae_authService a then None
      else case ae_user a of
        None \<Rightarrow> Some errAuthRequired
      | Some u \<Rightarrow> if \<not> IsAdmin (us_Role u) then Some errInsufficientPermissions else None)"

definition requireManagerOrAbove :: "api_env \<Rightarrow> api_error option" where
  "requireManagerOrAbove a =
     (if \<not> ae_authService a then None
      else case ae_user a of
        None \<Rightarrow> Some errAuthRequired
      | Some u \<Rightarrow> if \<not> CanManageAudit (us_Role u) then Some errInsufficientPermissions else None)"

definition requireDeveloperOrAbove :: "api_env \<Rightarrow> api_error option" where
  "requireDeveloperOrAbove a =
     (if \<not> ae_authService a then None
      else case ae_user a of
        None \<Rightarrow> Some errAuthRequired
      | Some u \<Rightarrow> if \<not> CanWrite (us_Role u) then Some errInsufficientPermissions else None)"

definition requireDAGWrite :: "api_env \<Rightarrow> api_error option" where
  "requireDAGWrite a =
     (if \<not> ae_permissionWriteDAGs a then Some errPermissionDenied
      else if ae_authService a \<and> ae_user a = None then Some errAuthRequired
      else if ae_authService a \<and> (case ae_user a of Some u \<Rightarrow> \<not> CanWrite (us_Role u) | None \<Rightarrow> False)
        then Some errInsufficientPermissions
      else if ae_dagWritesDisabled a then Some errDAGWritesDisabled
      else None)"

fun parse_grants :: "workspace_grant list \<Rightarrow> go_error + workspace_grant list" where
  "parse_grants [] = Inr []"
| "parse_grants (grant # grants) =
     (case ParseRole (wg_Role grant) of
        Inl e \<Rightarrow> Inl e
      | Inr r \<Rightarrow>
          (case parse_grants grants of
             Inl e \<Rightarrow> Inl e
           | Inr gs \<Rightarrow> Inr (\<lparr> wg_Workspace = wg_Workspace grant, wg_Role = r \<rparr> # gs)))"

definition fromAPIWorkspaceAccess :: "workspace_access option \<Rightarrow> go_error + workspace_access" where
  "fromAPIWorkspaceAccess access =
     (case access of
        None \<Rightarrow> Inr AllWorkspaceAccess
      | Some a \<Rightarrow>
          (case parse_grants (wa_Grants a) of
             Inl e \<Rightarrow> Inl e
           | Inr grants \<Rightarrow> Inr \<lparr> wa_All = wa_All a, wa_Grants = grants \<rparr>))"

definition parseAndValidateWorkspaceAccess ::
  "api_env \<Rightarrow> role \<Rightarrow> workspace_access option \<Rightarrow> api_error + workspace_access" where
  "parseAndValidateWorkspaceAccess a r access =
     (case fromAPIWorkspaceAccess access of
        Inl e \<Rightarrow> Inl (BadWorkspaceAccess ''Invalid workspace role'')
      | Inr parsed \<Rightarrow>
          (let finish = (\<lambda>validationErr. case validationErr of
               Some e \<Rightarrow> if errors_is e ErrInvalidWorkspaceAccess then Inl (BadWorkspaceAccess (err_text e)) else Inl (OtherError e)
             | None \<Rightarrow> Inr (CloneWorkspaceAccess (Some parsed)))
           in if \<not> wa_All (NormalizeWorkspaceAccess (Some parsed)) then
                (case ae_workspaceStore a of
                   None \<Rightarrow> Inl WorkspaceStoreUnavailable
                 | Some (Inl e) \<Rightarrow> Inl (OtherError e)
                 | Some (Inr names) \<Rightarrow> finish (ValidateWorkspaceAccess r (Some parsed) (Some (\<lambda>name. name \<in> set names))))
              else finish (ValidateWorkspaceAccess r (Some parsed) None)))"

definition validateWorkspaceParam :: "string \<Rightarrow> api_error + string" where
  "validateWorkspaceParam name =
     (if name = [] then Inr []
      else case ValidateName name of Some e \<Rightarrow> Inl (BadWorkspace (err_text e)) | None \<Rightarrow> Inr name)"

datatype workspace_selection_mode = workspaceSelectionAll | workspaceSelectionDefault | workspaceSelectionNamed

record workspace_selection =
  sel_mode :: workspace_selection_mode
  sel_workspace :: string
  sel_explicit :: bool

definition parseWorkspaceSelection :: "string option \<Rightarrow> api_error + workspace_selection" where
  "parseWorkspaceSelection workspaceParam =
     (case workspaceParam of
        None \<Rightarrow> Inr \<lparr> sel_mode = workspaceSelectionAll, sel_workspace = [], sel_explicit = False \<rparr>
      | Some raw \<Rightarrow>
          if raw = [] then Inl (BadWorkspace ''workspace must not be empty'')
          else if raw = ''all'' then Inr \<lparr> sel_mode = workspaceSelectionAll, sel_workspace = [], sel_explicit = True \<rparr>
          else if raw = ''default'' then Inr \<lparr> sel_mode = workspaceSelectionDefault, sel_workspace = [], sel_explicit = True \<rparr>
          else case validateWorkspaceParam raw of
            Inl e \<Rightarrow> Inl e
          | Inr name \<Rightarrow> Inr \<lparr> sel_mode = workspaceSelectionNamed, sel_workspace = name, sel_explicit = True \<rparr>)"

definition invalidWorkspaceLabelName :: string where
  "invalidWorkspaceLabelName = CHR 0x00 # ''invalid-workspace-label''"

text \<open>The name that a resource is checked under, by its labels.\<close>

definition dagWorkspaceName :: "label list option \<Rightarrow> string" where
  "dagWorkspaceName dag =
     (case dag of
        None \<Rightarrow> []
      | Some labels \<Rightarrow>
          (case WorkspaceLabelFromLabels labels of
             (workspaceName, WorkspaceLabelValid) \<Rightarrow> workspaceName
           | (workspaceName, WorkspaceLabelInvalid) \<Rightarrow> invalidWorkspaceLabelName
           | (workspaceName, WorkspaceLabelMissing) \<Rightarrow> []))"

definition statusWorkspaceName :: "string list option \<Rightarrow> string" where
  "statusWorkspaceName status = dagWorkspaceName (map_option NewLabels status)"

definition workspaceNameFromLabelString :: "string \<Rightarrow> string" where
  "workspaceNameFromLabelString labels =
     (if trim_space labels = [] then [] else dagWorkspaceName (Some (NewLabels (str_split labels '',''))))"

definition runtimeWorkspaceName :: "label list option \<Rightarrow> string \<Rightarrow> string" where
  "runtimeWorkspaceName dag labels =
     (let workspaceName = workspaceNameFromLabelString labels
      in if workspaceName \<noteq> [] then workspaceName else dagWorkspaceName dag)"

definition workspaceFilterForContext :: "api_env \<Rightarrow> workspace_filter option" where
  "workspaceFilterForContext a =
     (if \<not> ae_authService a then None
      else case ae_user a of
        None \<Rightarrow> Some \<lparr> wf_Enabled = True, wf_Workspaces = [], wf_IncludeUnlabelled = False \<rparr>
      | Some u \<Rightarrow>
          (let access = NormalizeWorkspaceAccess (us_WorkspaceAccess u)
           in if wa_All access then None
              else Some \<lparr> wf_Enabled = True, wf_Workspaces = map wg_Workspace (wa_Grants access),
                wf_IncludeUnlabelled = True \<rparr>))"

definition effectiveRoleForWorkspace :: "api_env \<Rightarrow> string \<Rightarrow> api_error + (role \<times> bool)" where
  "effectiveRoleForWorkspace a workspaceName =
     (if \<not> ae_authService a then Inr (RoleAdmin, True)
      else case ae_user a of
        None \<Rightarrow> Inl errAuthRequired
      | Some u \<Rightarrow> Inr (EffectiveRole (us_Role u) (us_WorkspaceAccess u) workspaceName))"

definition canAccessWorkspace :: "api_env \<Rightarrow> string \<Rightarrow> bool" where
  "canAccessWorkspace a workspaceName =
     (case effectiveRoleForWorkspace a workspaceName of Inl e \<Rightarrow> False | Inr (r, ok) \<Rightarrow> ok)"

definition requireWorkspaceVisible :: "api_env \<Rightarrow> string \<Rightarrow> api_error option" where
  "requireWorkspaceVisible a workspaceName =
     (case effectiveRoleForWorkspace a workspaceName of
        Inl e \<Rightarrow> Some e
      | Inr (r, ok) \<Rightarrow> if \<not> ok then Some WorkspaceResourceNotFound else None)"

definition workspaceFilterForSelection :: "api_env \<Rightarrow> workspace_selection \<Rightarrow> api_error + workspace_filter option" where
  "workspaceFilterForSelection a selection =
     (case sel_mode selection of
        workspaceSelectionAll \<Rightarrow> Inr (workspaceFilterForContext a)
      | workspaceSelectionDefault \<Rightarrow>
          (case requireWorkspaceVisible a [] of
             Some e \<Rightarrow> Inl e
           | None \<Rightarrow> Inr (Some \<lparr> wf_Enabled = True, wf_Workspaces = [], wf_IncludeUnlabelled = True \<rparr>))
      | workspaceSelectionNamed \<Rightarrow>
          (case requireWorkspaceVisible a (sel_workspace selection) of
             Some e \<Rightarrow> Inl e
           | None \<Rightarrow> Inr (Some \<lparr> wf_Enabled = True, wf_Workspaces = [sel_workspace selection],
               wf_IncludeUnlabelled = False \<rparr>)))"

definition workspaceFilterForParams :: "api_env \<Rightarrow> string option \<Rightarrow> api_error + workspace_filter option" where
  "workspaceFilterForParams a workspaceParam =
     (case parseWorkspaceSelection workspaceParam of
        Inl e \<Rightarrow> Inl e
      | Inr selection \<Rightarrow> workspaceFilterForSelection a selection)"

definition requireDAGWriteForWorkspace :: "api_env \<Rightarrow> string \<Rightarrow> api_error option" where
  "requireDAGWriteForWorkspace a workspaceName =
     (if \<not> ae_permissionWriteDAGs a then Some errPermissionDenied
      else case effectiveRoleForWorkspace a workspaceName of
        Inl e \<Rightarrow> Some e
      | Inr (r, ok) \<Rightarrow>
          if \<not> ok \<or> \<not> CanWrite r then Some errInsufficientPermissions
          else if ae_dagWritesDisabled a then Some errDAGWritesDisabled
          else None)"

definition requireExecuteForWorkspace :: "api_env \<Rightarrow> string \<Rightarrow> api_error option" where
  "requireExecuteForWorkspace a workspaceName =
     (case effectiveRoleForWorkspace a workspaceName of
        Inl e \<Rightarrow> Some e
      | Inr (r, ok) \<Rightarrow> if \<not> ok \<or> \<not> CanExecute r then Some errInsufficientPermissions else None)"

text \<open>An attempt by what reading its status (its labels, or nil) and its DAG gives.\<close>

definition workspaceNameForAttempt :: "go_error + string list option \<Rightarrow> go_error + label list \<Rightarrow> go_error + string" where
  "workspaceNameForAttempt status dag =
     (let fromDAG = (case dag of
        Inl dagErr \<Rightarrow> (case status of Inl e \<Rightarrow> Inl e | Inr _ \<Rightarrow> Inl dagErr)
      | Inr labels \<Rightarrow> Inr (dagWorkspaceName (Some labels)))
      in case status of
        Inr (Some labels) \<Rightarrow>
          if statusWorkspaceName (Some labels) \<noteq> [] then Inr (statusWorkspaceName (Some labels)) else fromDAG
      | _ \<Rightarrow> fromDAG)"

definition requireDAGRunVisible ::
  "api_env \<Rightarrow> go_error + (go_error + string list option) \<times> (go_error + label list) \<Rightarrow> api_error option" where
  "requireDAGRunVisible a attempt =
     (if \<not> ae_authService a then None
      else case attempt of
        Inl e \<Rightarrow> Some (OtherError e)
      | Inr (status, dag) \<Rightarrow>
          (case workspaceNameForAttempt status dag of
             Inl e \<Rightarrow> Some (OtherError e)
           | Inr workspaceName \<Rightarrow> requireWorkspaceVisible a workspaceName))"

definition requireDAGRunStatusVisible :: "api_env \<Rightarrow> string list option \<Rightarrow> api_error option" where
  "requireDAGRunStatusVisible a status =
     (if status = None then None else requireWorkspaceVisible a (statusWorkspaceName status))"

definition requireDAGRunStatusExecute :: "api_env \<Rightarrow> string list option \<Rightarrow> api_error option" where
  "requireDAGRunStatusExecute a status =
     (if status = None then None else requireExecuteForWorkspace a (statusWorkspaceName status))"


section \<open>Validated policies\<close>

lemma NormalizeWorkspaceAccess_idem [simp]:
  "NormalizeWorkspaceAccess (Some (NormalizeWorkspaceAccess access)) = NormalizeWorkspaceAccess access"
  by (simp add: NormalizeWorkspaceAccess_def comp_def split: option.split)

lemma Clone_Normalize: "CloneWorkspaceAccess access = NormalizeWorkspaceAccess access"
  by (simp add: CloneWorkspaceAccess_def Let_def)

lemma EffectiveRole_Clone: "EffectiveRole g (Some (CloneWorkspaceAccess access)) w = EffectiveRole g access w"
  by (simp add: EffectiveRole_def Clone_Normalize Let_def)

lemma storage_roundtrip: "storage_ToUser (user_ToStorage (storage_ToUser u)) = storage_ToUser u"
  by (simp add: storage_ToUser_def user_ToStorage_def Clone_Normalize)

lemma validate_grants_ok:
  assumes "validate_grants ex seen gs = None" "\<forall>g \<in> set gs. trim_space (wg_Workspace g) = wg_Workspace g"
  shows "distinct (map wg_Workspace gs) \<and> set (map wg_Workspace gs) \<inter> set seen = {}
    \<and> (\<forall>g \<in> set gs. wg_Workspace g \<noteq> [] \<and> role_Valid (wg_Role g) \<and> wg_Role g \<noteq> RoleAdmin
        \<and> (\<forall>f. ex = Some f \<longrightarrow> f (wg_Workspace g)))"
  using assms
proof (induction ex seen gs rule: validate_grants.induct)
  case (2 ex seen g gs)
  let ?n = "wg_Workspace g"
  have t: "trim_space ?n = ?n" using 2(3) by simp
  have c: "?n \<noteq> []" "?n \<notin> set seen" "role_Valid (wg_Role g)" "wg_Role g \<noteq> RoleAdmin"
    "\<forall>f. ex = Some f \<longrightarrow> f ?n" "validate_grants ex (?n # seen) gs = None"
    using 2(2) t by (auto simp: Let_def invalid_access_def split: if_splits option.splits)
  have "distinct (map wg_Workspace gs) \<and> set (map wg_Workspace gs) \<inter> set (?n # seen) = {}
      \<and> (\<forall>g \<in> set gs. wg_Workspace g \<noteq> [] \<and> role_Valid (wg_Role g) \<and> wg_Role g \<noteq> RoleAdmin
        \<and> (\<forall>f. ex = Some f \<longrightarrow> f (wg_Workspace g)))"
    using 2(1) [OF refl] c t 2(3) by (cases ex) simp_all
  with c show ?case by auto
qed simp

lemma Normalize_trimmed: "g \<in> set (wa_Grants (NormalizeWorkspaceAccess access)) \<Longrightarrow> trim_space (wg_Workspace g) = wg_Workspace g"
  by (auto simp: NormalizeWorkspaceAccess_def split: option.splits if_splits)

lemma Validate_cases:
  assumes "ValidateWorkspaceAccess g access ex = None"
  shows "role_Valid g \<and> (wa_All (NormalizeWorkspaceAccess access)
    \<or> g = RoleViewer \<and> validate_grants ex [] (wa_Grants (NormalizeWorkspaceAccess access)) = None)"
  using assms by (auto simp: ValidateWorkspaceAccess_def invalid_access_def Let_def split: if_splits)

lemma grant_role_distinct:
  "distinct (map wg_Workspace gs) \<Longrightarrow>
   grant_role w gs = (if \<exists>g \<in> set gs. wg_Workspace g = w then (wg_Role (THE g. g \<in> set gs \<and> wg_Workspace g = w), True)
     else (RoleNone, False))"
proof (induction gs)
  case (Cons g gs)
  show ?case
  proof (cases "wg_Workspace g = w")
    case True
    then have "(THE h. h \<in> set (g # gs) \<and> wg_Workspace h = w) = g"
      using Cons.prems by (intro the_equality) (auto simp: image_iff)
    then show ?thesis using True by simp
  next
    case False
    then have "h \<in> set (g # gs) \<and> wg_Workspace h = w \<longleftrightarrow> h \<in> set gs \<and> wg_Workspace h = w" for h by auto
    then show ?thesis using False Cons by simp
  qed
qed simp

lemma grant_role_perm:
  "mset gs = mset hs \<Longrightarrow> distinct (map wg_Workspace gs) \<Longrightarrow> grant_role w gs = grant_role w hs"
  using mset_eq_setD [of gs hs] grant_role_distinct [of gs w] grant_role_distinct [of hs w]
    mset_eq_imp_distinct_iff [of "map wg_Workspace gs" "map wg_Workspace hs"]
  by (simp add: mset_map)

lemma grant_role_mem: "grant_role w gs = (r, True) \<Longrightarrow> \<exists>g \<in> set gs. wg_Workspace g = w \<and> wg_Role g = r"
  by (induction gs) (auto split: if_splits)

lemma grant_role_found: "snd (grant_role w gs) \<longleftrightarrow> w \<in> wg_Workspace ` set gs"
  by (induction gs) auto

lemma grant_role_none: "grant_role w gs = (r, False) \<Longrightarrow> r = RoleNone"
  by (induction gs) (auto split: if_splits)

text \<open>
  C13: In a policy that passes validation the role is always a valid one, and a role of administrator comes only from
  the global role together with access to all workspaces: no grant gives it. The decision does not depend on the order of
  the grants and is the same for the policy as stored.
\<close>

theorem access_policy_sound:
  assumes "ValidateWorkspaceAccess g access workspaceExists = None"
  shows "(\<forall>r. EffectiveRole g access w = (r, True) \<longrightarrow> role_Valid r)
    \<and> (fst (EffectiveRole g access w) = RoleAdmin \<longrightarrow> g = RoleAdmin \<and> (\<forall>w'. EffectiveRole g access w' = (RoleAdmin, True)))
    \<and> (\<forall>a gs. access = Some a \<and> mset gs = mset (wa_Grants a) \<longrightarrow>
         EffectiveRole g (Some (a\<lparr>wa_Grants := gs\<rparr>)) w = EffectiveRole g access w)
    \<and> EffectiveRole g (Some (CloneWorkspaceAccess access)) w = EffectiveRole g access w"
proof (cases "wa_All (NormalizeWorkspaceAccess access)")
  case True
  then have all: "EffectiveRole g access w' = (g, True)" for w' by (simp add: EffectiveRole_def Let_def)
  have perm: "EffectiveRole g (Some (a\<lparr>wa_Grants := gs\<rparr>)) w = (g, True)" if "access = Some a" for a gs
    using True that by (simp add: EffectiveRole_def NormalizeWorkspaceAccess_def Let_def split: if_splits)
  show ?thesis
    using Validate_cases [OF assms] EffectiveRole_Clone [of g access w] all perm by (metis fst_conv prod.inject)
next
  case False
  let ?gs = "wa_Grants (NormalizeWorkspaceAccess access)"
  have v: "role_Valid g" "g = RoleViewer" "validate_grants workspaceExists [] ?gs = None"
    using Validate_cases [OF assms] False by auto
  note ok = validate_grants_ok [OF v(3)] and trimmed = Normalize_trimmed
  have na: "g \<noteq> RoleAdmin" "RoleNone \<noteq> RoleAdmin" using v(2) by (simp_all add: role_defs)
  have role: "EffectiveRole g access w = (if trim_space w = [] then (g, True) else grant_role (trim_space w) ?gs)"
    using False by (simp add: EffectiveRole_def Let_def)
  have mem: "role_Valid r \<and> r \<noteq> RoleAdmin" if "grant_role (trim_space w) ?gs = (r, True)" for r
    using grant_role_mem [OF that] ok trimmed by blast
  have perm: "EffectiveRole g (Some (a\<lparr>wa_Grants := gs\<rparr>)) w = EffectiveRole g access w"
    if "access = Some a" "mset gs = mset (wa_Grants a)" for a gs
  proof -
    let ?f = "\<lambda>g. \<lparr> wg_Workspace = trim_space (wg_Workspace g), wg_Role = wg_Role g \<rparr>"
    have n: "?gs = map ?f (wa_Grants a)" "\<not> wa_All a"
      using False that(1) by (auto simp: NormalizeWorkspaceAccess_def split: if_splits)
    have "grant_role (trim_space w) ?gs = grant_role (trim_space w) (map ?f gs)"
      by (rule grant_role_perm) (use ok trimmed n that(2) in auto)
    then show ?thesis unfolding role by (simp add: EffectiveRole_def NormalizeWorkspaceAccess_def n Let_def)
  qed
  have "fst (EffectiveRole g access w) \<noteq> RoleAdmin"
    using role mem na grant_role_none [of "trim_space w" ?gs]
    by (cases "grant_role (trim_space w) ?gs"; cases "snd (grant_role (trim_space w) ?gs)") auto
  then show ?thesis using role mem v(1) perm EffectiveRole_Clone by auto
qed


theorem access_policy_sound_witness:
  "ValidateWorkspaceAccess RoleViewer
     (Some \<lparr> wa_All = False, wa_Grants = [\<lparr> wg_Workspace = '' ops'', wg_Role = RoleManager \<rparr>] \<rparr>) None = None
   \<and> EffectiveRole RoleViewer (Some (CloneWorkspaceAccess
       (Some \<lparr> wa_All = False, wa_Grants = [\<lparr> wg_Workspace = '' ops'', wg_Role = RoleManager \<rparr>] \<rparr>))) ''ops''
     = (RoleManager, True)"
proof -
  let ?a = "Some \<lparr> wa_All = False, wa_Grants = [\<lparr> wg_Workspace = '' ops'', wg_Role = RoleManager \<rparr>] \<rparr>"
  have v: "ValidateWorkspaceAccess RoleViewer ?a None = None" by code_simp
  have r: "EffectiveRole RoleViewer ?a ''ops'' = (RoleManager, True)" by code_simp
  show ?thesis using access_policy_sound [OF v, of "''ops''"] v r by simp
qed

lemma validate_grants_weaken: "validate_grants ex seen gs = None \<Longrightarrow> validate_grants None seen gs = None"
  by (induction ex seen gs rule: validate_grants.induct) (auto simp: Let_def invalid_access_def split: if_splits)

text \<open>A valid policy stays valid when it is stored.\<close>

lemma Validate_Clone:
  assumes "ValidateWorkspaceAccess g access ex = None"
  shows "ValidateWorkspaceAccess g (Some (CloneWorkspaceAccess access)) None = None"
proof (cases "wa_All (NormalizeWorkspaceAccess access)")
  case True
  then have "wa_Grants (NormalizeWorkspaceAccess access) = []"
    by (auto simp: NormalizeWorkspaceAccess_def split: option.splits if_splits)
  then show ?thesis using True Validate_cases [OF assms]
    by (simp add: ValidateWorkspaceAccess_def Clone_Normalize Let_def)
next
  case False
  have "wa_Grants (NormalizeWorkspaceAccess access) \<noteq> []"
    using assms False by (auto simp: ValidateWorkspaceAccess_def invalid_access_def Let_def split: if_splits)
  then show ?thesis using False Validate_cases [OF assms] validate_grants_weaken [of ex "[]"]
    by (auto simp: ValidateWorkspaceAccess_def Clone_Normalize Let_def)
qed

lemma parseAndValidate_valid:
  assumes "parseAndValidateWorkspaceAccess a r access = Inr p"
  shows "ValidateWorkspaceAccess r (Some p) None = None"
  using assms
  by (auto simp: parseAndValidateWorkspaceAccess_def Let_def intro: Validate_Clone split: sum.splits if_splits option.splits)

section \<open>Listings and single resources\<close>

lemma invalid_name_trim: "trim_space invalidWorkspaceLabelName = invalidWorkspaceLabelName"
  by code_simp

lemma invalid_name_nonempty: "invalidWorkspaceLabelName \<noteq> []"
  by (simp add: invalidWorkspaceLabelName_def)

lemma canAccess_user:
  assumes "ae_authService a" "ae_user a = Some u" "\<not> wa_All (NormalizeWorkspaceAccess (us_WorkspaceAccess u))"
  shows "canAccessWorkspace a w \<longleftrightarrow>
    trim_space w = [] \<or> trim_space w \<in> wg_Workspace ` set (wa_Grants (NormalizeWorkspaceAccess (us_WorkspaceAccess u)))"
  using assms
  by (simp add: canAccessWorkspace_def effectiveRoleForWorkspace_def EffectiveRole_def Let_def case_prod_beta grant_role_found)

lemma canAccess_other:
  "\<not> ae_authService a \<Longrightarrow> canAccessWorkspace a w"
  "ae_authService a \<Longrightarrow> ae_user a = None \<Longrightarrow> \<not> canAccessWorkspace a w"
  "ae_authService a \<Longrightarrow> ae_user a = Some u \<Longrightarrow> wa_All (NormalizeWorkspaceAccess (us_WorkspaceAccess u)) \<Longrightarrow>
   canAccessWorkspace a w"
  by (simp_all add: canAccessWorkspace_def effectiveRoleForWorkspace_def EffectiveRole_def Let_def)

lemma visible_canAccess: "requireWorkspaceVisible a w = None \<longleftrightarrow> canAccessWorkspace a w"
  by (auto simp: requireWorkspaceVisible_def canAccessWorkspace_def split: sum.split prod.split)

lemma label_state_cases:
  obtains (missing) "WorkspaceLabelFromLabels labels = ([], WorkspaceLabelMissing)" "labels_Get labels WorkspaceLabelKey = []"
  | (valid) w where "WorkspaceLabelFromLabels labels = (w, WorkspaceLabelValid)" "ValidateName w = None"
      "set (labels_Get labels WorkspaceLabelKey) = {w}"
  | (invalid) w where "WorkspaceLabelFromLabels labels = (w, WorkspaceLabelInvalid)"
      "labels_Get labels WorkspaceLabelKey \<noteq> []"
      "\<And>v. ValidateName v = None \<Longrightarrow> set (labels_Get labels WorkspaceLabelKey) \<noteq> {v}"
proof -
  obtain w state where ws: "WorkspaceLabelFromLabels labels = (w, state)" by fastforce
  show ?thesis
  proof (cases state)
    case WorkspaceLabelMissing
    with ws missing show ?thesis using WorkspaceLabel_missing [of labels w] by simp
  next
    case WorkspaceLabelValid
    with ws show ?thesis using valid [of w] WorkspaceLabel_valid [of labels w] by simp
  next
    case WorkspaceLabelInvalid
    have "labels_Get labels WorkspaceLabelKey \<noteq> []"
      using ws WorkspaceLabelInvalid WorkspaceLabel_missing [of labels "[]"] by auto
    moreover have "set (labels_Get labels WorkspaceLabelKey) \<noteq> {v}" if "ValidateName v = None" for v
      using ws WorkspaceLabelInvalid WorkspaceLabel_valid [of labels v] that by auto
    ultimately show ?thesis using ws WorkspaceLabelInvalid invalid by blast
  qed
qed

text \<open>No user holds a grant for the name that stands for resources with an invalid label.\<close>

definition names_proper :: "api_env \<Rightarrow> bool" where
  "names_proper a \<longleftrightarrow> (\<forall>u. ae_user a = Some u \<longrightarrow>
     invalidWorkspaceLabelName \<notin> wg_Workspace ` set (wa_Grants (NormalizeWorkspaceAccess (us_WorkspaceAccess u))))"

lemma context_filter_agrees:
  assumes "names_proper a"
  shows "workspace_MatchesLabels (workspaceFilterForContext a) labels \<longleftrightarrow> canAccessWorkspace a (dagWorkspaceName (Some labels))"
proof -
  consider "\<not> ae_authService a" | "ae_authService a" "ae_user a = None"
    | u where "ae_authService a" "ae_user a = Some u" "wa_All (NormalizeWorkspaceAccess (us_WorkspaceAccess u))"
    | u where "ae_authService a" "ae_user a = Some u" "\<not> wa_All (NormalizeWorkspaceAccess (us_WorkspaceAccess u))"
    by (cases "ae_user a") auto
  then show ?thesis
  proof cases
    case (4 u)
    note acc = canAccess_user [OF 4]
    show ?thesis
    proof (cases rule: label_state_cases [of labels])
      case missing
      then show ?thesis using 4 acc
        by (simp add: workspace_MatchesLabels_def workspaceFilterForContext_def dagWorkspaceName_def Let_def)
    next
      case (valid w)
      then show ?thesis using 4 acc valid_name_trim valid_name_nonempty
        by (simp add: workspace_MatchesLabels_def workspaceFilterForContext_def dagWorkspaceName_def Let_def)
    next
      case (invalid w)
      then show ?thesis using 4 acc assms invalid_name_trim invalid_name_nonempty
        by (simp add: workspace_MatchesLabels_def workspaceFilterForContext_def dagWorkspaceName_def names_proper_def Let_def)
    qed
  qed (auto simp: workspace_MatchesLabels_def workspaceFilterForContext_def canAccess_other Let_def
      split: workspace_label_state.split prod.split)
qed

text \<open>The resources that a request asks for.\<close>

definition selected :: "string option \<Rightarrow> label list \<Rightarrow> bool" where
  "selected workspaceParam labels =
     (case workspaceParam of
        None \<Rightarrow> True
      | Some w \<Rightarrow>
          if w = ''all'' then True
          else if w = ''default'' then labels_Get labels WorkspaceLabelKey = []
          else set (labels_Get labels WorkspaceLabelKey) = {w})"

text \<open>
  C15: A listing shows exactly the resources that the request selects and that the user may see one by one: the filter that
  is built for a request agrees with the check of a single resource, for every user and every value of the
  workspace parameter, and also for resources whose workspace label is missing or invalid.
\<close>

theorem workspace_listing_agrees:
  assumes "workspaceFilterForParams a workspaceParam = Inr f" "names_proper a"
  shows "workspace_MatchesLabels f labels \<longleftrightarrow>
    selected workspaceParam labels \<and> canAccessWorkspace a (dagWorkspaceName (Some labels))"
proof -
  consider (all) "f = workspaceFilterForContext a" "workspaceParam = None \<or> workspaceParam = Some ''all''"
    | (default) "f = Some \<lparr> wf_Enabled = True, wf_Workspaces = [], wf_IncludeUnlabelled = True \<rparr>"
        "workspaceParam = Some ''default''" "canAccessWorkspace a []"
    | (named) w where "f = Some \<lparr> wf_Enabled = True, wf_Workspaces = [w], wf_IncludeUnlabelled = False \<rparr>"
        "workspaceParam = Some w" "w \<noteq> ''all''" "w \<noteq> ''default''" "ValidateName w = None" "canAccessWorkspace a w"
    using assms(1)
    by (auto simp: workspaceFilterForParams_def parseWorkspaceSelection_def workspaceFilterForSelection_def
        validateWorkspaceParam_def visible_canAccess split: option.splits if_splits sum.splits)
  then show ?thesis
  proof cases
    case all
    then show ?thesis using context_filter_agrees [OF assms(2)] by (auto simp: selected_def)
  next
    case default
    have sel: "selected workspaceParam labels \<longleftrightarrow> labels_Get labels WorkspaceLabelKey = []"
      using default(2) by (simp add: selected_def)
    show ?thesis
    proof (cases rule: label_state_cases [of labels])
      case missing
      then show ?thesis unfolding sel default(1) using default(3)
        by (simp add: workspace_MatchesLabels_def dagWorkspaceName_def)
    next
      case (valid v)
      have "labels_Get labels WorkspaceLabelKey \<noteq> []" using valid(3) by (metis list.set(1) empty_not_insert)
      then show ?thesis unfolding sel default(1) using valid(1) by (simp add: workspace_MatchesLabels_def)
    next
      case (invalid v)
      show ?thesis unfolding sel default(1) using invalid(1,2) by (simp add: workspace_MatchesLabels_def)
    qed
  next
    case (named w)
    have sel: "selected workspaceParam labels \<longleftrightarrow> set (labels_Get labels WorkspaceLabelKey) = {w}"
      using named(2-4) by (simp add: selected_def)
    show ?thesis
    proof (cases rule: label_state_cases [of labels])
      case missing
      then show ?thesis unfolding sel named(1) by (simp add: workspace_MatchesLabels_def)
    next
      case (valid v)
      then show ?thesis unfolding sel named(1) using named(6)
        by (cases "v = w") (simp_all add: workspace_MatchesLabels_def dagWorkspaceName_def)
    next
      case (invalid v)
      show ?thesis unfolding sel named(1) using invalid(1) invalid(3) [OF named(5)]
        by (simp add: workspace_MatchesLabels_def)
    qed
  qed
qed

definition sample_user :: user where
  "sample_user = (NewUser ''u1'' 0 ''eve'' ''hash'' RoleViewer)
     \<lparr>us_WorkspaceAccess := Some \<lparr> wa_All = False, wa_Grants = [\<lparr> wg_Workspace = ''ops'', wg_Role = RoleOperator \<rparr>] \<rparr>\<rparr>"

definition sample_api :: api_env where
  "sample_api = \<lparr> ae_authService = True, ae_user = Some sample_user, ae_permissionWriteDAGs = True,
     ae_dagWritesDisabled = False, ae_workspaceStore = Some (Inr [''ops'']) \<rparr>"

lemma sample_api_proper: "names_proper sample_api"
  unfolding names_proper_def sample_api_def sample_user_def
  by (simp add: NewUser_def NormalizeWorkspaceAccess_def invalidWorkspaceLabelName_def trim_space_fixed is_space_def)

theorem workspace_listing_agrees_witness:
  "canAccessWorkspace sample_api ''ops''
   \<and> workspace_MatchesLabels (Some \<lparr> wf_Enabled = True, wf_Workspaces = [''ops''], wf_IncludeUnlabelled = False \<rparr>)
       (NewLabels [''Workspace=ops'', ''team''])"
proof -
  let ?f = "Some \<lparr> wf_Enabled = True, wf_Workspaces = [''ops''], wf_IncludeUnlabelled = False \<rparr>"
  let ?ls = "NewLabels [''Workspace=ops'', ''team'']"
  have f: "workspaceFilterForParams sample_api (Some ''ops'') = Inr ?f" by code_simp
  have l: "selected (Some ''ops'') ?ls" "dagWorkspaceName (Some ?ls) = ''ops''" "canAccessWorkspace sample_api ''ops''"
    by code_simp+
  show ?thesis using workspace_listing_agrees [OF f sample_api_proper, of ?ls] l by simp
qed

text \<open>
  C34: A workspace whose name has a capital letter is accepted, can be granted and can be selected, but no resource is ever
  in it, since the values of labels are put into lower case: a listing of it is empty, and a DAG or a run with that
  very label is checked under another name.
\<close>

theorem capital_workspace_empty:
  assumes "to_lower w \<noteq> w" "ValidateName w = None" "workspaceFilterForParams a (Some w) = Inr f"
  shows "\<not> workspace_MatchesLabels f (NewLabels strs) \<and> statusWorkspaceName (Some strs) \<noteq> w"
proof -
  have res: "w \<noteq> ''all''" "w \<noteq> ''default''" "w \<noteq> []"
    using assms(2) by (auto simp: ValidateName_def to_lower_def lower_char_def)
  then have f: "f = Some \<lparr> wf_Enabled = True, wf_Workspaces = [w], wf_IncludeUnlabelled = False \<rparr>"
    using assms(2,3)
    by (auto simp: workspaceFilterForParams_def parseWorkspaceSelection_def workspaceFilterForSelection_def
        validateWorkspaceParam_def split: option.splits)
  have no: "set (labels_Get (NewLabels strs) key) \<noteq> {w}" for key
    using NewLabels_Get_lower [of w strs key] assms(1) by blast
  have inv: "w \<noteq> invalidWorkspaceLabelName"
    using valid_name_chars [OF assms(2), of "CHR 0x00"] by (auto simp: invalidWorkspaceLabelName_def alnum_def)
  show ?thesis
  proof (cases rule: label_state_cases [of "NewLabels strs"])
    case missing
    then show ?thesis using f res(3) by (simp add: workspace_MatchesLabels_def statusWorkspaceName_def dagWorkspaceName_def)
  next
    case (valid v)
    then have "v \<noteq> w" using no by metis
    then show ?thesis using f valid(1) by (simp add: workspace_MatchesLabels_def statusWorkspaceName_def dagWorkspaceName_def)
  next
    case (invalid v)
    show ?thesis using f invalid(1) inv
      by (simp add: workspace_MatchesLabels_def statusWorkspaceName_def dagWorkspaceName_def)
  qed
qed

theorem capital_workspace_empty_witness:
  "ValidateName ''Ops'' = None
   \<and> \<not> workspace_MatchesLabels (Some \<lparr> wf_Enabled = True, wf_Workspaces = [''Ops''], wf_IncludeUnlabelled = False \<rparr>)
       (NewLabels [''workspace=Ops''])"
proof -
  let ?f = "Some \<lparr> wf_Enabled = True, wf_Workspaces = [''Ops''], wf_IncludeUnlabelled = False \<rparr>"
  let ?a = "sample_api\<lparr>ae_authService := False\<rparr>"
  have h: "to_lower ''Ops'' \<noteq> ''Ops''" "ValidateName ''Ops'' = None" "workspaceFilterForParams ?a (Some ''Ops'') = Inr ?f"
    by code_simp+
  show ?thesis using capital_workspace_empty [OF h, of "[''workspace=Ops'']"] h(2) by simp
qed

text \<open>
  The checks of the API are nested: who may write a DAG of a workspace may also execute and see it, and the
  check without a workspace implies the one for any workspace unless the user has a policy of grants.
\<close>

lemma permissions_nested:
  "(requireDAGWriteForWorkspace a w = None \<longrightarrow> requireExecuteForWorkspace a w = None)
   \<and> (requireExecuteForWorkspace a w = None \<longrightarrow> requireWorkspaceVisible a w = None)
   \<and> (requireAdmin a = None \<longrightarrow> requireManagerOrAbove a = None)
   \<and> (requireManagerOrAbove a = None \<longrightarrow> requireDeveloperOrAbove a = None)
   \<and> (requireDAGWrite a = None \<and> (\<forall>u. ae_user a = Some u \<longrightarrow> wa_All (NormalizeWorkspaceAccess (us_WorkspaceAccess u)))
       \<longrightarrow> requireDAGWriteForWorkspace a w = None)"
proof -
  have "requireDAGWriteForWorkspace a w = None \<longrightarrow> requireExecuteForWorkspace a w = None"
    by (auto simp: requireDAGWriteForWorkspace_def requireExecuteForWorkspace_def CanWrite_def CanExecute_def
        split: sum.splits if_splits)
  moreover have "requireExecuteForWorkspace a w = None \<longrightarrow> requireWorkspaceVisible a w = None"
    by (auto simp: requireExecuteForWorkspace_def requireWorkspaceVisible_def split: sum.splits if_splits)
  moreover have "requireAdmin a = None \<longrightarrow> requireManagerOrAbove a = None"
    "requireManagerOrAbove a = None \<longrightarrow> requireDeveloperOrAbove a = None"
    by (auto simp: requireAdmin_def requireManagerOrAbove_def requireDeveloperOrAbove_def IsAdmin_def CanManageAudit_def
        CanWrite_def split: option.splits if_splits)
  moreover have "requireDAGWriteForWorkspace a w = None"
    if "requireDAGWrite a = None" "\<forall>u. ae_user a = Some u \<longrightarrow> wa_All (NormalizeWorkspaceAccess (us_WorkspaceAccess u))"
    using that
    by (auto simp: requireDAGWrite_def requireDAGWriteForWorkspace_def effectiveRoleForWorkspace_def EffectiveRole_def
        CanWrite_def Let_def split: option.splits if_splits)
  ultimately show ?thesis by blast
qed

end
