(* ===== verification/User_Store.thy ===== *)
theory User_Store
  imports Workspace_Access "HOL-Library.AList"
begin

text \<open>
  The file store of users (\<open>persis/fileuser/store.go\<close>): one JSON file for each user, indexes by id, user name and
  OIDC identity, and the cache of loaded users (\<open>cmn/fileutil/cache.go\<close>). Failures of the file system and the
  clock are fields of the record \<open>user_io\<close>. The cache holds pointers, so that what a caller changes
  through a pointer it got changes the entry; \<open>Auth_Service\<close> does so. Entries may be evicted at any time.
\<close>

section \<open>Errors\<close>

definition ErrUserNotFound :: go_error where
  "ErrUserNotFound = Sentinel ''user not found''"

definition ErrUserAlreadyExists :: go_error where
  "ErrUserAlreadyExists = Sentinel ''user already exists''"

definition ErrInvalidUsername :: go_error where
  "ErrInvalidUsername = Sentinel ''invalid username''"

definition ErrInvalidUserID :: go_error where
  "ErrInvalidUserID = Sentinel ''invalid user ID''"

definition ErrOIDCIdentityNotFound :: go_error where
  "ErrOIDCIdentityNotFound = Sentinel ''OIDC identity not found''"

definition ErrOIDCIdentityAlreadyExists :: go_error where
  "ErrOIDCIdentityAlreadyExists = Sentinel ''OIDC identity already exists''"

definition os_ErrNotExist :: go_error where
  "os_ErrNotExist = Sentinel ''file does not exist''"

lemmas user_errors = ErrUserNotFound_def ErrUserAlreadyExists_def ErrInvalidUsername_def ErrInvalidUserID_def
  ErrOIDCIdentityNotFound_def ErrOIDCIdentityAlreadyExists_def os_ErrNotExist_def

section \<open>State\<close>

text \<open>A file has no content when it cannot be parsed.\<close>

record user_file =
  uf_content :: "user option"
  uf_size :: int
  uf_mtime :: int

record cache_entry =
  ce_data :: user
  ce_size :: int
  ce_mtime :: int

record user_store =
  st_baseDir :: string
  st_files :: "(string \<times> user_file) list"
  st_byID :: "(string \<times> string) list"
  st_byUsername :: "(string \<times> string) list"
  st_byOIDC :: "(string \<times> string) list"
  st_cache :: "(string \<times> cache_entry) list option"

record user_io =
  uo_dirErr :: "go_error option"
  uo_statErr :: "string \<Rightarrow> go_error option"
  uo_readErr :: "string \<Rightarrow> go_error option"
  uo_writeErr :: "string \<Rightarrow> go_error option"
  uo_removeErr :: "string \<Rightarrow> go_error option"
  uo_now :: int
  uo_size :: "user \<Rightarrow> int"

text \<open>\<open>url.QueryEscape\<close>.\<close>

definition upper_hex :: "nat \<Rightarrow> char" where
  "upper_hex d = (if d < 10 then char_of (48 + d) else char_of (55 + d))"

definition query_escape_char :: "char \<Rightarrow> string" where
  "query_escape_char c =
     (if alnum c \<or> c \<in> set ''-_.~'' then [c]
      else if c = CHR '' '' then ''+''
      else CHR ''%'' # [upper_hex (of_char c div 16), upper_hex (of_char c mod 16)])"

definition query_escape :: "string \<Rightarrow> string" where
  "query_escape s = concat (map query_escape_char s)"

definition oidcIdentityKey :: "string \<Rightarrow> string \<Rightarrow> string" where
  "oidcIdentityKey issuer subject = query_escape issuer @ '':'' @ query_escape subject"

definition userFilePath :: "user_store \<Rightarrow> string \<Rightarrow> string" where
  "userFilePath s userID = st_baseDir s @ ''/'' @ userID @ ''.json''"

definition has_oidc :: "user \<Rightarrow> bool" where
  "has_oidc u \<longleftrightarrow> us_OIDCIssuer u \<noteq> [] \<and> us_OIDCSubject u \<noteq> []"

definition oidc_key_of :: "user \<Rightarrow> string" where
  "oidc_key_of u = oidcIdentityKey (us_OIDCIssuer u) (us_OIDCSubject u)"

section \<open>Files and cache\<close>

definition loadUserFromFile :: "user_io \<Rightarrow> string \<Rightarrow> user_store \<Rightarrow> go_error + user" where
  "loadUserFromFile io filePath s =
     (case uo_readErr io filePath of
        Some e \<Rightarrow> Inl (Wrap 0 ''failed to read file'' e)
      | None \<Rightarrow>
          (case map_of (st_files s) filePath of
             None \<Rightarrow> Inl (Wrap 0 ''failed to read file'' os_ErrNotExist)
           | Some f \<Rightarrow>
               (case uf_content f of
                  None \<Rightarrow> Inl (Errorf 1 ''failed to parse user file'')
                | Some stored \<Rightarrow> Inr (storage_ToUser stored))))"

definition writeUserToFile :: "user_io \<Rightarrow> string \<Rightarrow> user \<Rightarrow> user_store \<Rightarrow> go_error option \<times> user_store" where
  "writeUserToFile io filePath u s =
     (case uo_writeErr io filePath of
        Some e \<Rightarrow> (Some (Wrap 2 ''fileuser'' e), s)
      | None \<Rightarrow>
          (None, s\<lparr>st_files := AList.update filePath
             \<lparr> uf_content = Some (user_ToStorage u), uf_size = uo_size io (user_ToStorage u), uf_mtime = uo_now io \<rparr>
             (st_files s)\<rparr>))"

definition isStale :: "user_io \<Rightarrow> string \<Rightarrow> (string \<times> cache_entry) list \<Rightarrow> user_store \<Rightarrow> go_error + bool \<times> user_file" where
  "isStale io fileName cache s =
     (case (case uo_statErr io fileName of
              Some e \<Rightarrow> Inl e
            | None \<Rightarrow> (case map_of (st_files s) fileName of None \<Rightarrow> Inl os_ErrNotExist | Some f \<Rightarrow> Inr f)) of
        Inl e \<Rightarrow> Inl (Wrap 3 ''failed to stat file'' e)
      | Inr fi \<Rightarrow>
          (case map_of cache fileName of
             None \<Rightarrow> Inr (True, fi)
           | Some e \<Rightarrow> Inr (ce_mtime e < uf_mtime fi \<or> ce_size e \<noteq> uf_size fi, fi)))"

definition LoadLatest :: "user_io \<Rightarrow> string \<Rightarrow> (string \<times> cache_entry) list \<Rightarrow> user_store \<Rightarrow> (go_error + user) \<times> user_store" where
  "LoadLatest io filePath cache s =
     (case isStale io filePath cache s of
        Inl e \<Rightarrow> (Inl e, s)
      | Inr (stale, fi) \<Rightarrow>
          (case (if stale then None else map_of cache filePath) of
             Some e \<Rightarrow> (Inr (ce_data e), s)
           | None \<Rightarrow>
               (case loadUserFromFile io filePath s of
                  Inl e \<Rightarrow> (Inl e, s)
                | Inr data \<Rightarrow>
                    (Inr data, s\<lparr>st_cache := Some (AList.update filePath
                       \<lparr> ce_data = data, ce_size = uf_size fi, ce_mtime = uf_mtime fi \<rparr> cache)\<rparr>))))"

section \<open>Operations\<close>

definition GetByID :: "user_io \<Rightarrow> string \<Rightarrow> user_store \<Rightarrow> (go_error + user) \<times> user_store" where
  "GetByID io uid s =
     (if uid = [] then (Inl ErrInvalidUserID, s)
      else case map_of (st_byID s) uid of
        None \<Rightarrow> (Inl ErrUserNotFound, s)
      | Some filePath \<Rightarrow>
          (case (case st_cache s of
                   Some cache \<Rightarrow> LoadLatest io filePath cache s
                 | None \<Rightarrow> (loadUserFromFile io filePath s, s)) of
             (Inl e, s') \<Rightarrow>
               (Inl (if errors_is e os_ErrNotExist then ErrUserNotFound else Wrap 4 ''fileuser: failed to load user'' e), s')
           | (Inr u, s') \<Rightarrow> (Inr u, s')))"

definition GetByUsername :: "user_io \<Rightarrow> string \<Rightarrow> user_store \<Rightarrow> (go_error + user) \<times> user_store" where
  "GetByUsername io username s =
     (if username = [] then (Inl ErrInvalidUsername, s)
      else case map_of (st_byUsername s) username of
        None \<Rightarrow> (Inl ErrUserNotFound, s)
      | Some userID \<Rightarrow> GetByID io userID s)"

definition GetByOIDCIdentity :: "user_io \<Rightarrow> string \<Rightarrow> string \<Rightarrow> user_store \<Rightarrow> (go_error + user) \<times> user_store" where
  "GetByOIDCIdentity io issuer subject s =
     (if issuer = [] \<or> subject = [] then (Inl ErrOIDCIdentityNotFound, s)
      else case map_of (st_byOIDC s) (oidcIdentityKey issuer subject) of
        None \<Rightarrow> (Inl ErrOIDCIdentityNotFound, s)
      | Some userID \<Rightarrow> GetByID io userID s)"

fun list_users :: "user_io \<Rightarrow> string list \<Rightarrow> user_store \<Rightarrow> (go_error + user list) \<times> user_store" where
  "list_users io [] s = (Inr [], s)"
| "list_users io (uid # ids) s =
     (case GetByID io uid s of
        (Inl e, s1) \<Rightarrow> if errors_is e ErrUserNotFound then list_users io ids s1 else (Inl e, s1)
      | (Inr u, s1) \<Rightarrow>
          (case list_users io ids s1 of
             (Inl e, s2) \<Rightarrow> (Inl e, s2)
           | (Inr us, s2) \<Rightarrow> (Inr (u # us), s2)))"

definition user_List :: "user_io \<Rightarrow> user_store \<Rightarrow> (go_error + user list) \<times> user_store" where
  "user_List io s = list_users io (map fst (st_byID s)) s"

definition user_Count :: "user_store \<Rightarrow> int" where
  "user_Count s = int (length (st_byID s))"

definition index_user :: "string \<Rightarrow> user \<Rightarrow> user_store \<Rightarrow> user_store" where
  "index_user filePath u s =
     s\<lparr>st_byID := AList.update (us_ID u) filePath (st_byID s),
       st_byUsername := AList.update (us_Username u) (us_ID u) (st_byUsername s),
       st_byOIDC := (if has_oidc u then AList.update (oidc_key_of u) (us_ID u) (st_byOIDC s) else st_byOIDC s)\<rparr>"

definition user_Create :: "user_io \<Rightarrow> user \<Rightarrow> user_store \<Rightarrow> go_error option \<times> user_store" where
  "user_Create io u s =
     (if us_ID u = [] then (Some ErrInvalidUserID, s)
      else if us_Username u = [] then (Some ErrInvalidUsername, s)
      else if map_of (st_byUsername s) (us_Username u) \<noteq> None then (Some ErrUserAlreadyExists, s)
      else if map_of (st_byID s) (us_ID u) \<noteq> None then (Some ErrUserAlreadyExists, s)
      else if has_oidc u \<and> map_of (st_byOIDC s) (oidc_key_of u) \<noteq> None then (Some ErrOIDCIdentityAlreadyExists, s)
      else case writeUserToFile io (userFilePath s (us_ID u)) u s of
        (Some e, s1) \<Rightarrow> (Some e, s1)
      | (None, s1) \<Rightarrow> (None, index_user (userFilePath s (us_ID u)) u s1))"

text \<open>The index by name while the user name changes, and back when the update fails.\<close>

definition rename_index :: "string \<Rightarrow> string \<Rightarrow> string \<Rightarrow> user_store \<Rightarrow> user_store" where
  "rename_index old new uid s =
     (if old \<noteq> new then s\<lparr>st_byUsername := AList.update new uid (AList.delete old (st_byUsername s))\<rparr> else s)"

definition user_Update :: "user_io \<Rightarrow> user \<Rightarrow> user_store \<Rightarrow> go_error option \<times> user_store" where
  "user_Update io u s =
     (if us_ID u = [] then (Some ErrInvalidUserID, s)
      else if us_Username u = [] then (Some ErrInvalidUsername, s)
      else case map_of (st_byID s) (us_ID u) of
        None \<Rightarrow> (Some ErrUserNotFound, s)
      | Some filePath \<Rightarrow>
          (case loadUserFromFile io filePath s of
             Inl e \<Rightarrow> (Some (Wrap 5 ''fileuser: failed to load existing user'' e), s)
           | Inr existing \<Rightarrow>
               if us_Username existing \<noteq> us_Username u
                  \<and> map_of (st_byUsername s) (us_Username u) \<notin> {None, Some (us_ID u)}
               then (Some ErrUserAlreadyExists, s)
               else
                 let s1 = rename_index (us_Username existing) (us_Username u) (us_ID u) s;
                     rollback = rename_index (us_Username u) (us_Username existing) (us_ID u);
                     oidcChanged = (oidc_key_of existing \<noteq> oidc_key_of u)
                 in if oidcChanged \<and> has_oidc u \<and> map_of (st_byOIDC s1) (oidc_key_of u) \<notin> {None, Some (us_ID u)}
                    then (Some ErrOIDCIdentityAlreadyExists, rollback s1)
                    else case writeUserToFile io filePath u s1 of
                      (Some e, s2) \<Rightarrow> (Some e, rollback s2)
                    | (None, s2) \<Rightarrow>
                        (None,
                         if oidcChanged then
                           let m1 = (if has_oidc existing then AList.delete (oidc_key_of existing) (st_byOIDC s2) else st_byOIDC s2);
                               m2 = (if has_oidc u then AList.update (oidc_key_of u) (us_ID u) m1 else m1)
                           in s2\<lparr>st_byOIDC := m2\<rparr>
                         else s2)))"

text \<open>Deletes the first entry that points to an id, as the loops with \<open>break\<close> do.\<close>

fun delete_pointing :: "string \<Rightarrow> (string \<times> string) list \<Rightarrow> (string \<times> string) list" where
  "delete_pointing uid [] = []"
| "delete_pointing uid ((k, v) # m) = (if v = uid then AList.delete k m else (k, v) # delete_pointing uid m)"

text \<open>A remove that fails because the file is gone leaves no file either.\<close>

definition user_Delete :: "user_io \<Rightarrow> string \<Rightarrow> user_store \<Rightarrow> go_error option \<times> user_store" where
  "user_Delete io uid s =
     (if uid = [] then (Some ErrInvalidUserID, s)
      else case map_of (st_byID s) uid of
        None \<Rightarrow> (Some ErrUserNotFound, s)
      | Some filePath \<Rightarrow>
          (let loaded = loadUserFromFile io filePath s;
               removed = s\<lparr>st_files := AList.delete filePath (st_files s), st_byID := AList.delete uid (st_byID s)\<rparr>
           in if (case loaded of Inl e \<Rightarrow> \<not> errors_is e os_ErrNotExist | Inr u \<Rightarrow> False)
              then (Some (Wrap 6 ''fileuser: failed to load user for deletion'' (projl loaded)), s)
              else if (case uo_removeErr io filePath of Some e \<Rightarrow> \<not> errors_is e os_ErrNotExist | None \<Rightarrow> False)
              then (Some (Wrap 7 ''fileuser: failed to delete user file'' (the (uo_removeErr io filePath))), s)
              else case loaded of
                Inr u \<Rightarrow>
                  (None, removed\<lparr>st_byUsername := AList.delete (us_Username u) (st_byUsername s),
                     st_byOIDC := (if has_oidc u then AList.delete (oidc_key_of u) (st_byOIDC s) else st_byOIDC s)\<rparr>)
              | Inl e \<Rightarrow>
                  (None, removed\<lparr>st_byUsername := delete_pointing uid (st_byUsername s),
                     st_byOIDC := delete_pointing uid (st_byOIDC s)\<rparr>)))"

text \<open>Opening the store again: the indexes are built from the files; the cache starts empty.\<close>

fun rebuild_loop :: "user_io \<Rightarrow> string list \<Rightarrow> user_store \<Rightarrow> user_store" where
  "rebuild_loop io [] s = s"
| "rebuild_loop io (filePath # paths) s =
     (if \<not> has_suffix filePath ''.json'' then rebuild_loop io paths s
      else case loadUserFromFile io filePath s of
        Inl e \<Rightarrow> rebuild_loop io paths s
      | Inr u \<Rightarrow> rebuild_loop io paths (index_user filePath u s))"

definition rebuildIndex :: "user_io \<Rightarrow> user_store \<Rightarrow> user_store" where
  "rebuildIndex io s =
     rebuild_loop io (map fst (st_files s)) (s\<lparr>st_byID := [], st_byUsername := [], st_byOIDC := []\<rparr>)"

definition user_New :: "user_io \<Rightarrow> string \<Rightarrow> bool \<Rightarrow> (string \<times> user_file) list \<Rightarrow> go_error + user_store" where
  "user_New io baseDir withCache files =
     (if baseDir = [] then Inl (Errorf 8 ''fileuser: baseDir cannot be empty'')
      else case uo_dirErr io of
        Some e \<Rightarrow> Inl (Wrap 9 ''fileuser: failed to create directory or build index'' e)
      | None \<Rightarrow> Inr (rebuildIndex io \<lparr> st_baseDir = baseDir, st_files = files, st_byID = [], st_byUsername = [],
          st_byOIDC = [], st_cache = (if withCache then Some [] else None) \<rparr>))"

section \<open>OIDC identities\<close>

lemma upper_hex_inj: "a < 16 \<Longrightarrow> b < 16 \<Longrightarrow> upper_hex a = upper_hex b \<Longrightarrow> a = b"
  by (auto simp: upper_hex_def split: if_splits dest!: arg_cong [where f = "of_char :: char \<Rightarrow> nat"])

text \<open>The escaped form of a character tells the character, whatever follows.\<close>

lemma query_escape_char_cancel:
  assumes "query_escape_char c @ x = query_escape_char d @ y"
  shows "c = d \<and> x = y"
proof -
  let ?safe = "\<lambda>c. alnum c \<or> c \<in> set ''-_.~''"
  have s: "\<not> ?safe CHR ''%''" "\<not> ?safe CHR ''+''" by (simp_all add: alnum_def)
  have h: "c = d" if "upper_hex (of_char c div 16) = upper_hex (of_char d div 16)"
    "upper_hex (of_char c mod 16) = upper_hex (of_char d mod 16)"
  proof -
    have "(of_char c :: nat) div 16 = of_char d div 16" "(of_char c :: nat) mod 16 = of_char d mod 16"
      using that by (auto intro!: upper_hex_inj simp: less_mult_imp_div_less)
    then have "(of_char c :: nat) = of_char d" by (metis div_mult_mod_eq)
    then show ?thesis by simp
  qed
  show ?thesis
    using assms s h unfolding query_escape_char_def by (auto split: if_splits)
qed

lemma query_escape_nonempty: "query_escape_char c \<noteq> []"
  by (simp add: query_escape_char_def)

lemma query_escape_inj: "query_escape s = query_escape t \<Longrightarrow> s = t"
proof (induction s arbitrary: t)
  case Nil
  then show ?case using query_escape_nonempty by (cases t) (auto simp: query_escape_def)
next
  case (Cons c s)
  then obtain d t' where t: "t = d # t'" using query_escape_nonempty [of c] by (cases t) (auto simp: query_escape_def)
  then have "query_escape_char c @ query_escape s = query_escape_char d @ query_escape t'"
    using Cons.prems by (simp add: query_escape_def)
  then show ?case using query_escape_char_cancel Cons.IH t by blast
qed

lemma query_escape_no_colon: "CHR '':'' \<notin> set (query_escape s)"
proof -
  have u: "upper_hex n \<noteq> CHR '':''" if "n < 16" for n
    using that by (auto simp: upper_hex_def dest!: arg_cong [where f = "of_char :: char \<Rightarrow> nat"] split: if_splits)
  have "CHR '':'' \<notin> set (query_escape_char c)" for c
    using u [of "of_char c div 16"] u [of "of_char c mod 16"] 
    by (auto simp: query_escape_char_def alnum_def less_mult_imp_div_less)
  then show ?thesis by (simp add: query_escape_def)
qed

lemma oidcIdentityKey_inj:
  assumes "oidcIdentityKey a b = oidcIdentityKey c d"
  shows "a = c \<and> b = d"
proof -
  have "str_cut (oidcIdentityKey x y) (CHR '':'') = (query_escape x, query_escape y, True)" for x y
    by (simp add: oidcIdentityKey_def str_cut_append query_escape_no_colon)
  then show ?thesis using assms query_escape_inj by (metis prod.inject)
qed

section \<open>The users of a store\<close>

definition file_user :: "user_store \<Rightarrow> string \<Rightarrow> user option" where
  "file_user s p = (case map_of (st_files s) p of None \<Rightarrow> None | Some f \<Rightarrow> map_option storage_ToUser (uf_content f))"

definition users :: "user_store \<Rightarrow> string \<Rightarrow> user option" where
  "users s uid = (case map_of (st_byID s) uid of None \<Rightarrow> None | Some p \<Rightarrow> file_user s p)"

definition name_key :: "user \<Rightarrow> string option" where
  "name_key u = Some (us_Username u)"

definition identity_key :: "user \<Rightarrow> string option" where
  "identity_key u = (if has_oidc u then Some (oidc_key_of u) else None)"

text \<open>A map from keys to ids is the index of a map of users by the key \<open>f\<close>.\<close>

definition keyed :: "(user \<Rightarrow> string option) \<Rightarrow> (string \<Rightarrow> user option) \<Rightarrow> (string \<Rightarrow> string option) \<Rightarrow> bool" where
  "keyed f m km \<longleftrightarrow> (\<forall>k uid. km k = Some uid \<longleftrightarrow> (\<exists>u. m uid = Some u \<and> f u = Some k))"

definition drop_key :: "string option \<Rightarrow> (string \<Rightarrow> string option) \<Rightarrow> string \<Rightarrow> string option" where
  "drop_key k km = (case k of Some k \<Rightarrow> km(k := None) | None \<Rightarrow> km)"

definition add_key :: "string option \<Rightarrow> string \<Rightarrow> (string \<Rightarrow> string option) \<Rightarrow> string \<Rightarrow> string option" where
  "add_key k uid km = (case k of Some k \<Rightarrow> km(k \<mapsto> uid) | None \<Rightarrow> km)"

text \<open>Every indexed file holds its user under its id, every file is indexed, and both further indexes are exact.\<close>

definition store_ok :: "user_store \<Rightarrow> bool" where
  "store_ok s \<longleftrightarrow>
     (\<forall>uid p. map_of (st_byID s) uid = Some p \<longrightarrow>
        uid \<noteq> [] \<and> p = userFilePath s uid \<and> (\<exists>u. file_user s p = Some u \<and> us_ID u = uid \<and> us_Username u \<noteq> []))
     \<and> (\<forall>p. map_of (st_files s) p \<noteq> None \<longrightarrow> (\<exists>uid. map_of (st_byID s) uid = Some p))
     \<and> keyed name_key (users s) (map_of (st_byUsername s))
     \<and> keyed identity_key (users s) (map_of (st_byOIDC s))"

lemma keyed_iff: "keyed f m km \<Longrightarrow> km k = Some uid \<longleftrightarrow> (\<exists>u. m uid = Some u \<and> f u = Some k)"
  by (simp add: keyed_def)

lemma keyed_unique: "keyed f m km \<Longrightarrow> m i = Some u \<Longrightarrow> m j = Some v \<Longrightarrow> f u = Some k \<Longrightarrow> f v = Some k \<Longrightarrow> i = j"
  using keyed_iff [of f m km k i] keyed_iff [of f m km k j] by simp

lemma keyed_free: "keyed f m km \<Longrightarrow> km k = None \<longleftrightarrow> (\<forall>uid u. m uid = Some u \<longrightarrow> f u \<noteq> Some k)"
  unfolding keyed_def by (metis not_None_eq)

lemma keyed_drop:
  assumes "keyed f m km" "m uid = Some v"
  shows "keyed f (m(uid := None)) (drop_key (f v) km)"
proof -
  have "drop_key (f v) km k = Some i \<longleftrightarrow> (\<exists>u. (m(uid := None)) i = Some u \<and> f u = Some k)" for k i
  proof (cases "f v = Some k")
    case True
    then have "i \<noteq> uid \<Longrightarrow> \<not> (\<exists>u. m i = Some u \<and> f u = Some k)" using keyed_unique [OF assms(1) _ assms(2)] by blast
    then show ?thesis using True by (auto simp: drop_key_def)
  next
    case False
    then have "drop_key (f v) km k = km k" by (auto simp: drop_key_def split: option.split)
    then show ?thesis using False assms(2) keyed_iff [OF assms(1), of k i] by (cases "i = uid") simp_all
  qed
  then show ?thesis unfolding keyed_def by blast
qed

lemma keyed_add:
  assumes "keyed f m km" "m uid = None" "\<And>k. f u = Some k \<Longrightarrow> km k = None"
  shows "keyed f (m(uid \<mapsto> u)) (add_key (f u) uid km)"
proof -
  have "add_key (f u) uid km k = Some i \<longleftrightarrow> (\<exists>w. (m(uid \<mapsto> u)) i = Some w \<and> f w = Some k)" for k i
  proof (cases "f u = Some k")
    case True
    then have "\<not> (\<exists>w. m i = Some w \<and> f w = Some k)" using assms(1,3) keyed_free by blast
    then show ?thesis using True by (auto simp: add_key_def)
  next
    case False
    then have "add_key (f u) uid km k = km k" by (auto simp: add_key_def split: option.split)
    then show ?thesis using False assms(2) keyed_iff [OF assms(1), of k i] by (cases "i = uid") simp_all
  qed
  then show ?thesis unfolding keyed_def by blast
qed

lemma keyed_change:
  assumes "keyed f m km" "m uid = Some v" "\<And>k. f u = Some k \<Longrightarrow> km k = None \<or> km k = Some uid"
  shows "keyed f (m(uid \<mapsto> u)) (add_key (f u) uid (drop_key (f v) km))"
proof -
  have d: "keyed f (m(uid := None)) (drop_key (f v) km)" by (rule keyed_drop [OF assms(1,2)])
  have free: "drop_key (f v) km k = None" if "f u = Some k" for k
  proof (cases "km k")
    case None
    then show ?thesis by (simp add: drop_key_def split: option.split)
  next
    case (Some i)
    then have "km k = Some uid" using assms(3) [OF that] by simp
    then have "f v = Some k" using keyed_iff [OF assms(1)] assms(2) by simp
    then show ?thesis by (simp add: drop_key_def)
  qed
  then show ?thesis using keyed_add [OF d, of uid u] by simp
qed

lemma keyed_same:
  assumes "keyed f m km" "m uid = Some v" "f u = f v"
  shows "keyed f (m(uid \<mapsto> u)) km"
proof -
  have "km k = Some i \<longleftrightarrow> (\<exists>w. (m(uid \<mapsto> u)) i = Some w \<and> f w = Some k)" for k i
    using assms(2,3) keyed_iff [OF assms(1), of k i] by (cases "i = uid") simp_all
  then show ?thesis unfolding keyed_def by blast
qed

section \<open>The operations on the users\<close>

definition norm_user :: "user \<Rightarrow> user" where
  "norm_user u = storage_ToUser (user_ToStorage u)"

lemma storage_fields [simp]:
  "us_ID (storage_ToUser u) = us_ID u" "us_Username (storage_ToUser u) = us_Username u"
  "has_oidc (storage_ToUser u) = has_oidc u" "oidc_key_of (storage_ToUser u) = oidc_key_of u"
  "us_ID (user_ToStorage u) = us_ID u" "us_Username (user_ToStorage u) = us_Username u"
  "has_oidc (user_ToStorage u) = has_oidc u" "oidc_key_of (user_ToStorage u) = oidc_key_of u"
  by (simp_all add: storage_ToUser_def user_ToStorage_def has_oidc_def oidc_key_of_def)

lemma norm_fields [simp]:
  "us_ID (norm_user u) = us_ID u" "us_Username (norm_user u) = us_Username u"
  "has_oidc (norm_user u) = has_oidc u" "oidc_key_of (norm_user u) = oidc_key_of u"
  "name_key (norm_user u) = name_key u" "identity_key (norm_user u) = identity_key u"
  by (simp_all add: norm_user_def name_key_def identity_key_def)

lemma userFilePath_inj [simp]: "userFilePath s i = userFilePath s j \<longleftrightarrow> i = j"
  by (simp add: userFilePath_def)

lemma store_okD:
  assumes "store_ok s" "map_of (st_byID s) uid = Some p"
  shows "uid \<noteq> []" "p = userFilePath s uid" "\<exists>u. users s uid = Some u \<and> file_user s p = Some u \<and> us_ID u = uid \<and> us_Username u \<noteq> []"
  using assms unfolding store_ok_def users_def by fastforce+

lemma store_ok_files: "store_ok s \<Longrightarrow> map_of (st_files s) p \<noteq> None \<Longrightarrow> \<exists>uid. map_of (st_byID s) uid = Some p"
  by (simp add: store_ok_def)

lemma store_ok_index:
  assumes "store_ok s"
  shows "keyed name_key (users s) (map_of (st_byUsername s))" "keyed identity_key (users s) (map_of (st_byOIDC s))"
  using assms by (simp_all add: store_ok_def)

lemma users_None: "store_ok s \<Longrightarrow> users s uid = None \<longleftrightarrow> map_of (st_byID s) uid = None"
  using store_okD(3) [of s uid] by (cases "map_of (st_byID s) uid") (auto simp: users_def)

lemma writeUserToFile_cases:
  obtains (fail) e where "writeUserToFile io p u s = (Some e, s)"
  | (ok) fs where "writeUserToFile io p u s = (None, s\<lparr>st_files := fs\<rparr>)"
      "file_user (s\<lparr>st_files := fs\<rparr>) = (file_user s)(p \<mapsto> norm_user u)"
      "\<And>q. map_of fs q = None \<longleftrightarrow> q \<noteq> p \<and> map_of (st_files s) q = None"
      "\<And>q f. map_of fs q = Some f \<Longrightarrow> map_of (st_files s) q = Some f \<or> uf_mtime f = uo_now io"
proof (cases "uo_writeErr io p")
  case None
  let ?fs = "AList.update p \<lparr> uf_content = Some (user_ToStorage u), uf_size = uo_size io (user_ToStorage u), uf_mtime = uo_now io \<rparr>
    (st_files s)"
  show ?thesis
  proof (rule ok [of ?fs])
    show "writeUserToFile io p u s = (None, s\<lparr>st_files := ?fs\<rparr>)" using None by (simp add: writeUserToFile_def)
    show "file_user (s\<lparr>st_files := ?fs\<rparr>) = (file_user s)(p \<mapsto> norm_user u)"
      by (rule ext) (simp add: file_user_def update_conv' norm_user_def)
    show "map_of ?fs q = None \<longleftrightarrow> q \<noteq> p \<and> map_of (st_files s) q = None" for q by (simp add: update_conv')
    show "map_of (st_files s) q = Some f \<or> uf_mtime f = uo_now io" if "map_of ?fs q = Some f" for q f
      using that by (auto simp: update_conv' split: if_splits)
  qed
qed (rule fail, simp add: writeUserToFile_def)

text \<open>
  A store is all right when its index by id and its files are those of a map of users that the other indexes
  belong to.
\<close>

lemma store_okI:
  assumes "store_ok s" "st_baseDir s' = st_baseDir s" "\<And>i. users s' i = m i"
    and "\<And>i p. map_of (st_byID s') i = Some p \<Longrightarrow> p = userFilePath s i \<and> i \<noteq> [] \<and> (\<exists>u. m i = Some u \<and> us_ID u = i \<and> us_Username u \<noteq> [])"
    and "\<And>p. map_of (st_files s') p \<noteq> None \<Longrightarrow> \<exists>i. map_of (st_byID s') i = Some p"
    and "keyed name_key m (map_of (st_byUsername s'))" "keyed identity_key m (map_of (st_byOIDC s'))"
  shows "store_ok s' \<and> users s' = m"
proof -
  have m: "users s' = m" by (rule ext) (rule assms(3))
  have "file_user s' p = m i" if "map_of (st_byID s') i = Some p" for i p
    using that assms(3) [of i] by (simp add: users_def)
  then show ?thesis using assms(2,4-7) m unfolding store_ok_def by (simp add: userFilePath_def)
qed

lemma file_user_index [simp]: "file_user (index_user p u s) = file_user s"
  by (simp add: file_user_def index_user_def fun_eq_iff)

lemma user_index [simp]: "st_baseDir (index_user p u s) = st_baseDir s" "st_files (index_user p u s) = st_files s"
  "map_of (st_byID (index_user p u s)) = (map_of (st_byID s))(us_ID u \<mapsto> p)"
  "map_of (st_byUsername (index_user p u s)) = add_key (name_key u) (us_ID u) (map_of (st_byUsername s))"
  "map_of (st_byOIDC (index_user p u s)) = add_key (identity_key u) (us_ID u) (map_of (st_byOIDC s))"
  by (simp_all add: index_user_def update_conv' add_key_def name_key_def identity_key_def)

lemma Create_cases:
  assumes "user_Create io u s = (r, s')"
  obtains (fail) e where "r = Some e" "s' = s"
  | (ok) fs where "r = None" "s' = index_user (userFilePath s (us_ID u)) u (s\<lparr>st_files := fs\<rparr>)"
      "us_ID u \<noteq> []" "us_Username u \<noteq> []" "map_of (st_byUsername s) (us_Username u) = None"
      "map_of (st_byID s) (us_ID u) = None" "has_oidc u \<Longrightarrow> map_of (st_byOIDC s) (oidc_key_of u) = None"
      "file_user (s\<lparr>st_files := fs\<rparr>) = (file_user s)(userFilePath s (us_ID u) \<mapsto> norm_user u)"
      "\<And>q. map_of fs q = None \<longleftrightarrow> q \<noteq> userFilePath s (us_ID u) \<and> map_of (st_files s) q = None"
proof (cases rule: writeUserToFile_cases [of io "userFilePath s (us_ID u)" u s])
  case (fail e)
  then show ?thesis using assms that(1) by (auto simp: user_Create_def split: if_splits)
next
  case (ok fs)
  then show ?thesis using assms that(1) that(2) [of fs] by (auto simp: user_Create_def split: if_splits)
qed

lemma Create_ok:
  assumes "store_ok s" "user_Create io u s = (None, s')"
  shows "store_ok s' \<and> users s' = (users s)(us_ID u \<mapsto> norm_user u)"
  using assms(2)
proof (cases rule: Create_cases)
  case (ok fs)
  let ?m = "(users s)(us_ID u \<mapsto> norm_user u)" and ?p = "userFilePath s (us_ID u)"
  have new: "users s (us_ID u) = None" using users_None [OF assms(1)] ok(6) by simp
  show ?thesis
  proof (rule store_okI [OF assms(1)], goal_cases)
    case 1
    show ?case by (simp add: ok(2))
  next
    case (2 i)
    have "file_user (s\<lparr>st_files := fs\<rparr>) q = file_user s q" if "map_of (st_byID s) i = Some q" "i \<noteq> us_ID u" for q
      using store_okD(2) [OF assms(1) that(1)] that(2) by (simp add: ok(8))
    then show ?case by (auto simp: users_def ok(2) ok(8) split: option.split)
  next
    case (3 i q)
    then show ?case using store_okD [OF assms(1), of i q] ok(3,4) by (cases "i = us_ID u") (auto simp: ok(2))
  next
    case (4 q)
    then show ?case using assms(1) ok(6,9) unfolding store_ok_def by (auto simp: ok(2)) (metis option.distinct(1))
  next
    case 5
    show ?case using keyed_add [OF store_ok_index(1) [OF assms(1)] new, of "norm_user u"] ok(5)
      by (simp add: ok(2) name_key_def)
  next
    case 6
    have "map_of (st_byOIDC s) k = None" if "identity_key (norm_user u) = Some k" for k
      using that ok(7) by (auto simp: identity_key_def split: if_splits)
    then show ?case using keyed_add [OF store_ok_index(2) [OF assms(1)] new, of "norm_user u"] by (simp add: ok(2))
  qed
qed simp

lemma load_ok: "loadUserFromFile io p s = Inr v \<Longrightarrow> file_user s p = Some v"
  by (auto simp: loadUserFromFile_def file_user_def split: option.splits)

lemma file_user_fields [simp]:
  "file_user (s\<lparr>st_byUsername := a\<rparr>) = file_user s" "file_user (s\<lparr>st_byOIDC := b\<rparr>) = file_user s"
  "file_user (s\<lparr>st_byID := c\<rparr>) = file_user s" "file_user (s\<lparr>st_cache := d\<rparr>) = file_user s"
  by (simp_all add: file_user_def fun_eq_iff)

lemma rename_index_fields [simp]:
  "st_files (rename_index a b uid s) = st_files s" "st_byID (rename_index a b uid s) = st_byID s"
  "st_byOIDC (rename_index a b uid s) = st_byOIDC s" "st_baseDir (rename_index a b uid s) = st_baseDir s"
  "st_cache (rename_index a b uid s) = st_cache s"
  "map_of (st_byUsername (rename_index a b uid s)) =
     (if a \<noteq> b then (map_of (st_byUsername s))(a := None, b \<mapsto> uid) else map_of (st_byUsername s))"
  by (simp_all add: rename_index_def update_conv' delete_conv')

lemma file_user_rename [simp]: "file_user (rename_index a b uid s) = file_user s"
  by (simp add: file_user_def fun_eq_iff)

text \<open>Two stores that differ in the order of an index and in the cache only.\<close>

definition same_store :: "user_store \<Rightarrow> user_store \<Rightarrow> bool" where
  "same_store s s' \<longleftrightarrow> st_baseDir s' = st_baseDir s \<and> st_files s' = st_files s \<and> map_of (st_byID s') = map_of (st_byID s)
     \<and> map_of (st_byUsername s') = map_of (st_byUsername s) \<and> map_of (st_byOIDC s') = map_of (st_byOIDC s)"

lemma same_store_refl [simp]: "same_store s s"
  by (simp add: same_store_def)

lemma same_store_view: "same_store s s' \<Longrightarrow> users s' = users s \<and> file_user s' = file_user s"
proof -
  assume a: "same_store s s'"
  then have f: "file_user s' = file_user s" by (simp add: same_store_def file_user_def fun_eq_iff)
  then have "users s' uid = users s uid" for uid using a by (simp add: same_store_def users_def split: option.split)
  then show ?thesis using f by (simp add: ext)
qed

lemma same_store_ok: "same_store s s' \<Longrightarrow> store_ok s \<Longrightarrow> store_ok s' \<and> users s' = users s"
  using same_store_view [of s s'] by (simp add: same_store_def store_ok_def userFilePath_def)

lemma rename_back:
  assumes "map_of (st_byUsername s) old = Some uid" "map_of (st_byUsername s) new \<in> {None, Some uid}"
    "map_of (st_byUsername s) new = Some uid \<Longrightarrow> new = old"
  shows "same_store s (rename_index new old uid (rename_index old new uid s))"
proof (cases "old = new")
  case False
  then have n: "map_of (st_byUsername s) new = None" using assms(2,3) by blast
  have "((map_of (st_byUsername s))(old := None, new \<mapsto> uid))(new := None, old \<mapsto> uid) = map_of (st_byUsername s)"
    using n assms(1) False by (intro ext) simp
  then show ?thesis using False by (simp add: same_store_def)
qed (simp add: rename_index_def)

lemma Update_cases:
  assumes "store_ok s" "user_Update io u s = (r, s')"
  obtains (fail) e where "r = Some e" "same_store s s'" "st_cache s' = st_cache s"
  | (ok) v fs where "r = None" "users s (us_ID u) = Some v" "us_Username u \<noteq> []"
      "map_of (st_byID s) (us_ID u) = Some (userFilePath s (us_ID u))"
      "us_Username v \<noteq> us_Username u \<Longrightarrow> map_of (st_byUsername s) (us_Username u) \<in> {None, Some (us_ID u)}"
      "oidc_key_of v \<noteq> oidc_key_of u \<Longrightarrow> has_oidc u \<Longrightarrow> map_of (st_byOIDC s) (oidc_key_of u) \<in> {None, Some (us_ID u)}"
      "st_files s' = fs" "file_user s' = (file_user s)(userFilePath s (us_ID u) \<mapsto> norm_user u)"
      "\<And>q. map_of fs q = None \<longleftrightarrow> q \<noteq> userFilePath s (us_ID u) \<and> map_of (st_files s) q = None"
      "st_byID s' = st_byID s" "st_baseDir s' = st_baseDir s" "st_cache s' = st_cache s"
      "map_of (st_byUsername s') = (if us_Username v \<noteq> us_Username u
         then (map_of (st_byUsername s))(us_Username v := None, us_Username u \<mapsto> us_ID u) else map_of (st_byUsername s))"
      "map_of (st_byOIDC s') = (if oidc_key_of v \<noteq> oidc_key_of u
         then add_key (identity_key u) (us_ID u) (drop_key (identity_key v) (map_of (st_byOIDC s))) else map_of (st_byOIDC s))"
      "\<And>q f. map_of fs q = Some f \<Longrightarrow> map_of (st_files s) q = Some f \<or> uf_mtime f = uo_now io"
proof -
  consider (stop) e where "r = Some e" "s' = s"
    | (go) p v where "us_ID u \<noteq> []" "us_Username u \<noteq> []" "map_of (st_byID s) (us_ID u) = Some p"
        "loadUserFromFile io p s = Inr v"
        "us_Username v \<noteq> us_Username u \<Longrightarrow> map_of (st_byUsername s) (us_Username u) \<in> {None, Some (us_ID u)}"
    using assms(2) by (auto simp: user_Update_def split: if_splits option.splits sum.splits)
  then show ?thesis
  proof cases
    case stop
    then show ?thesis using fail by simp
  next
    case (go p v)
    have p: "p = userFilePath s (us_ID u)" "users s (us_ID u) = Some v" "us_ID v = us_ID u"
      using store_okD [OF assms(1) go(3)] load_ok [OF go(4)] by auto
    let ?s1 = "rename_index (us_Username v) (us_Username u) (us_ID u) s"
    let ?undo = "rename_index (us_Username u) (us_Username v) (us_ID u)"
    let ?taken = "oidc_key_of v \<noteq> oidc_key_of u \<and> has_oidc u \<and> map_of (st_byOIDC s) (oidc_key_of u) \<notin> {None, Some (us_ID u)}"
    have names: "map_of (st_byUsername s) (us_Username v) = Some (us_ID u)"
      "map_of (st_byUsername s) (us_Username u) = Some (us_ID u) \<Longrightarrow> us_Username u = us_Username v"
      using keyed_iff [OF store_ok_index(1) [OF assms(1)]] p(2) by (auto simp: name_key_def)
    have undo: "same_store s (?undo ?s1)"
    proof (cases "us_Username v = us_Username u")
      case True
      then show ?thesis by (simp add: rename_index_def)
    next
      case False
      then show ?thesis using names go(5) by (intro rename_back) auto
    qed
    have upd: "user_Update io u s = (if ?taken then (Some ErrOIDCIdentityAlreadyExists, ?undo ?s1)
      else case writeUserToFile io p u ?s1 of
        (Some e, s2) \<Rightarrow> (Some e, ?undo s2)
      | (None, s2) \<Rightarrow> (None, if oidc_key_of v \<noteq> oidc_key_of u then
           let m1 = (if has_oidc v then AList.delete (oidc_key_of v) (st_byOIDC s2) else st_byOIDC s2);
               m2 = (if has_oidc u then AList.update (oidc_key_of u) (us_ID u) m1 else m1)
           in s2\<lparr>st_byOIDC := m2\<rparr> else s2))"
      using go by (auto simp: user_Update_def Let_def)
    show ?thesis
    proof (cases ?taken)
      case True
      then show ?thesis using fail undo upd assms(2) by auto
    next
      case nt: False
      show ?thesis
      proof (cases rule: writeUserToFile_cases [of io p u ?s1])
        case (fail e)
        then show ?thesis using that(1) undo upd assms(2) nt by auto
      next
        case w: (ok fs)
        let ?s2 = "?s1\<lparr>st_files := fs\<rparr>"
        let ?m = "let m1 = (if has_oidc v then AList.delete (oidc_key_of v) (st_byOIDC s) else st_byOIDC s)
          in if has_oidc u then AList.update (oidc_key_of u) (us_ID u) m1 else m1"
        have r: "r = None" "s' = (if oidc_key_of v \<noteq> oidc_key_of u then ?s2\<lparr>st_byOIDC := ?m\<rparr> else ?s2)"
          using upd assms(2) nt w(1) by (auto simp: Let_def)
        have m: "map_of ?m = add_key (identity_key u) (us_ID u) (drop_key (identity_key v) (map_of (st_byOIDC s)))"
          by (simp add: Let_def update_conv' delete_conv' add_key_def drop_key_def identity_key_def)
        have fu: "file_user s' = (file_user s)(p \<mapsto> norm_user u)" using w(2) r(2) by simp
        show ?thesis
        proof (rule that(2) [of v fs])
          show "map_of (st_files s) q = Some f \<or> uf_mtime f = uo_now io" if "map_of fs q = Some f" for q f
            using w(4) [OF that] by simp
        qed (use r go p nt w(3) fu m in \<open>auto split: if_splits\<close>)
      qed
    qed
  qed
qed

lemma Update_ok:
  assumes "store_ok s" "user_Update io u s = (None, s')"
  shows "store_ok s' \<and> users s' = (users s)(us_ID u \<mapsto> norm_user u)"
  using assms
proof (cases rule: Update_cases)
  case (ok v fs)
  let ?m = "(users s)(us_ID u \<mapsto> norm_user u)" and ?p = "userFilePath s (us_ID u)"
  show ?thesis
  proof (rule store_okI [OF assms(1)], goal_cases)
    case 1
    show ?case by (rule ok(11))
  next
    case (2 i)
    have "file_user s' q = file_user s q" if "map_of (st_byID s) i = Some q" "i \<noteq> us_ID u" for q
      using store_okD(2) [OF assms(1) that(1)] that(2) by (simp add: ok(8))
    then show ?case using ok(4) by (auto simp: users_def ok(8,10) split: option.split)
  next
    case (3 i q)
    then show ?case using store_okD [OF assms(1), of i q] ok(3) by (cases "i = us_ID u") (auto simp: ok(10))
  next
    case (4 q)
    then have "q = ?p \<or> map_of (st_files s) q \<noteq> None" by (simp only: ok(7,9) de_Morgan_conj not_not)
    then show ?case
    proof
      assume "q = ?p"
      then show ?thesis using ok(4) by (simp only: ok(10)) blast
    next
      assume "map_of (st_files s) q \<noteq> None"
      then show ?thesis using store_ok_files [OF assms(1)] by (simp only: ok(10))
    qed
  next
    case 5
    show ?case
    proof (cases "us_Username v = us_Username u")
      case True
      then show ?thesis using keyed_same [OF store_ok_index(1) [OF assms(1)] ok(2), of "norm_user u"]
        by (simp add: ok(13) name_key_def)
    next
      case False
      have "map_of (st_byUsername s) k = None \<or> map_of (st_byUsername s) k = Some (us_ID u)"
        if "name_key (norm_user u) = Some k" for k
        using that ok(5) [OF False] by (auto simp: name_key_def)
      then have "keyed name_key ?m (add_key (name_key (norm_user u)) (us_ID u)
          (drop_key (name_key v) (map_of (st_byUsername s))))"
        by (intro keyed_change [OF store_ok_index(1) [OF assms(1)] ok(2)])
      then show ?thesis using False by (simp add: ok(13) name_key_def add_key_def drop_key_def)
    qed
  next
    case 6
    show ?case
    proof (cases "oidc_key_of v = oidc_key_of u")
      case True
      then have "us_OIDCIssuer v = us_OIDCIssuer u \<and> us_OIDCSubject v = us_OIDCSubject u"
        unfolding oidc_key_of_def by (rule oidcIdentityKey_inj)
      then have "has_oidc v = has_oidc u" by (simp add: has_oidc_def)
      then have "identity_key (norm_user u) = identity_key v" using True by (simp add: identity_key_def)
      from keyed_same [OF store_ok_index(2) [OF assms(1)] ok(2) this]
      show ?thesis using True by (simp add: ok(14))
    next
      case False
      have "map_of (st_byOIDC s) k = None \<or> map_of (st_byOIDC s) k = Some (us_ID u)"
        if "identity_key (norm_user u) = Some k" for k
        using that ok(6) [OF False] by (auto simp: identity_key_def split: if_splits)
      then have "keyed identity_key ?m (add_key (identity_key (norm_user u)) (us_ID u)
          (drop_key (identity_key v) (map_of (st_byOIDC s))))"
        by (intro keyed_change [OF store_ok_index(2) [OF assms(1)] ok(2)])
      then show ?thesis using False by (simp add: ok(14))
    qed
  qed
qed simp

text \<open>An error other than that of a missing file: whether a file is there is a matter of the state.\<close>

definition io_sane :: "user_io \<Rightarrow> bool" where
  "io_sane io \<longleftrightarrow> (\<forall>p e. (uo_readErr io p = Some e \<or> uo_statErr io p = Some e) \<longrightarrow> \<not> errors_is e os_ErrNotExist)"

lemma load_not_missing:
  assumes "io_sane io" "file_user s p = Some v"
  shows "loadUserFromFile io p s = Inr v \<or> (\<exists>e. loadUserFromFile io p s = Inl e \<and> \<not> errors_is e os_ErrNotExist)"
proof (cases "uo_readErr io p")
  case None
  then show ?thesis using assms(2) by (auto simp: loadUserFromFile_def file_user_def split: option.splits)
next
  case (Some e)
  then have "\<not> errors_is e os_ErrNotExist" using assms(1) by (simp add: io_sane_def)
  then show ?thesis using Some by (simp add: loadUserFromFile_def os_ErrNotExist_def)
qed

lemma Delete_cases:
  assumes "store_ok s" "io_sane io" "user_Delete io uid s = (r, s')"
  obtains (fail) e where "r = Some e" "s' = s"
  | (ok) v where "r = None" "users s uid = Some v" "map_of (st_byID s) uid = Some (userFilePath s uid)"
      "s' = s\<lparr>st_files := AList.delete (userFilePath s uid) (st_files s), st_byID := AList.delete uid (st_byID s),
         st_byUsername := AList.delete (us_Username v) (st_byUsername s),
         st_byOIDC := (if has_oidc v then AList.delete (oidc_key_of v) (st_byOIDC s) else st_byOIDC s)\<rparr>"
proof -
  consider "uid = []" | "uid \<noteq> []" "map_of (st_byID s) uid = None" | p where "uid \<noteq> []" "map_of (st_byID s) uid = Some p"
    by blast
  then show ?thesis
  proof cases
    case 1
    then show ?thesis using assms(3) fail by (auto simp: user_Delete_def)
  next
    case 2
    then show ?thesis using assms(3) fail by (auto simp: user_Delete_def)
  next
    case (3 p)
    obtain v where v: "p = userFilePath s uid" "users s uid = Some v" "file_user s p = Some v"
      using store_okD [OF assms(1) 3(2)] by blast
    from load_not_missing [OF assms(2) v(3)] show ?thesis
    proof
      assume l: "loadUserFromFile io p s = Inr v"
      show ?thesis
      proof (cases "case uo_removeErr io p of Some e \<Rightarrow> \<not> errors_is e os_ErrNotExist | None \<Rightarrow> False")
        case True
        then show ?thesis using assms(3) fail 3 l by (auto simp: user_Delete_def)
      next
        case False
        then show ?thesis using assms(3) ok [of v] 3 l v(1,2) by (simp add: user_Delete_def)
      qed
    next
      assume "\<exists>e. loadUserFromFile io p s = Inl e \<and> \<not> errors_is e os_ErrNotExist"
      then show ?thesis using assms(3) fail 3 by (auto simp: user_Delete_def)
    qed
  qed
qed

lemma Delete_ok:
  assumes "store_ok s" "io_sane io" "user_Delete io uid s = (None, s')"
  shows "store_ok s' \<and> users s' = (users s)(uid := None)"
  using assms
proof (cases rule: Delete_cases)
  case (ok v)
  let ?m = "(users s)(uid := None)" and ?p = "userFilePath s uid"
  have f: "file_user s' = (file_user s)(?p := None)"
    by (rule ext) (simp add: ok(4) file_user_def delete_conv')
  have b: "map_of (st_byID s') = (map_of (st_byID s))(uid := None)" by (simp add: ok(4) delete_conv')
  show ?thesis
  proof (rule store_okI [OF assms(1)], goal_cases)
    case 1
    show ?case by (simp add: ok(4))
  next
    case (2 i)
    have "file_user s' q = file_user s q" if "map_of (st_byID s) i = Some q" "i \<noteq> uid" for q
      using store_okD(2) [OF assms(1) that(1)] that(2) by (simp add: f)
    then show ?case by (auto simp: users_def b split: option.split)
  next
    case (3 i q)
    then show ?case using store_okD [OF assms(1), of i q] by (cases "i = uid") (auto simp: b)
  next
    case (4 q)
    then have q: "q \<noteq> ?p" "map_of (st_files s) q \<noteq> None" by (auto simp: ok(4) delete_conv' split: if_splits)
    then obtain i where "map_of (st_byID s) i = Some q" using store_ok_files [OF assms(1)] by blast
    then show ?case using q(1) ok(3) b by (intro exI [of _ i]) auto
  next
    case 5
    show ?case using keyed_drop [OF store_ok_index(1) [OF assms(1)] ok(2)]
      by (simp add: ok(4) delete_conv' name_key_def drop_key_def)
  next
    case 6
    show ?case using keyed_drop [OF store_ok_index(2) [OF assms(1)] ok(2)]
      by (simp add: ok(4) delete_conv' identity_key_def drop_key_def split: if_splits)
  qed
qed simp

section \<open>The cache\<close>

definition fresh_entry :: "cache_entry \<Rightarrow> user_file \<Rightarrow> bool" where
  "fresh_entry e f \<longleftrightarrow> \<not> (ce_mtime e < uf_mtime f \<or> ce_size e \<noteq> uf_size f)"

text \<open>Entries that are not stale have the data of their file.\<close>

definition cache_ok :: "user_store \<Rightarrow> bool" where
  "cache_ok s \<longleftrightarrow> (\<forall>c p e f. st_cache s = Some c \<and> map_of c p = Some e \<and> map_of (st_files s) p = Some f \<and> fresh_entry e f
     \<longrightarrow> map_option storage_ToUser (uf_content f) = Some (ce_data e))"

lemma LoadLatest_cases:
  obtains (fail) e where "LoadLatest io p c s = (Inl e, s)"
      "uo_statErr io p = None \<Longrightarrow> uo_readErr io p = None \<Longrightarrow> file_user s p = None"
  | (hit) e f where "LoadLatest io p c s = (Inr (ce_data e), s)" "map_of c p = Some e" "map_of (st_files s) p = Some f" "fresh_entry e f"
  | (load) u f where "LoadLatest io p c s = (Inr u, s\<lparr>st_cache := Some (AList.update p \<lparr> ce_data = u, ce_size = uf_size f, ce_mtime = uf_mtime f \<rparr> c)\<rparr>)"
      "map_of (st_files s) p = Some f" "map_option storage_ToUser (uf_content f) = Some u"
proof (cases "isStale io p c s")
  case (Inl e)
  then have "LoadLatest io p c s = (Inl e, s)" "uo_statErr io p = None \<Longrightarrow> file_user s p = None"
    by (simp add: LoadLatest_def) (use Inl in \<open>simp add: isStale_def file_user_def split: option.splits\<close>)
  then show ?thesis using fail [of e] by simp
next
  case (Inr x)
  obtain stale f where x: "x = (stale, f)" by fastforce
  have f: "map_of (st_files s) p = Some f" "\<not> stale \<Longrightarrow> \<exists>e. map_of c p = Some e \<and> fresh_entry e f"
    using Inr x by (auto simp: isStale_def fresh_entry_def split: option.splits)
  show ?thesis
  proof (cases stale)
    case False
    then obtain e where "map_of c p = Some e" "fresh_entry e f" using f(2) by blast
    then show ?thesis using hit [of e f] f(1) Inr x False by (simp add: LoadLatest_def)
  next
    case True
    show ?thesis
    proof (cases "loadUserFromFile io p s")
      case l: (Inl e)
      have "uo_readErr io p = None \<Longrightarrow> file_user s p = None"
        using l f(1) by (auto simp: loadUserFromFile_def file_user_def split: option.splits)
      then show ?thesis using fail [of e] l Inr x True by (simp add: LoadLatest_def)
    next
      case l: (Inr u)
      have "map_option storage_ToUser (uf_content f) = Some u" using load_ok [OF l] f(1) by (simp add: file_user_def)
      then show ?thesis using load [of u f] l Inr x True f(1) by (simp add: LoadLatest_def)
    qed
  qed
qed

lemma GetByID_same: "GetByID io uid s = (r, s') \<Longrightarrow> same_store s s'"
proof (cases "st_cache s")
  case (Some c)
  assume g: "GetByID io uid s = (r, s')"
  have "same_store s (snd (LoadLatest io p c s))" for p
    by (cases rule: LoadLatest_cases [of io p c s]) (simp_all add: same_store_def)
  then show ?thesis using g Some
    by (auto simp: GetByID_def split: if_splits option.splits prod.splits sum.splits) (metis snd_conv)+
qed (auto simp: GetByID_def split: if_splits option.splits sum.splits)

lemma GetByID_user:
  assumes "store_ok s" "cache_ok s" "GetByID io uid s = (Inr u, s')"
  shows "users s uid = Some u \<and> cache_ok s'"
proof -
  obtain p where p: "map_of (st_byID s) uid = Some p" using assms(3) by (auto simp: GetByID_def split: if_splits option.splits)
  show ?thesis
  proof (cases "st_cache s")
    case None
    then show ?thesis using assms(2,3) p load_ok [of io p s u]
      by (auto simp: GetByID_def users_def split: if_splits sum.splits)
  next
    case (Some c)
    have "LoadLatest io p c s = (Inr u, s')"
      using assms(3) p Some by (auto simp: GetByID_def split: if_splits prod.splits sum.splits)
    then show ?thesis
    proof (cases rule: LoadLatest_cases [of io p c s])
      case (hit e f)
      then have "map_option storage_ToUser (uf_content f) = Some (ce_data e)"
        using assms(2) Some unfolding cache_ok_def by blast
      then show ?thesis using hit \<open>LoadLatest io p c s = (Inr u, s')\<close> p assms(2) by (simp add: users_def file_user_def)
    next
      case (load v f)
      then have v: "v = u" "s' = s\<lparr>st_cache := Some (AList.update p \<lparr> ce_data = u, ce_size = uf_size f, ce_mtime = uf_mtime f \<rparr> c)\<rparr>"
        using \<open>LoadLatest io p c s = (Inr u, s')\<close> by simp_all
      have "cache_ok s'" using assms(2) Some load(2,3) v unfolding cache_ok_def by (auto simp: update_conv' split: if_splits)
      then show ?thesis using load v p by (simp add: users_def file_user_def)
    qed (use \<open>LoadLatest io p c s = (Inr u, s')\<close> in simp)
  qed
qed

section \<open>Opening the store again\<close>

text \<open>The index after some of the files have been read.\<close>

definition indexed :: "user_store \<Rightarrow> string set \<Rightarrow> user_store \<Rightarrow> bool" where
  "indexed s D t \<longleftrightarrow> st_files t = st_files s \<and> st_baseDir t = st_baseDir s
     \<and> (\<forall>i. map_of (st_byID t) i = (if users s i \<noteq> None \<and> userFilePath s i \<in> D then Some (userFilePath s i) else None))
     \<and> keyed name_key (\<lambda>i. if userFilePath s i \<in> D then users s i else None) (map_of (st_byUsername t))
     \<and> keyed identity_key (\<lambda>i. if userFilePath s i \<in> D then users s i else None) (map_of (st_byOIDC t))"

lemma keyed_functional:
  assumes "keyed f m a" "keyed f m b"
  shows "a = b"
proof (rule ext)
  fix k
  have "a k = Some i \<longleftrightarrow> b k = Some i" for i using keyed_iff [OF assms(1)] keyed_iff [OF assms(2)] by simp
  then show "a k = b k" by (metis not_None_eq)
qed

lemma keyed_index:
  assumes m: "keyed f m km" and d: "keyed f (\<lambda>i. if P i then m i else None) kd" and i: "m uid = Some u"
  shows "keyed f (\<lambda>i. if i = uid \<or> P i then m i else None) (add_key (f u) uid kd)"
proof -
  let ?n = "\<lambda>i. if P i then m i else None"
  have eq: "(\<lambda>i. if i = uid \<or> P i then m i else None) = ?n(uid \<mapsto> u)" using i by (auto simp: fun_eq_iff)
  show ?thesis
  proof (cases "P uid")
    case True
    have "kd k = Some uid" if "f u = Some k" for k using keyed_iff [OF d] i True that by simp
    then have "add_key (f u) uid kd = kd" by (auto simp: add_key_def fun_eq_iff split: option.split)
    then show ?thesis using keyed_same [OF d, of uid u u] i True unfolding eq by simp
  next
    case False
    have "kd k = None" if "f u = Some k" for k
    proof (rule ccontr)
      assume "kd k \<noteq> None"
      then obtain j v where "P j" "m j = Some v" "f v = Some k" using keyed_iff [OF d] by (auto split: if_splits)
      then show False using keyed_unique [OF m _ i _ that] False by blast
    qed
    then show ?thesis using keyed_add [OF d, of uid u] False unfolding eq by simp
  qed
qed

lemma rebuild_loop_indexed:
  assumes "store_ok s" "\<And>p. uo_readErr io p = None" "set ps \<subseteq> fst ` set (st_files s)" "indexed s D t"
  shows "indexed s (D \<union> set ps) (rebuild_loop io ps t)"
  using assms(3,4)
proof (induction ps arbitrary: D t)
  case (Cons p ps)
  have "map_of (st_files s) p \<noteq> None" using Cons.prems(1) by (simp add: map_of_eq_None_iff)
  then obtain uid where uid: "map_of (st_byID s) uid = Some p" using store_ok_files [OF assms(1)] by blast
  obtain u where u: "p = userFilePath s uid" "users s uid = Some u" "file_user s p = Some u" "us_ID u = uid"
    using store_okD [OF assms(1) uid] by blast
  have "file_user t p = Some u" using u(3) Cons.prems(2) by (simp add: indexed_def file_user_def)
  then have l: "loadUserFromFile io p t = Inr u" using assms(2)
    by (auto simp: loadUserFromFile_def file_user_def split: option.splits)
  have j: "has_suffix p ''.json''" by (simp add: u(1) userFilePath_def has_suffix_def)
  have "indexed s (insert p D) (index_user p u t)"
    using Cons.prems(2) keyed_index [OF store_ok_index(1) [OF assms(1)] _ u(2)]
      keyed_index [OF store_ok_index(2) [OF assms(1)] _ u(2)] u
    by (auto simp: indexed_def)
  from Cons.IH [OF _ this] show ?case using Cons.prems(1) l j by simp
qed simp

lemma rebuildIndex_ok:
  assumes "store_ok s" "\<And>p. uo_readErr io p = None"
  shows "store_ok (rebuildIndex io s) \<and> users (rebuildIndex io s) = users s"
proof -
  let ?t = "s\<lparr>st_byID := [], st_byUsername := [], st_byOIDC := []\<rparr>" and ?D = "fst ` set (st_files s)"
  have "indexed s {} ?t" by (simp add: indexed_def keyed_def)
  then have ix: "indexed s ?D (rebuildIndex io s)"
    using rebuild_loop_indexed [OF assms, of "map fst (st_files s)" "{}" ?t] by (simp add: rebuildIndex_def)
  have all: "userFilePath s i \<in> ?D" if u: "users s i = Some u" for i u
  proof -
    obtain p where "map_of (st_byID s) i = Some p" using u by (auto simp: users_def split: option.splits)
    then have "p = userFilePath s i" "file_user s p \<noteq> None" using store_okD [OF assms(1)] by force+
    then show ?thesis by (auto simp: file_user_def split: option.splits dest: map_of_SomeD intro: image_eqI [rotated])
  qed
  have m: "(\<lambda>i. if userFilePath s i \<in> ?D then users s i else None) = users s"
    using all by (intro ext) (simp, metis not_None_eq)
  have "map_of (st_byID (rebuildIndex io s)) i = map_of (st_byID s) i" for i
  proof (cases "map_of (st_byID s) i")
    case None
    then show ?thesis using ix users_None [OF assms(1)] by (simp add: indexed_def)
  next
    case (Some p)
    then show ?thesis using ix all store_okD [OF assms(1) Some] by (auto simp: indexed_def)
  qed
  then have i: "map_of (st_byID (rebuildIndex io s)) = map_of (st_byID s)" by (rule ext)
  have "map_of (st_byUsername (rebuildIndex io s)) = map_of (st_byUsername s)"
    by (rule keyed_functional [OF _ store_ok_index(1) [OF assms(1)]]) (use ix m in \<open>simp add: indexed_def\<close>)
  moreover have "map_of (st_byOIDC (rebuildIndex io s)) = map_of (st_byOIDC s)"
    by (rule keyed_functional [OF _ store_ok_index(2) [OF assms(1)]]) (use ix m in \<open>simp add: indexed_def\<close>)
  ultimately have "same_store s (rebuildIndex io s)" using ix i by (simp add: indexed_def same_store_def)
  then show ?thesis using same_store_ok assms(1) by blast
qed

section \<open>The contract of a user store\<close>

text \<open>
  What the services rely on: an operation that fails leaves the users as they are, one that succeeds changes just
  the user it names.
\<close>

locale user_repository =
  fixes ok :: "'s \<Rightarrow> bool" and view :: "'s \<Rightarrow> string \<Rightarrow> user option"
    and create :: "user \<Rightarrow> 's \<Rightarrow> go_error option \<times> 's" and update :: "user \<Rightarrow> 's \<Rightarrow> go_error option \<times> 's"
    and delete :: "string \<Rightarrow> 's \<Rightarrow> go_error option \<times> 's"
  assumes create_law: "ok s \<Longrightarrow> create u s = (r, s') \<Longrightarrow>
      ok s' \<and> view s' = (if r = None then (view s)(us_ID u \<mapsto> norm_user u) else view s)"
    and update_law: "ok s \<Longrightarrow> update u s = (r, s') \<Longrightarrow>
      ok s' \<and> view s' = (if r = None then (view s)(us_ID u \<mapsto> norm_user u) else view s)"
    and delete_law: "ok s \<Longrightarrow> delete uid s = (r, s') \<Longrightarrow>
      ok s' \<and> view s' = (if r = None then (view s)(uid := None) else view s)"
begin

lemma create_keeps:
  "ok s \<Longrightarrow> \<forall>u \<in> ran (view s). P u \<Longrightarrow> P (norm_user u) \<Longrightarrow> create u s = (r, s') \<Longrightarrow> ok s' \<and> (\<forall>u \<in> ran (view s'). P u)"
  using create_law [of s u r s'] by (auto simp: ran_def split: if_splits)

lemma update_keeps:
  "ok s \<Longrightarrow> \<forall>u \<in> ran (view s). P u \<Longrightarrow> P (norm_user u) \<Longrightarrow> update u s = (r, s') \<Longrightarrow> ok s' \<and> (\<forall>u \<in> ran (view s'). P u)"
  using update_law [of s u r s'] by (auto simp: ran_def split: if_splits)

lemma delete_keeps:
  "ok s \<Longrightarrow> \<forall>u \<in> ran (view s). P u \<Longrightarrow> delete uid s = (r, s') \<Longrightarrow> ok s' \<and> (\<forall>u \<in> ran (view s'). P u)"
  using delete_law [of s uid r s'] by (auto simp: ran_def split: if_splits)

end

interpretation file_users: user_repository "\<lambda>s. store_ok s \<and> io_sane io" users "user_Create io" "user_Update io" "user_Delete io"
  for io
proof
  show "(store_ok s' \<and> io_sane io) \<and> users s' = (if r = None then (users s)(us_ID u \<mapsto> norm_user u) else users s)"
    if "store_ok s \<and> io_sane io" "user_Create io u s = (r, s')" for s u r s'
  proof (cases r)
    case None
    then show ?thesis using Create_ok that by auto
  next
    case (Some e)
    from that(2) have "s' = s" by (cases rule: Create_cases) (use Some in simp_all)
    then show ?thesis using Some that by simp
  qed
  show "(store_ok s' \<and> io_sane io) \<and> users s' = (if r = None then (users s)(us_ID u \<mapsto> norm_user u) else users s)"
    if "store_ok s \<and> io_sane io" "user_Update io u s = (r, s')" for s u r s'
  proof (cases r)
    case None
    then show ?thesis using Update_ok that by auto
  next
    case (Some e)
    have "store_ok s" using that by simp
    from this that(2) have "same_store s s'" by (cases rule: Update_cases) (use Some in simp_all)
    then show ?thesis using Some that same_store_ok by auto
  qed
  show "(store_ok s' \<and> io_sane io) \<and> users s' = (if r = None then (users s)(uid := None) else users s)"
    if "store_ok s \<and> io_sane io" "user_Delete io uid s = (r, s')" for s uid r s'
  proof (cases r)
    case None
    then show ?thesis using Delete_ok that by auto
  next
    case (Some e)
    have "store_ok s" "io_sane io" using that by simp_all
    from this that(2) have "s' = s" by (cases rule: Delete_cases) (use Some in simp_all)
    then show ?thesis using Some that by simp
  qed
qed

end
