(* ===== verification/User_Spec.thy ===== *)
theory User_Spec
  imports User_Store
begin

text \<open>
  The file store of users against its specification: a map from ids to users in which user names and identities are
  unique. Calls are run one after the other on files, indexes and cache.
\<close>

section \<open>Calls\<close>

datatype user_call =
    CallCreate user | CallGetByID string | CallGetByUsername string | CallGetByOIDC string string
  | CallUpdate user | CallDelete string | CallReopen

datatype user_result = Done "go_error option" | Answer "go_error + user"

fun run_call :: "user_io \<Rightarrow> user_call \<Rightarrow> user_store \<Rightarrow> user_result \<times> user_store" where
  "run_call io (CallCreate u) s = map_prod Done (\<lambda>t. t) (user_Create io u s)"
| "run_call io (CallGetByID uid) s = map_prod Answer (\<lambda>t. t) (GetByID io uid s)"
| "run_call io (CallGetByUsername n) s = map_prod Answer (\<lambda>t. t) (GetByUsername io n s)"
| "run_call io (CallGetByOIDC issuer subject) s = map_prod Answer (\<lambda>t. t) (GetByOIDCIdentity io issuer subject s)"
| "run_call io (CallUpdate u) s = map_prod Done (\<lambda>t. t) (user_Update io u s)"
| "run_call io (CallDelete uid) s = map_prod Done (\<lambda>t. t) (user_Delete io uid s)"
| "run_call io CallReopen s = (Done None, rebuildIndex io (s\<lparr>st_cache := map_option (\<lambda>_. []) (st_cache s)\<rparr>))"

fun run_calls :: "(user_io \<times> user_call) list \<Rightarrow> user_store \<Rightarrow> user_result list \<times> user_store" where
  "run_calls [] s = ([], s)"
| "run_calls ((io, c) # cs) s =
     (case run_call io c s of (r, s1) \<Rightarrow> (case run_calls cs s1 of (rs, s2) \<Rightarrow> (r # rs, s2)))"

section \<open>Specification\<close>

type_synonym user_map = "string \<Rightarrow> user option"

text \<open>Some other user has the key.\<close>

definition taken :: "(user \<Rightarrow> string option) \<Rightarrow> user \<Rightarrow> user_map \<Rightarrow> bool" where
  "taken f u m \<longleftrightarrow> (\<exists>i v. i \<noteq> us_ID u \<and> m i = Some v \<and> f v \<noteq> None \<and> f v = f u)"

definition spec_find :: "(user \<Rightarrow> bool) \<Rightarrow> go_error \<Rightarrow> user_map \<Rightarrow> go_error + user \<Rightarrow> bool" where
  "spec_find P notFound m a \<longleftrightarrow>
     (case a of
        Inl e \<Rightarrow> e = notFound \<and> (\<forall>u \<in> ran m. \<not> P u)
      | Inr u \<Rightarrow> u \<in> ran m \<and> P u \<and> (\<forall>v \<in> ran m. P v \<longrightarrow> v = u))"

fun spec_call :: "user_call \<Rightarrow> user_map \<Rightarrow> user_result \<Rightarrow> user_map \<Rightarrow> bool" where
  "spec_call (CallCreate u) m r m' =
     (let e = (if us_ID u = [] then Some ErrInvalidUserID
               else if us_Username u = [] then Some ErrInvalidUsername
               else if taken name_key u m \<or> m (us_ID u) \<noteq> None then Some ErrUserAlreadyExists
               else if taken identity_key u m then Some ErrOIDCIdentityAlreadyExists
               else None)
      in r = Done e \<and> m' = (if e = None then m(us_ID u \<mapsto> norm_user u) else m))"
| "spec_call (CallUpdate u) m r m' =
     (let e = (if us_ID u = [] then Some ErrInvalidUserID
               else if us_Username u = [] then Some ErrInvalidUsername
               else if m (us_ID u) = None then Some ErrUserNotFound
               else if taken name_key u m then Some ErrUserAlreadyExists
               else if taken identity_key u m then Some ErrOIDCIdentityAlreadyExists
               else None)
      in r = Done e \<and> m' = (if e = None then m(us_ID u \<mapsto> norm_user u) else m))"
| "spec_call (CallDelete uid) m r m' =
     (let e = (if uid = [] then Some ErrInvalidUserID else if m uid = None then Some ErrUserNotFound else None)
      in r = Done e \<and> m' = (if e = None then m(uid := None) else m))"
| "spec_call (CallGetByID uid) m r m' =
     (m' = m \<and> r = Answer (if uid = [] then Inl ErrInvalidUserID
        else case m uid of None \<Rightarrow> Inl ErrUserNotFound | Some u \<Rightarrow> Inr u))"
| "spec_call (CallGetByUsername n) m r m' =
     (m' = m \<and> (\<exists>a. r = Answer a \<and> (if n = [] then a = Inl ErrInvalidUsername
        else spec_find (\<lambda>u. us_Username u = n) ErrUserNotFound m a)))"
| "spec_call (CallGetByOIDC issuer subject) m r m' =
     (m' = m \<and> (\<exists>a. r = Answer a \<and> (if issuer = [] \<or> subject = [] then a = Inl ErrOIDCIdentityNotFound
        else spec_find (\<lambda>u. us_OIDCIssuer u = issuer \<and> us_OIDCSubject u = subject) ErrOIDCIdentityNotFound m a)))"
| "spec_call CallReopen m r m' = (r = Done None \<and> m' = m)"

fun spec_calls :: "user_call list \<Rightarrow> user_map \<Rightarrow> user_result list \<Rightarrow> user_map \<Rightarrow> bool" where
  "spec_calls [] m rs m' = (rs = [] \<and> m' = m)"
| "spec_calls (c # cs) m rs m' = (\<exists>r rs' m1. rs = r # rs' \<and> spec_call c m r m1 \<and> spec_calls cs m1 rs' m')"

section \<open>Clock and cache\<close>

definition io_ok :: "user_io \<Rightarrow> bool" where
  "io_ok io \<longleftrightarrow> (\<forall>p. uo_statErr io p = None \<and> uo_readErr io p = None \<and> uo_writeErr io p = None \<and> uo_removeErr io p = None)"

lemma io_ok_sane: "io_ok io \<Longrightarrow> io_sane io"
  by (simp add: io_ok_def io_sane_def)

definition clock_before :: "int \<Rightarrow> user_store \<Rightarrow> bool" where
  "clock_before t s \<longleftrightarrow> (\<forall>p f. map_of (st_files s) p = Some f \<longrightarrow> uf_mtime f < t)
     \<and> (\<forall>c p e. st_cache s = Some c \<and> map_of c p = Some e \<longrightarrow> ce_mtime e < t)"

definition store_good :: "int \<Rightarrow> user_store \<Rightarrow> bool" where
  "store_good t s \<longleftrightarrow> store_ok s \<and> cache_ok s \<and> clock_before t s"

text \<open>Files that an operation leaves or writes now.\<close>

definition files_step :: "int \<Rightarrow> user_store \<Rightarrow> user_store \<Rightarrow> bool" where
  "files_step t s s' \<longleftrightarrow> st_cache s' = st_cache s
     \<and> (\<forall>p f. map_of (st_files s') p = Some f \<longrightarrow> map_of (st_files s) p = Some f \<or> uf_mtime f = t)"

lemma files_step_refl [simp]: "files_step t s s"
  by (simp add: files_step_def)

lemma cache_okD:
  "cache_ok s \<Longrightarrow> st_cache s = Some c \<Longrightarrow> map_of c p = Some e \<Longrightarrow> map_of (st_files s) p = Some f \<Longrightarrow> fresh_entry e f \<Longrightarrow>
   map_option storage_ToUser (uf_content f) = Some (ce_data e)"
  by (simp add: cache_ok_def)

lemma clock_beforeD:
  "clock_before t s \<Longrightarrow> map_of (st_files s) p = Some f \<Longrightarrow> uf_mtime f < t"
  "clock_before t s \<Longrightarrow> st_cache s = Some c \<Longrightarrow> map_of c p = Some e \<Longrightarrow> ce_mtime e < t"
  by (simp_all add: clock_before_def)

lemma files_step_good:
  assumes "files_step t s s'" "cache_ok s" "clock_before t s" "t < t'"
  shows "cache_ok s' \<and> clock_before t' s'"
proof
  have f: "map_of (st_files s) p = Some f \<or> uf_mtime f = t" if "map_of (st_files s') p = Some f" for p f
    using assms(1) that by (simp add: files_step_def)
  have c: "st_cache s' = st_cache s" using assms(1) by (simp add: files_step_def)
  show "cache_ok s'"
    unfolding cache_ok_def
  proof (intro allI impI, elim conjE)
    fix c p e f
    assume a: "st_cache s' = Some c" "map_of c p = Some e" "map_of (st_files s') p = Some f" "fresh_entry e f"
    have sc: "st_cache s = Some c" using a(1) \<open>st_cache s' = st_cache s\<close> by simp
    have "ce_mtime e < t" by (rule clock_beforeD(2) [OF assms(3) sc a(2)])
    then have "uf_mtime f \<noteq> t" using a(4) by (simp add: fresh_entry_def)
    then have "map_of (st_files s) p = Some f" using f [OF a(3)] by simp
    then show "map_option storage_ToUser (uf_content f) = Some (ce_data e)"
      using cache_okD [OF assms(2) sc a(2)] a(4) by simp
  qed
  have "uf_mtime g < t'" if "map_of (st_files s') p = Some g" for p g
    using f [OF that] clock_beforeD(1) [OF assms(3), of p g] assms(4) by linarith
  moreover have "ce_mtime e < t'" if "st_cache s' = Some d" "map_of d p = Some e" for d p e
    using clock_beforeD(2) [OF assms(3), of d p e] that c assms(4) by simp
  ultimately show "clock_before t' s'" unfolding clock_before_def by blast
qed

lemma write_files:
  "writeUserToFile io p u s = (r, s') \<Longrightarrow> files_step (uo_now io) s s'"
  by (auto simp: writeUserToFile_def files_step_def update_conv' split: option.splits if_splits)

lemma files_step_fields: "st_cache s' = st_cache s1 \<Longrightarrow> st_files s' = st_files s1 \<Longrightarrow> files_step t s s1 \<Longrightarrow> files_step t s s'"
  by (simp add: files_step_def)

lemma Create_files: "user_Create io u s = (r, s') \<Longrightarrow> files_step (uo_now io) s s'"
  by (auto simp: user_Create_def index_user_def split: if_splits prod.splits option.splits dest!: write_files
      intro: files_step_fields [rotated 2])

lemma Update_files:
  assumes "store_ok s" "user_Update io u s = (r, s')"
  shows "files_step (uo_now io) s s'"
  using assms
proof (cases rule: Update_cases)
  case fail
  then show ?thesis by (simp add: files_step_def same_store_def)
next
  case (ok v fs)
  then show ?thesis unfolding files_step_def by metis
qed

lemma Delete_files:
  assumes "store_ok s" "io_sane io" "user_Delete io uid s = (r, s')"
  shows "files_step (uo_now io) s s'"
  using assms by (cases rule: Delete_cases) (auto simp: files_step_def delete_conv' split: if_splits)

lemma GetByID_spec:
  assumes "store_good t s" "io_ok io"
  shows "\<exists>s'. GetByID io uid s = (if uid = [] then Inl ErrInvalidUserID
      else case users s uid of None \<Rightarrow> Inl ErrUserNotFound | Some u \<Rightarrow> Inr u, s') \<and> same_store s s' \<and> store_good t s'"
proof -
  have ok: "store_ok s" "cache_ok s" "clock_before t s" using assms(1) by (simp_all add: store_good_def)
  consider "uid = []" | "uid \<noteq> []" "map_of (st_byID s) uid = None" | p where "uid \<noteq> []" "map_of (st_byID s) uid = Some p" by blast
  then show ?thesis
  proof cases
    case (3 p)
    obtain u where u: "users s uid = Some u" "file_user s p = Some u" using store_okD [OF ok(1) 3(2)] by blast
    show ?thesis
    proof (cases "st_cache s")
      case None
      have "loadUserFromFile io p s = Inr u"
        using assms(2) u(2) by (auto simp: loadUserFromFile_def file_user_def io_ok_def split: option.splits)
      then show ?thesis using 3 None u assms(1) by (simp add: GetByID_def)
    next
      case (Some c)
      obtain v s' where l: "LoadLatest io p c s = (Inr v, s')" "clock_before t s'"
      proof (cases rule: LoadLatest_cases [of io p c s])
        case (load v f)
        have "uf_mtime f < t" using ok(3) load(2) unfolding clock_before_def by blast
        then have "clock_before t (s\<lparr>st_cache := Some (AList.update p \<lparr> ce_data = v, ce_size = uf_size f, ce_mtime = uf_mtime f \<rparr> c)\<rparr>)"
          using ok(3) Some unfolding clock_before_def by (auto simp: update_conv' split: if_splits)
        then show ?thesis using load(1) that by blast
      qed (use assms(2) u(2) ok(3) that in \<open>auto simp: io_ok_def\<close>)
      then have g: "GetByID io uid s = (Inr v, s')" using 3 Some by (simp add: GetByID_def)
      note same = GetByID_same [OF g] and user = GetByID_user [OF ok(1,2) g]
      then show ?thesis using g u(1) 3(1) l(2) same_store_ok [OF same ok(1)] by (auto simp: store_good_def)
    qed
  qed (use assms(1) users_None [OF ok(1), of uid] in \<open>simp_all add: GetByID_def\<close>)
qed

section \<open>Every call follows the specification\<close>

lemma taken_iff:
  assumes "keyed f m km" "f u = Some k"
  shows "taken f u m \<longleftrightarrow> (\<exists>i. km k = Some i \<and> i \<noteq> us_ID u)"
  using keyed_iff [OF assms(1)] assms(2) unfolding taken_def by auto

lemma not_taken_none: "f u = None \<Longrightarrow> \<not> taken f u m"
  by (auto simp: taken_def)

lemma taken_name:
  "store_ok s \<Longrightarrow> taken name_key u (users s) \<longleftrightarrow> (\<exists>i. map_of (st_byUsername s) (us_Username u) = Some i \<and> i \<noteq> us_ID u)"
  by (rule taken_iff [OF store_ok_index(1)]) (simp_all add: name_key_def)

lemma taken_identity:
  assumes "store_ok s"
  shows "taken identity_key u (users s) \<longleftrightarrow> has_oidc u \<and> (\<exists>i. map_of (st_byOIDC s) (oidc_key_of u) = Some i \<and> i \<noteq> us_ID u)"
proof (cases "has_oidc u")
  case True
  then show ?thesis using taken_iff [OF store_ok_index(2) [OF assms], of u "oidc_key_of u"] by (simp add: identity_key_def)
qed (simp add: not_taken_none identity_key_def)

lemma load_user:
  assumes "store_ok s" "io_ok io" "map_of (st_byID s) uid = Some p"
  shows "\<exists>v. loadUserFromFile io p s = Inr v \<and> users s uid = Some v"
proof -
  obtain v where "users s uid = Some v" "file_user s p = Some v" using store_okD [OF assms(1,3)] by blast
  then show ?thesis using assms(2)
    by (auto simp: loadUserFromFile_def file_user_def io_ok_def split: option.splits)
qed

lemma write_ok: "io_ok io \<Longrightarrow> fst (writeUserToFile io p u s) = None"
  by (simp add: writeUserToFile_def io_ok_def)

lemma Create_spec:
  assumes "store_good (uo_now io) s" "io_ok io" "user_Create io u s = (r, s')" "uo_now io < t"
  shows "spec_call (CallCreate u) (users s) (Done r) (users s') \<and> store_good t s'"
proof -
  have ok: "store_ok s" "cache_ok s" "clock_before (uo_now io) s" using assms(1) by (simp_all add: store_good_def)
  note law = file_users.create_law [of s io u r s']
  note n = taken_name [OF ok(1), of u] and o = taken_identity [OF ok(1), of u]
  have n': "map_of (st_byUsername s) (us_Username u) \<noteq> Some (us_ID u)" if "users s (us_ID u) = None"
    using keyed_iff [OF store_ok_index(1) [OF ok(1)]] that by simp
  have o': "map_of (st_byOIDC s) k \<noteq> Some (us_ID u)" if "users s (us_ID u) = None" for k
    using keyed_iff [OF store_ok_index(2) [OF ok(1)]] that by simp
  have b: "map_of (st_byID s) (us_ID u) = None \<longleftrightarrow> users s (us_ID u) = None" using users_None [OF ok(1)] by simp
  have w: "fst (writeUserToFile io p u s) = None" for p by (rule write_ok [OF assms(2)])
  have "r = (if us_ID u = [] then Some ErrInvalidUserID
      else if us_Username u = [] then Some ErrInvalidUsername
      else if taken name_key u (users s) \<or> users s (us_ID u) \<noteq> None then Some ErrUserAlreadyExists
      else if taken identity_key u (users s) then Some ErrOIDCIdentityAlreadyExists else None)"
    using assms(3) n n' o o' b w [of "userFilePath s (us_ID u)"]
    unfolding user_Create_def by (auto split: if_splits prod.splits option.splits)
  then show ?thesis
    using law assms(3) ok io_ok_sane [OF assms(2)] files_step_good [OF Create_files [OF assms(3)] ok(2,3) assms(4)]
    by (simp add: store_good_def Let_def)
qed

lemma Update_spec:
  assumes "store_good (uo_now io) s" "io_ok io" "user_Update io u s = (r, s')" "uo_now io < t"
  shows "spec_call (CallUpdate u) (users s) (Done r) (users s') \<and> store_good t s'"
proof -
  have ok: "store_ok s" "cache_ok s" "clock_before (uo_now io) s" using assms(1) by (simp_all add: store_good_def)
  note n = taken_name [OF ok(1), of u] and o = taken_identity [OF ok(1), of u]
  have "r = (if us_ID u = [] then Some ErrInvalidUserID
      else if us_Username u = [] then Some ErrInvalidUsername
      else if users s (us_ID u) = None then Some ErrUserNotFound
      else if taken name_key u (users s) then Some ErrUserAlreadyExists
      else if taken identity_key u (users s) then Some ErrOIDCIdentityAlreadyExists else None)"
  proof (cases "map_of (st_byID s) (us_ID u)")
    case None
    then show ?thesis using assms(3) users_None [OF ok(1)] by (auto simp: user_Update_def split: if_splits)
  next
    case (Some p)
    then obtain v where v: "loadUserFromFile io p s = Inr v" "users s (us_ID u) = Some v" using load_user [OF ok(1) assms(2)] by blast
    have w: "fst (writeUserToFile io p u t) = None" for t by (rule write_ok [OF assms(2)])
    have nv: "map_of (st_byUsername s) (us_Username v) = Some (us_ID u)"
      using keyed_iff [OF store_ok_index(1) [OF ok(1)]] v(2) by (simp add: name_key_def)
    have n2: "us_Username v \<noteq> us_Username u \<and> map_of (st_byUsername s) (us_Username u) \<notin> {None, Some (us_ID u)} \<longleftrightarrow>
        taken name_key u (users s)"
      unfolding n using nv by (cases "us_Username v = us_Username u") auto
    have ov: "has_oidc v \<Longrightarrow> map_of (st_byOIDC s) (oidc_key_of v) = Some (us_ID u)"
      using keyed_iff [OF store_ok_index(2) [OF ok(1)]] v(2) by (simp add: identity_key_def)
    have hv: "has_oidc v = has_oidc u" if "oidc_key_of v = oidc_key_of u"
      using oidcIdentityKey_inj [of "us_OIDCIssuer v" "us_OIDCSubject v"] that by (simp add: oidc_key_of_def has_oidc_def)
    have o2: "oidc_key_of v \<noteq> oidc_key_of u \<and> has_oidc u \<and> map_of (st_byOIDC s) (oidc_key_of u) \<notin> {None, Some (us_ID u)} \<longleftrightarrow>
        taken identity_key u (users s)"
      unfolding o using ov hv by (cases "oidc_key_of v = oidc_key_of u") auto
    show ?thesis
      using assms(3) Some v n2 o2 w [of "rename_index (us_Username v) (us_Username u) (us_ID u) s"]
      unfolding user_Update_def Let_def by (auto split: if_splits prod.splits option.splits)
  qed
  then show ?thesis
    using file_users.update_law [of s io u r s'] assms(3) ok io_ok_sane [OF assms(2)]
      files_step_good [OF Update_files [OF ok(1) assms(3)] ok(2,3) assms(4)]
    by (simp add: store_good_def Let_def)
qed

lemma Delete_spec:
  assumes "store_good (uo_now io) s" "io_ok io" "user_Delete io uid s = (r, s')" "uo_now io < t"
  shows "spec_call (CallDelete uid) (users s) (Done r) (users s') \<and> store_good t s'"
proof -
  have ok: "store_ok s" "cache_ok s" "clock_before (uo_now io) s" using assms(1) by (simp_all add: store_good_def)
  have "r = (if uid = [] then Some ErrInvalidUserID else if users s uid = None then Some ErrUserNotFound else None)"
  proof (cases "map_of (st_byID s) uid")
    case None
    then show ?thesis using assms(3) users_None [OF ok(1)] by (auto simp: user_Delete_def split: if_splits)
  next
    case (Some p)
    then obtain v where "loadUserFromFile io p s = Inr v" "users s uid = Some v" using load_user [OF ok(1) assms(2)] by blast
    then show ?thesis using assms(2,3) Some by (auto simp: user_Delete_def io_ok_def split: if_splits)
  qed
  then show ?thesis
    using file_users.delete_law [of s io uid r s'] assms(3) ok io_ok_sane [OF assms(2)]
      files_step_good [OF Delete_files [OF ok(1) io_ok_sane [OF assms(2)] assms(3)] ok(2,3) assms(4)]
    by (simp add: store_good_def Let_def)
qed

text \<open>A lookup through an index finds the user with the key.\<close>

lemma find_spec:
  assumes "store_good t s" "io_ok io" "keyed f (users s) km" "\<And>u. P u \<longleftrightarrow> f u = Some k"
    and "(r, s') = (case km k of None \<Rightarrow> (Inl notFound, s) | Some uid \<Rightarrow> GetByID io uid s)"
  shows "spec_find P notFound (users s) r \<and> users s' = users s \<and> store_good t s'"
proof (cases "km k")
  case None
  then have "\<not> P u" if "u \<in> ran (users s)" for u
    using that assms(4) keyed_free [OF assms(3), of k] by (auto simp: ran_def)
  then show ?thesis using assms(1,5) None by (simp add: spec_find_def)
next
  case (Some uid)
  then obtain u where u: "users s uid = Some u" "f u = Some k" using keyed_iff [OF assms(3)] by blast
  have "uid \<noteq> []"
    using u(1) assms(1) store_okD(1) [of s uid] users_None [of s uid] unfolding store_good_def by (metis not_None_eq)
  then obtain s1 where g: "GetByID io uid s = (Inr u, s1)" "same_store s s1" "store_good t s1"
    using GetByID_spec [OF assms(1,2), of uid] u(1) by auto
  have uniq: "v = u" if "v \<in> ran (users s)" "P v" for v
  proof -
    obtain i where i: "users s i = Some v" using \<open>v \<in> ran (users s)\<close> by (auto simp: ran_def)
    have "i = uid" using keyed_unique [OF assms(3) i u(1) _ u(2)] assms(4) that(2) by simp
    then show ?thesis using i u(1) by simp
  qed
  have mem: "u \<in> ran (users s)" "P u" using u assms(4) by (auto intro: ranI)
  have rs: "r = Inr u" "s' = s1" using assms(5) Some g(1) by simp_all
  have "spec_find P notFound (users s) (Inr u)" unfolding spec_find_def sum.case using mem uniq by blast
  then show ?thesis using g(3) same_store_view [OF g(2)] rs by simp
qed

lemma store_good_later: "store_good t s \<Longrightarrow> t < t' \<Longrightarrow> store_good t' s"
  unfolding store_good_def clock_before_def by (meson less_trans)

lemma GetByUsername_spec:
  assumes "store_good t s" "io_ok io" "GetByUsername io n s = (a, s')"
  shows "spec_call (CallGetByUsername n) (users s) (Answer a) (users s') \<and> store_good t s'"
proof (cases "n = []")
  case True
  then show ?thesis using assms by (simp add: GetByUsername_def)
next
  case False
  have ok: "store_ok s" using assms(1) by (simp add: store_good_def)
  have "spec_find (\<lambda>u. us_Username u = n) ErrUserNotFound (users s) a \<and> users s' = users s \<and> store_good t s'"
    using assms(3) False
    by (intro find_spec [OF assms(1,2) store_ok_index(1) [OF ok]]) (auto simp: GetByUsername_def name_key_def)
  then show ?thesis using False by simp
qed

lemma GetByOIDCIdentity_spec:
  assumes "store_good t s" "io_ok io" "GetByOIDCIdentity io issuer subject s = (a, s')"
  shows "spec_call (CallGetByOIDC issuer subject) (users s) (Answer a) (users s') \<and> store_good t s'"
proof (cases "issuer = [] \<or> subject = []")
  case True
  then show ?thesis using assms by (simp add: GetByOIDCIdentity_def)
next
  case False
  have ok: "store_ok s" using assms(1) by (simp add: store_good_def)
  have key: "us_OIDCIssuer u = issuer \<and> us_OIDCSubject u = subject \<longleftrightarrow> identity_key u = Some (oidcIdentityKey issuer subject)" for u
    using oidcIdentityKey_inj [of "us_OIDCIssuer u" "us_OIDCSubject u" issuer subject] False
    by (auto simp: identity_key_def has_oidc_def oidc_key_of_def)
  have "spec_find (\<lambda>u. us_OIDCIssuer u = issuer \<and> us_OIDCSubject u = subject) ErrOIDCIdentityNotFound (users s) a
      \<and> users s' = users s \<and> store_good t s'"
    using assms(3) False by (intro find_spec [OF assms(1,2) store_ok_index(2) [OF ok] key]) (simp add: GetByOIDCIdentity_def)
  then show ?thesis using False by simp
qed

lemma Reopen_spec:
  assumes "store_good t s" "io_ok io" "s' = rebuildIndex io (s\<lparr>st_cache := map_option (\<lambda>_. []) (st_cache s)\<rparr>)"
  shows "users s' = users s \<and> store_good t s'"
proof -
  let ?s = "s\<lparr>st_cache := map_option (\<lambda>_. []) (st_cache s)\<rparr>"
  have "same_store s ?s" by (simp add: same_store_def)
  then have q: "store_ok ?s" "users ?s = users s" using same_store_ok assms(1) unfolding store_good_def by blast+
  have f: "st_files (rebuild_loop io ps x) = st_files x" "st_cache (rebuild_loop io ps x) = st_cache x" for ps x
    by (induction io ps x rule: rebuild_loop.induct) (auto simp: index_user_def split: sum.split)
  have "cache_ok (rebuildIndex io ?s)" "clock_before t (rebuildIndex io ?s)"
    using assms(1) unfolding cache_ok_def clock_before_def rebuildIndex_def f store_good_def by auto
  then show ?thesis
    using rebuildIndex_ok [OF q(1), of io] q(2) assms(2,3) by (auto simp: store_good_def io_ok_def)
qed

lemma run_call_spec:
  assumes "store_good (uo_now io) s" "io_ok io" "run_call io c s = (r, s')" "uo_now io < t"
  shows "spec_call c (users s) r (users s') \<and> store_good t s'"
proof (cases c)
  case (CallCreate u)
  then obtain e where e: "user_Create io u s = (e, s')" "r = Done e" using assms(3) by (cases "user_Create io u s") auto
  show ?thesis using Create_spec [OF assms(1,2) e(1) assms(4)] unfolding CallCreate e(2) .
next
  case (CallUpdate u)
  then obtain e where e: "user_Update io u s = (e, s')" "r = Done e" using assms(3) by (cases "user_Update io u s") auto
  show ?thesis using Update_spec [OF assms(1,2) e(1) assms(4)] unfolding CallUpdate e(2) .
next
  case (CallDelete uid)
  then obtain e where e: "user_Delete io uid s = (e, s')" "r = Done e" using assms(3) by (cases "user_Delete io uid s") auto
  show ?thesis using Delete_spec [OF assms(1,2) e(1) assms(4)] unfolding CallDelete e(2) .
next
  case (CallGetByID uid)
  obtain s1 where g: "GetByID io uid s = (if uid = [] then Inl ErrInvalidUserID
      else case users s uid of None \<Rightarrow> Inl ErrUserNotFound | Some u \<Rightarrow> Inr u, s1)" "same_store s s1" "store_good (uo_now io) s1"
    using GetByID_spec [OF assms(1,2), of uid] by blast
  then show ?thesis
    using CallGetByID assms(3) store_good_later [OF g(3) assms(4)] same_store_view [OF g(2)] by auto
next
  case (CallGetByUsername n)
  then obtain a where a: "GetByUsername io n s = (a, s')" "r = Answer a" using assms(3) by (cases "GetByUsername io n s") auto
  show ?thesis using GetByUsername_spec [OF assms(1,2) a(1)] store_good_later assms(4) unfolding CallGetByUsername a(2) by blast
next
  case (CallGetByOIDC issuer subject)
  then obtain a where a: "GetByOIDCIdentity io issuer subject s = (a, s')" "r = Answer a"
    using assms(3) by (cases "GetByOIDCIdentity io issuer subject s") auto
  show ?thesis
    using GetByOIDCIdentity_spec [OF assms(1,2) a(1)] store_good_later assms(4) unfolding CallGetByOIDC a(2) by blast
next
  case CallReopen
  then show ?thesis using Reopen_spec [OF assms(1,2), of s'] assms(3) store_good_later [OF _ assms(4)] by auto
qed

section \<open>Properties\<close>

text \<open>A store as it is created in an empty directory.\<close>

definition empty_store :: "string \<Rightarrow> bool \<Rightarrow> user_store" where
  "empty_store baseDir withCache = \<lparr> st_baseDir = baseDir, st_files = [], st_byID = [], st_byUsername = [], st_byOIDC = [],
     st_cache = (if withCache then Some [] else None) \<rparr>"

lemma New_empty: "baseDir \<noteq> [] \<Longrightarrow> uo_dirErr io = None \<Longrightarrow> user_New io baseDir withCache [] = Inr (empty_store baseDir withCache)"
  by (simp add: user_New_def rebuildIndex_def empty_store_def)

lemma empty_store_good: "store_good t (empty_store baseDir withCache)"
  by (simp add: empty_store_def store_good_def store_ok_def cache_ok_def clock_before_def keyed_def users_def)

lemma empty_store_users: "users (empty_store baseDir withCache) = Map.empty"
  by (simp add: empty_store_def users_def fun_eq_iff)

definition times_increase :: "(user_io \<times> user_call) list \<Rightarrow> bool" where
  "times_increase calls \<longleftrightarrow> sorted_wrt (<) (map (\<lambda>(io, c). uo_now io) calls)"

lemma run_calls_spec:
  assumes "\<forall>(io, c) \<in> set calls. io_ok io \<and> t \<le> uo_now io" "times_increase calls" "store_good t s"
    "run_calls calls s = (rs, s')"
  shows "spec_calls (map snd calls) (users s) rs (users s')"
  using assms
proof (induction calls arbitrary: t s rs)
  case (Cons x calls)
  obtain io c where x: "x = (io, c)" by fastforce
  obtain r s1 where r: "run_call io c s = (r, s1)" by fastforce
  obtain rs1 where rs1: "run_calls calls s1 = (rs1, s')" "rs = r # rs1"
    using Cons.prems(4) x r by (auto split: prod.splits)
  have good: "store_good (uo_now io) s"
    using Cons.prems(1,3) x store_good_later [of t s "uo_now io"] by (cases "t = uo_now io") auto
  have step: "spec_call c (users s) r (users s1) \<and> store_good (uo_now io + 1) s1"
    by (rule run_call_spec [OF good _ r]) (use Cons.prems(1) x in auto)
  have "spec_calls (map snd calls) (users s1) rs1 (users s')"
  proof (rule Cons.IH [OF _ _ _ rs1(1)])
    show "\<forall>(i, c) \<in> set calls. io_ok i \<and> uo_now io + 1 \<le> uo_now i"
      using Cons.prems(1,2) x by (auto simp: times_increase_def)
  qed (use Cons.prems(2) x step in \<open>auto simp: times_increase_def\<close>)
  then show ?case using step rs1(2) x by auto
qed simp


definition calm_user_io :: "int \<Rightarrow> user_io" where
  "calm_user_io t = \<lparr> uo_dirErr = None, uo_statErr = (\<lambda>_. None), uo_readErr = (\<lambda>_. None), uo_writeErr = (\<lambda>_. None),
     uo_removeErr = (\<lambda>_. None), uo_now = t, uo_size = (\<lambda>_. 100) \<rparr>"

lemma calm_io_ok: "io_ok (calm_user_io t)" "uo_now (calm_user_io t) = t"
  by (simp_all add: io_ok_def calm_user_io_def)

definition sample_calls :: "(user_io \<times> user_call) list" where
  "sample_calls =
     [(calm_user_io 1, CallCreate (NewUser ''1'' 0 ''ann'' ''h'' RoleAdmin)),
      (calm_user_io 2, CallCreate (NewUser ''2'' 0 ''ann'' ''h'' RoleViewer)),
      (calm_user_io 3, CallReopen),
      (calm_user_io 4, CallGetByUsername ''ann'')]"


end
