(* ===== verification/Auth_Service.thy ===== *)
theory Auth_Service
  imports User_Spec
begin

text \<open>
  Accounts (\<open>service/auth/service.go\<close>): creating, changing and deleting users, passwords and the checks of
  credentials. Hashes, tokens, fresh ids and the clock are fields of the record \<open>auth_env\<close>. A user that
  comes out of the store is a pointer into its cache, so that an operation that changes its fields changes the cache entry
  at once, whether it succeeds or not (\<open>mutate\<close>).
\<close>

section \<open>Errors and environment\<close>

definition ErrInvalidCredentials :: go_error where
  "ErrInvalidCredentials = Sentinel ''invalid username or password''"

definition ErrInvalidToken :: go_error where
  "ErrInvalidToken = Sentinel ''invalid or expired token''"

definition ErrPasswordMismatch :: go_error where
  "ErrPasswordMismatch = Sentinel ''current password is incorrect''"

definition ErrWeakPassword :: go_error where
  "ErrWeakPassword = Sentinel ''password does not meet requirements''"

definition ErrCannotDeleteSelf :: go_error where
  "ErrCannotDeleteSelf = Sentinel ''cannot delete your own account''"

definition ErrUserDisabled :: go_error where
  "ErrUserDisabled = Sentinel ''your account has been disabled, contact administrator''"

definition minPasswordLength :: nat where
  "minPasswordLength = 8"

text \<open>\<open>av_hash\<close> and \<open>av_compare\<close> are those of bcrypt; \<open>av_claims\<close> is the user id in a token that is valid.\<close>

record auth_env =
  av_io :: user_io
  av_uuid :: string
  av_now :: time
  av_hash :: "string \<Rightarrow> go_error + string"
  av_compare :: "string \<Rightarrow> string \<Rightarrow> bool"
  av_claims :: "string \<Rightarrow> go_error + string"

definition validatePassword :: "string \<Rightarrow> go_error option" where
  "validatePassword password =
     (if length password < minPasswordLength
      then Some (Wrap 0 ''password does not meet requirements: minimum length is 8 characters'' ErrWeakPassword) else None)"

text \<open>What a change through a pointer does to the cache.\<close>

definition mutate :: "user \<Rightarrow> user_store \<Rightarrow> user_store" where
  "mutate u s =
     (case (st_cache s, map_of (st_byID s) (us_ID u)) of
        (Some c, Some p) \<Rightarrow>
          (case map_of c p of
             Some e \<Rightarrow> s\<lparr>st_cache := Some (AList.update p (e\<lparr>ce_data := u\<rparr>) c)\<rparr>
           | None \<Rightarrow> s)
      | _ \<Rightarrow> s)"

section \<open>Checking credentials\<close>

definition Authenticate :: "auth_env \<Rightarrow> string \<Rightarrow> string \<Rightarrow> user_store \<Rightarrow> (go_error + user) \<times> user_store" where
  "Authenticate env username password s =
     (case GetByUsername (av_io env) username s of
        (Inl e, s1) \<Rightarrow>
          (if errors_is e ErrUserNotFound \<or> errors_is e ErrInvalidUsername then Inl ErrInvalidCredentials
           else Inl (Wrap 1 ''failed to get user'' e), s1)
      | (Inr u, s1) \<Rightarrow>
          (if \<not> av_compare env (us_PasswordHash u) password then Inl ErrInvalidCredentials
           else if us_IsDisabled u then Inl ErrUserDisabled
           else Inr u, s1))"

definition GetUserFromToken :: "auth_env \<Rightarrow> string \<Rightarrow> user_store \<Rightarrow> (go_error + user) \<times> user_store" where
  "GetUserFromToken env tokenString s =
     (case av_claims env tokenString of
        Inl e \<Rightarrow> (Inl e, s)
      | Inr userID \<Rightarrow>
          (case GetByID (av_io env) userID s of
             (Inl e, s1) \<Rightarrow>
               (if errors_is e ErrUserNotFound \<or> errors_is e ErrInvalidUserID then Inl ErrInvalidToken
                else Inl (Wrap 2 ''failed to get user from token'' e), s1)
           | (Inr u, s1) \<Rightarrow> (if us_IsDisabled u then Inl ErrUserDisabled else Inr u, s1)))"

section \<open>Managing users\<close>

record create_user_input =
  cu_Username :: string
  cu_Password :: string
  cu_Role :: role
  cu_WorkspaceAccess :: "workspace_access option"

definition CreateUser :: "auth_env \<Rightarrow> create_user_input \<Rightarrow> user_store \<Rightarrow> (go_error + user) \<times> user_store" where
  "CreateUser env input s =
     (case validatePassword (cu_Password input) of
        Some e \<Rightarrow> (Inl e, s)
      | None \<Rightarrow>
          if \<not> role_Valid (cu_Role input) then (Inl (Errorf 3 ''invalid role''), s)
          else case ValidateWorkspaceAccess (cu_Role input) (cu_WorkspaceAccess input) None of
            Some e \<Rightarrow> (Inl e, s)
          | None \<Rightarrow>
              (case av_hash env (cu_Password input) of
                 Inl e \<Rightarrow> (Inl (Wrap 4 ''failed to hash password'' e), s)
               | Inr passwordHash \<Rightarrow>
                   (let u = (NewUser (av_uuid env) (av_now env) (cu_Username input) passwordHash (cu_Role input))
                        \<lparr>us_WorkspaceAccess := Some (CloneWorkspaceAccess (cu_WorkspaceAccess input))\<rparr>
                    in case user_Create (av_io env) u s of
                         (Some e, s1) \<Rightarrow> (Inl e, s1)
                       | (None, s1) \<Rightarrow> (Inr u, s1))))"

definition GetUser :: "auth_env \<Rightarrow> string \<Rightarrow> user_store \<Rightarrow> (go_error + user) \<times> user_store" where
  "GetUser env uid s = GetByID (av_io env) uid s"

definition ListUsers :: "auth_env \<Rightarrow> user_store \<Rightarrow> (go_error + user list) \<times> user_store" where
  "ListUsers env s = user_List (av_io env) s"

definition CountUsers :: "user_store \<Rightarrow> int" where
  "CountUsers s = user_Count s"

record update_user_input =
  uu_Username :: "string option"
  uu_Role :: "role option"
  uu_WorkspaceAccess :: "workspace_access option"
  uu_Password :: "string option"
  uu_IsDisabled :: "bool option"

definition new_hash :: "auth_env \<Rightarrow> string option \<Rightarrow> string \<Rightarrow> go_error + string" where
  "new_hash env password old =
     (case password of
        None \<Rightarrow> Inr old
      | Some pw \<Rightarrow>
          if pw = [] then Inr old
          else case validatePassword pw of
            Some e \<Rightarrow> Inl e
          | None \<Rightarrow> (case av_hash env pw of Inl e \<Rightarrow> Inl (Wrap 4 ''failed to hash password'' e) | Inr h \<Rightarrow> Inr h))"

text \<open>The changes in the order of the code: the name, then role and access, then password and the rest.\<close>

definition with_name :: "update_user_input \<Rightarrow> user \<Rightarrow> user" where
  "with_name input u = (case uu_Username input of Some n \<Rightarrow> if n \<noteq> [] then u\<lparr>us_Username := n\<rparr> else u | None \<Rightarrow> u)"

definition with_access :: "update_user_input \<Rightarrow> user \<Rightarrow> user" where
  "with_access input u =
     (let u1 = (case uu_Role input of Some r \<Rightarrow> u\<lparr>us_Role := r\<rparr> | None \<Rightarrow> u)
      in case uu_WorkspaceAccess input of
           Some a \<Rightarrow> u1\<lparr>us_WorkspaceAccess := Some (CloneWorkspaceAccess (Some a))\<rparr> | None \<Rightarrow> u1)"

definition with_rest :: "auth_env \<Rightarrow> update_user_input \<Rightarrow> string \<Rightarrow> user \<Rightarrow> user" where
  "with_rest env input passwordHash u =
     u\<lparr>us_PasswordHash := passwordHash,
       us_IsDisabled := (case uu_IsDisabled input of Some b \<Rightarrow> b | None \<Rightarrow> us_IsDisabled u),
       us_UpdatedAt := av_now env\<rparr>"

definition UpdateUser :: "auth_env \<Rightarrow> string \<Rightarrow> update_user_input \<Rightarrow> user_store \<Rightarrow> (go_error + user) \<times> user_store" where
  "UpdateUser env uid input s =
     (case GetByID (av_io env) uid s of
        (Inl e, s1) \<Rightarrow> (Inl e, s1)
      | (Inr u0, s1) \<Rightarrow>
          (let u1 = with_name input u0
           in if (case uu_Role input of Some r \<Rightarrow> \<not> role_Valid r | None \<Rightarrow> False)
              then (Inl (Errorf 3 ''invalid role''), mutate u1 s1)
              else
                let u2 = with_access input u1
                in case ValidateWorkspaceAccess (us_Role u2) (us_WorkspaceAccess u2) None of
                     Some e \<Rightarrow> (Inl e, mutate u2 s1)
                   | None \<Rightarrow>
                       (case new_hash env (uu_Password input) (us_PasswordHash u2) of
                          Inl e \<Rightarrow> (Inl e, mutate u2 s1)
                        | Inr passwordHash \<Rightarrow>
                            let u3 = with_rest env input passwordHash u2
                            in case user_Update (av_io env) u3 (mutate u3 s1) of
                                 (Some e, s2) \<Rightarrow> (Inl e, s2)
                               | (None, s2) \<Rightarrow> (Inr u3, s2))))"

definition DeleteUser :: "auth_env \<Rightarrow> string \<Rightarrow> string \<Rightarrow> user_store \<Rightarrow> go_error option \<times> user_store" where
  "DeleteUser env uid currentUserID s =
     (if uid = currentUserID then (Some ErrCannotDeleteSelf, s) else user_Delete (av_io env) uid s)"

text \<open>The common end of \<open>ChangePassword\<close> and \<open>ResetPassword\<close>.\<close>

definition set_password :: "auth_env \<Rightarrow> string \<Rightarrow> user \<Rightarrow> user_store \<Rightarrow> go_error option \<times> user_store" where
  "set_password env newPassword u s =
     (case validatePassword newPassword of
        Some e \<Rightarrow> (Some e, s)
      | None \<Rightarrow>
          (case av_hash env newPassword of
             Inl e \<Rightarrow> (Some (Wrap 4 ''failed to hash password'' e), s)
           | Inr passwordHash \<Rightarrow>
               (let u1 = u\<lparr>us_PasswordHash := passwordHash, us_UpdatedAt := av_now env\<rparr>
                in user_Update (av_io env) u1 (mutate u1 s))))"

definition ChangePassword :: "auth_env \<Rightarrow> string \<Rightarrow> string \<Rightarrow> string \<Rightarrow> user_store \<Rightarrow> go_error option \<times> user_store" where
  "ChangePassword env userID oldPassword newPassword s =
     (case GetByID (av_io env) userID s of
        (Inl e, s1) \<Rightarrow> (Some e, s1)
      | (Inr u, s1) \<Rightarrow>
          if \<not> av_compare env (us_PasswordHash u) oldPassword then (Some ErrPasswordMismatch, s1)
          else set_password env newPassword u s1)"

definition ResetPassword :: "auth_env \<Rightarrow> string \<Rightarrow> string \<Rightarrow> user_store \<Rightarrow> go_error option \<times> user_store" where
  "ResetPassword env userID newPassword s =
     (case GetByID (av_io env) userID s of
        (Inl e, s1) \<Rightarrow> (Some e, s1)
      | (Inr u, s1) \<Rightarrow> set_password env newPassword u s1)"

text \<open>The service at work: operations of the service, eviction from the cache, and a restart.\<close>

inductive auth_step :: "user_store \<Rightarrow> user_store \<Rightarrow> bool" where
  login: "auth_step s (snd (Authenticate env username password s))"
| token: "auth_step s (snd (GetUserFromToken env tokenString s))"
| create: "io_sane (av_io env) \<Longrightarrow> auth_step s (snd (CreateUser env input s))"
| update: "io_sane (av_io env) \<Longrightarrow> auth_step s (snd (UpdateUser env uid changes s))"
| delete: "io_sane (av_io env) \<Longrightarrow> auth_step s (snd (DeleteUser env uid currentUserID s))"
| change_password: "io_sane (av_io env) \<Longrightarrow> auth_step s (snd (ChangePassword env uid old new s))"
| reset_password: "io_sane (av_io env) \<Longrightarrow> auth_step s (snd (ResetPassword env uid new s))"
| evict: "st_cache s = Some c \<Longrightarrow> auth_step s (s\<lparr>st_cache := Some (AList.delete p c)\<rparr>)"
| restart: "(\<And>p. uo_readErr io p = None) \<Longrightarrow>
    auth_step s (rebuildIndex io (s\<lparr>st_cache := map_option (\<lambda>_. []) (st_cache s)\<rparr>))"

section \<open>Accounts without a cache\<close>

definition account_valid :: "user \<Rightarrow> bool" where
  "account_valid u \<longleftrightarrow> ValidateWorkspaceAccess (us_Role u) (us_WorkspaceAccess u) None = None"

lemma account_valid_norm: "account_valid u \<Longrightarrow> account_valid (norm_user u)"
  unfolding account_valid_def norm_user_def storage_ToUser_def user_ToStorage_def
  by simp (rule Validate_Clone [OF Validate_Clone])

lemma mutate_same: "same_store s (mutate u s)"
  by (auto simp: mutate_def same_store_def split: option.split)

lemma mutate_no_cache [simp]: "st_cache s = None \<Longrightarrow> mutate u s = s"
  by (simp add: mutate_def)

definition accounts_ok :: "user_store \<Rightarrow> bool" where
  "accounts_ok s \<longleftrightarrow> store_ok s \<and> st_cache s = None \<and> (\<forall>u \<in> ran (users s). account_valid u)"

lemma GetByID_no_cache:
  assumes "st_cache s = None" "GetByID io uid s = (r, s')"
  shows "s' = s \<and> (\<forall>u. r = Inr u \<longrightarrow> users s uid = Some u)"
  using assms load_ok by (auto simp: GetByID_def users_def split: if_splits option.splits sum.splits)

lemma GetByUsername_no_cache: "st_cache s = None \<Longrightarrow> snd (GetByUsername io n s) = s"
  using GetByID_no_cache by (auto simp: GetByUsername_def split: option.split) (metis prod.collapse)

lemma accounts_create:
  assumes "accounts_ok s" "account_valid u" "io_sane io" "user_Create io u s = (r, s')"
  shows "accounts_ok s'"
proof -
  have "st_cache s' = st_cache s" using Create_files [OF assms(4)] by (simp add: files_step_def)
  then show ?thesis
    using file_users.create_keeps [of s io account_valid u r s'] assms account_valid_norm by (simp add: accounts_ok_def)
qed

lemma accounts_update:
  assumes "accounts_ok s" "account_valid u" "io_sane io" "user_Update io u s = (r, s')"
  shows "accounts_ok s'"
proof -
  have "st_cache s' = st_cache s" using Update_files [OF _ assms(4)] assms(1) by (simp add: files_step_def accounts_ok_def)
  then show ?thesis
    using file_users.update_keeps [of s io account_valid u r s'] assms account_valid_norm by (simp add: accounts_ok_def)
qed

lemma accounts_get:
  assumes "accounts_ok s" "GetByID io uid s = (r, s')"
  shows "s' = s \<and> (\<forall>u. r = Inr u \<longrightarrow> account_valid u)"
  using assms GetByID_no_cache [of s io uid r s'] by (auto simp: accounts_ok_def intro: ranI)

lemma accounts_set_password:
  assumes "accounts_ok s" "account_valid u" "io_sane (av_io env)"
  shows "accounts_ok (snd (set_password env pw u s))"
proof -
  have c: "st_cache s = None" using assms(1) by (simp add: accounts_ok_def)
  have v: "account_valid (u\<lparr>us_PasswordHash := h, us_UpdatedAt := n\<rparr>)" for h n using assms(2) by (simp add: account_valid_def)
  have "accounts_ok (snd (user_Update (av_io env) (u\<lparr>us_PasswordHash := h, us_UpdatedAt := n\<rparr>) s))" for h n
    using accounts_update [OF assms(1) v assms(3)] by (metis prod.collapse)
  then show ?thesis using assms(1) c by (simp add: set_password_def Let_def split: option.split sum.split)
qed

lemma CreateUser_ok:
  assumes "accounts_ok s" "io_sane (av_io env)" "CreateUser env input s = (r, s')"
  shows "accounts_ok s'"
proof (cases "s' = s")
  case False
  let ?a = "cu_WorkspaceAccess input"
  obtain h where h: "av_hash env (cu_Password input) = Inr h" "ValidateWorkspaceAccess (cu_Role input) ?a None = None"
    using assms(3) False by (auto simp: CreateUser_def split: option.splits if_splits sum.splits)
  let ?u = "(NewUser (av_uuid env) (av_now env) (cu_Username input) h (cu_Role input))
    \<lparr>us_WorkspaceAccess := Some (CloneWorkspaceAccess ?a)\<rparr>"
  have "account_valid ?u" using Validate_Clone [OF h(2)] by (simp add: account_valid_def NewUser_def)
  moreover obtain e where "user_Create (av_io env) ?u s = (e, s')"
    using assms(3) False h by (auto simp: CreateUser_def Let_def split: option.splits if_splits prod.splits)
  ultimately show ?thesis using accounts_create assms(1,2) by blast
qed (use assms(1) in simp)

lemma with_rest_valid: "account_valid (with_rest env input h u) = account_valid u"
  by (simp add: with_rest_def account_valid_def)

lemma UpdateUser_cases:
  assumes "UpdateUser env uid input s = (r, s')" "GetByID (av_io env) uid s = (g, s1)"
  obtains (none) e where "g = Inl e" "r = Inl e" "s' = s1"
  | (reject) u0 u e where "g = Inr u0" "r = Inl e" "s' = mutate u s1"
  | (update) u0 h x where "g = Inr u0" "account_valid (with_access input (with_name input u0))"
      "new_hash env (uu_Password input) (us_PasswordHash (with_access input (with_name input u0))) = Inr h"
      "user_Update (av_io env) (with_rest env input h (with_access input (with_name input u0)))
         (mutate (with_rest env input h (with_access input (with_name input u0))) s1) = (x, s')"
      "r = (case x of Some e \<Rightarrow> Inl e | None \<Rightarrow> Inr (with_rest env input h (with_access input (with_name input u0))))"
proof (cases g)
  case (Inl e)
  then show ?thesis using assms none by (auto simp: UpdateUser_def)
next
  case (Inr u0)
  let ?u1 = "with_name input u0" and ?u2 = "with_access input (with_name input u0)"
  show ?thesis
  proof (cases "(case uu_Role input of Some r \<Rightarrow> \<not> role_Valid r | None \<Rightarrow> False)")
    case True
    then show ?thesis using assms Inr reject [of u0 _ ?u1] by (auto simp: UpdateUser_def)
  next
    case role: False
    show ?thesis
    proof (cases "ValidateWorkspaceAccess (us_Role ?u2) (us_WorkspaceAccess ?u2) None")
      case (Some e)
      then show ?thesis using assms Inr role reject [of u0 e ?u2] by (simp add: UpdateUser_def Let_def)
    next
      case valid: None
      show ?thesis
      proof (cases "new_hash env (uu_Password input) (us_PasswordHash ?u2)")
        case (Inl e)
        then show ?thesis using assms Inr role valid reject [of u0 e ?u2] by (simp add: UpdateUser_def Let_def)
      next
        case h: (Inr h)
        obtain x s2 where "user_Update (av_io env) (with_rest env input h ?u2) (mutate (with_rest env input h ?u2) s1) = (x, s2)"
          by fastforce
        then show ?thesis using assms Inr role valid h update [of u0 h x]
          by (auto simp: UpdateUser_def Let_def account_valid_def split: option.splits)
      qed
    qed
  qed
qed

lemma UpdateUser_ok:
  assumes "accounts_ok s" "io_sane (av_io env)" "UpdateUser env uid input s = (r, s')"
  shows "accounts_ok s'"
proof -
  obtain g s1 where g: "GetByID (av_io env) uid s = (g, s1)" by fastforce
  have s1: "s1 = s" "st_cache s = None" using accounts_get [OF assms(1) g] assms(1) by (simp_all add: accounts_ok_def)
  from assms(3) g show ?thesis
  proof (cases rule: UpdateUser_cases)
    case (update u0 h x)
    then have "user_Update (av_io env) (with_rest env input h (with_access input (with_name input u0))) s = (x, s')"
      using s1 by simp
    then show ?thesis using accounts_update [OF assms(1) _ assms(2)] update(2) with_rest_valid by blast
  qed (use assms(1) s1 in simp_all)
qed

lemma auth_step_ok:
  assumes "auth_step s s'" "accounts_ok s"
  shows "accounts_ok s'"
  using assms
proof (induction rule: auth_step.induct)
  case (login s env n pw)
  have "snd (GetByUsername (av_io env) n s) = s" using login GetByUsername_no_cache by (simp add: accounts_ok_def)
  then have "snd (Authenticate env n pw s) = s"
    by (auto simp: Authenticate_def split: prod.splits sum.splits)
  then show ?case using login by simp
next
  case (token s env tok)
  have "snd (GetUserFromToken env tok s) = s"
    using accounts_get [OF token] by (auto simp: GetUserFromToken_def split: prod.splits sum.splits)
  then show ?case using token by simp
next
  case (create env s input)
  then show ?case using CreateUser_ok by (metis prod.collapse)
next
  case (update env s uid changes)
  then show ?case using UpdateUser_ok by (metis prod.collapse)
next
  case (delete env s uid me)
  obtain r s1 where d: "user_Delete (av_io env) uid s = (r, s1)" by fastforce
  have "store_ok s" using delete by (simp add: accounts_ok_def)
  from Delete_files [OF this delete(1) d] file_users.delete_keeps [of s "av_io env" account_valid uid r s1]
  have "accounts_ok s1" using delete d by (simp add: accounts_ok_def files_step_def)
  then show ?case using delete(2) d by (simp add: DeleteUser_def)
next
  case (change_password env s uid old new)
  obtain g s1 where g: "GetByID (av_io env) uid s = (g, s1)" by fastforce
  then show ?case using accounts_get [OF change_password(2) g] accounts_set_password [OF change_password(2) _ change_password(1)]
      change_password(2) by (cases g) (auto simp: ChangePassword_def)
next
  case (reset_password env s uid new)
  obtain g s1 where g: "GetByID (av_io env) uid s = (g, s1)" by fastforce
  then show ?case using accounts_get [OF reset_password(2) g] accounts_set_password [OF reset_password(2) _ reset_password(1)]
      reset_password(2) by (cases g) (auto simp: ResetPassword_def)
next
  case (evict s c p)
  then show ?case by (simp add: accounts_ok_def)
next
  case (restart io s)
  have f: "st_cache (rebuild_loop io ps x) = st_cache x" for ps x
    by (induction io ps x rule: rebuild_loop.induct) (auto simp: index_user_def split: sum.split)
  have eq: "s\<lparr>st_cache := map_option (\<lambda>_. []) (st_cache s)\<rparr> = s" using restart(2) by (simp add: accounts_ok_def)
  have "st_cache (rebuildIndex io s) = None" using restart(2) by (simp add: rebuildIndex_def f accounts_ok_def)
  then show ?case unfolding eq using rebuildIndex_ok [of s io] restart by (simp add: accounts_ok_def)
qed


text \<open>An account is created without a cache and read back by its name.\<close>

definition sample_auth :: "int \<Rightarrow> auth_env" where
  "sample_auth t = \<lparr> av_io = calm_user_io t, av_uuid = ''1'', av_now = t, av_hash = (\<lambda>pw. Inr (''#'' @ pw)),
     av_compare = (\<lambda>h pw. h = ''#'' @ pw), av_claims = Inr \<rparr>"

definition scoped_access :: workspace_access where
  "scoped_access = \<lparr> wa_All = False, wa_Grants = [\<lparr> wg_Workspace = ''ops'', wg_Role = RoleOperator \<rparr>] \<rparr>"

definition sample_input :: create_user_input where
  "sample_input = \<lparr> cu_Username = ''eve'', cu_Password = ''password'', cu_Role = RoleViewer,
     cu_WorkspaceAccess = Some scoped_access \<rparr>"

definition sample_store :: "bool \<Rightarrow> user_store" where
  "sample_store withCache = snd (CreateUser (sample_auth 1) sample_input (empty_store ''d'' withCache))"

definition sample_account :: user where
  "sample_account = (NewUser ''1'' 1 ''eve'' ''#password'' RoleViewer)\<lparr>us_WorkspaceAccess := Some scoped_access\<rparr>"

lemma sample_store_users: "users (sample_store withCache) ''1'' = Some sample_account"
  by (cases withCache) code_simp+


section \<open>Accounts with a cache\<close>

lemma GetByID_hit:
  assumes "uid \<noteq> []" "map_of (st_byID s) uid = Some p" "st_cache s = Some c" "map_of c p = Some e"
    "map_of (st_files s) p = Some f" "fresh_entry e f" "uo_statErr io p = None"
  shows "GetByID io uid s = (Inr (ce_data e), s)"
  using assms by (simp add: GetByID_def LoadLatest_def isStale_def fresh_entry_def)

text \<open>What has been read is in the cache.\<close>

lemma GetByID_cached:
  assumes "st_cache s = Some c" "GetByID io uid s = (Inr u, s')"
  shows "\<exists>c' p e f. st_cache s' = Some c' \<and> map_of (st_byID s) uid = Some p \<and> uid \<noteq> [] \<and> map_of c' p = Some e \<and> ce_data e = u
    \<and> map_of (st_files s) p = Some f \<and> fresh_entry e f"
proof -
  obtain p where p: "map_of (st_byID s) uid = Some p" "uid \<noteq> []" "LoadLatest io p c s = (Inr u, s')"
    using assms by (auto simp: GetByID_def split: if_splits option.splits prod.splits sum.splits)
  show ?thesis
  proof (cases rule: LoadLatest_cases [of io p c s])
    case (load v f)
    then show ?thesis using p by (auto simp: update_conv' fresh_entry_def)
  qed (use p assms(1) in auto)
qed

lemma mutate_entry:
  assumes "st_cache s = Some c" "map_of (st_byID s) (us_ID u) = Some p" "map_of c p = Some e"
  shows "mutate u s = s\<lparr>st_cache := Some (AList.update p (e\<lparr>ce_data := u\<rparr>) c)\<rparr>"
  using assms by (simp add: mutate_def)

text \<open>A change through a pointer is what the next reader gets.\<close>

lemma GetByID_mutate:
  assumes "st_cache s = Some c" "GetByID io uid s = (Inr u, s1)" "us_ID v = uid" "uo_statErr io' (userFilePath s uid) = None"
    "store_ok s"
  shows "GetByID io' uid (mutate v s1) = (Inr v, mutate v s1)"
proof -
  note same = GetByID_same [OF assms(2)]
  obtain c' p e f where c: "st_cache s1 = Some c'" "map_of (st_byID s) uid = Some p" "uid \<noteq> []" "map_of c' p = Some e"
      "map_of (st_files s) p = Some f" "fresh_entry e f"
    using GetByID_cached [OF assms(1,2)] by blast
  have m: "mutate v s1 = s1\<lparr>st_cache := Some (AList.update p (e\<lparr>ce_data := v\<rparr>) c')\<rparr>"
    using c same assms(3) by (intro mutate_entry) (simp_all add: same_store_def)
  have "fresh_entry (e\<lparr>ce_data := v\<rparr>) f" using c(6) by (simp add: fresh_entry_def)
  then have "GetByID io' uid (mutate v s1) = (Inr (ce_data (e\<lparr>ce_data := v\<rparr>)), mutate v s1)"
    using c same assms(4) store_okD(2) [OF assms(5) c(2)]
    by (intro GetByID_hit [of _ _ p "AList.update p (e\<lparr>ce_data := v\<rparr>) c'" "e\<lparr>ce_data := v\<rparr>" f])
      (simp_all add: m same_store_def update_conv')
  then show ?thesis by simp
qed

lemma users_id: "store_ok s \<Longrightarrow> users s uid = Some u \<Longrightarrow> us_ID u = uid \<and> uid \<noteq> []"
  using store_okD [of s uid] users_None [of s uid] by (cases "map_of (st_byID s) uid") auto

lemma scoped_needs_viewer:
  "\<not> wa_All (NormalizeWorkspaceAccess a) \<Longrightarrow> r \<noteq> RoleViewer \<Longrightarrow> \<exists>e. ValidateWorkspaceAccess r a ex = Some e"
  by (auto simp: ValidateWorkspaceAccess_def invalid_access_def Let_def)

definition role_change :: "role \<Rightarrow> update_user_input" where
  "role_change r = \<lparr> uu_Username = None, uu_Role = Some r, uu_WorkspaceAccess = None, uu_Password = None, uu_IsDisabled = None \<rparr>"

text \<open>
  C33: With the cache that the server uses, a rejected update takes effect: when the role of a user with access to single
  workspaces is changed to one that such a user may not have, the update fails, but the next request sees the
  user with the new role, and a password reset then writes that role to the file.
\<close>

theorem rejected_update_takes_effect:
  assumes "store_good t s" "st_cache s = Some c" "users s uid = Some u"
    "\<not> wa_All (NormalizeWorkspaceAccess (us_WorkspaceAccess u))" "role_Valid r" "r \<noteq> RoleViewer"
    "io_ok (av_io env)" "io_ok (av_io env')" "UpdateUser env uid (role_change r) s = (x, s1)"
    "ResetPassword env' uid pw s1 = (None, s2)"
  shows "(\<exists>e. x = Inl e) \<and> users s1 uid = Some u \<and> fst (GetByID (av_io env') uid s1) = Inr (u\<lparr>us_Role := r\<rparr>)
    \<and> (\<exists>v. users s2 uid = Some v \<and> us_Role v = r)"
proof -
  have ok: "store_ok s" using assms(1) by (simp add: store_good_def)
  note uid = users_id [OF ok assms(3)]
  let ?v = "u\<lparr>us_Role := r\<rparr>"
  obtain s0 where g: "GetByID (av_io env) uid s = (Inr u, s0)" "same_store s s0"
    using GetByID_spec [OF assms(1,7), of uid] assms(3) uid by auto
  obtain e where e: "ValidateWorkspaceAccess r (us_WorkspaceAccess u) None = Some e"
    using scoped_needs_viewer [OF assms(4,6)] by blast
  have s1: "x = Inl e" "s1 = mutate ?v s0"
    using assms(5,9) g(1) e by (simp_all add: UpdateUser_def role_change_def with_name_def with_access_def)
  have get: "GetByID (av_io env') uid s1 = (Inr ?v, s1)"
    unfolding s1(2) by (rule GetByID_mutate [OF assms(2) g(1) _ _ ok]) (use uid assms(8) in \<open>simp_all add: io_ok_def\<close>)
  have same: "store_ok (mutate w s1)" "users (mutate w s1) = users s" "users s1 = users s" for w
    using same_store_ok [OF g(2) ok] same_store_ok [OF mutate_same, of s0 ?v] same_store_ok [OF mutate_same, of s1 w]
    unfolding s1(2) by simp_all
  obtain h n where "user_Update (av_io env') (?v\<lparr>us_PasswordHash := h, us_UpdatedAt := n\<rparr>)
      (mutate (?v\<lparr>us_PasswordHash := h, us_UpdatedAt := n\<rparr>) s1) = (None, s2)"
    using assms(10) get by (auto simp: ResetPassword_def set_password_def Let_def split: option.splits sum.splits)
  then have "users s2 = (users s)(us_ID u \<mapsto> norm_user (?v\<lparr>us_PasswordHash := h, us_UpdatedAt := n\<rparr>))"
    using file_users.update_law [of _ "av_io env'"] same io_ok_sane [OF assms(8)] by fastforce
  then have "users s2 uid = Some (norm_user (?v\<lparr>us_PasswordHash := h, us_UpdatedAt := n\<rparr>))" using uid by simp
  then show ?thesis using s1(1) same(3) assms(3) get by (simp add: norm_user_def storage_ToUser_def user_ToStorage_def)
qed

definition escalated :: user_store where
  "escalated = snd (UpdateUser (sample_auth 2) ''1'' (role_change RoleAdmin) (sample_store True))"

lemma sample_store_good: "store_good 2 (sample_store True)"
proof -
  obtain r s where s: "user_Create (calm_user_io 1) sample_account (empty_store ''d'' True) = (r, s)" by fastforce
  have "sample_store True = snd (user_Create (calm_user_io 1) sample_account (empty_store ''d'' True))" by code_simp
  then show ?thesis
    using Create_spec [OF empty_store_good calm_io_ok(1) s] s by (simp add: calm_io_ok)
qed

lemma sample_reset: "fst (ResetPassword (sample_auth 3) ''1'' ''password2'' escalated) = None"
  by code_simp

lemma sample_cached: "\<exists>c. st_cache (sample_store True) = Some c"
  by (rule exI [of _ "the (st_cache (sample_store True))"]) code_simp

theorem rejected_update_takes_effect_witness:
  "\<not> IsAdmin (us_Role sample_account)
   \<and> fst (GetByID (calm_user_io 3) ''1'' escalated) = Inr (sample_account\<lparr>us_Role := RoleAdmin\<rparr>)
   \<and> (\<exists>v. users (snd (ResetPassword (sample_auth 3) ''1'' ''password2'' escalated)) ''1'' = Some v \<and> IsAdmin (us_Role v))"
proof -
  obtain c where c: "st_cache (sample_store True) = Some c" using sample_cached by blast
  obtain x where x: "UpdateUser (sample_auth 2) ''1'' (role_change RoleAdmin) (sample_store True) = (x, escalated)"
    unfolding escalated_def by (metis prod.collapse)
  have r: "ResetPassword (sample_auth 3) ''1'' ''password2'' escalated
      = (None, snd (ResetPassword (sample_auth 3) ''1'' ''password2'' escalated))"
    using sample_reset by (metis prod.collapse)
  have h: "\<not> wa_All (NormalizeWorkspaceAccess (us_WorkspaceAccess sample_account))" "role_Valid RoleAdmin" "RoleAdmin \<noteq> RoleViewer"
      "IsAdmin RoleAdmin" "\<not> IsAdmin (us_Role sample_account)"
    by code_simp+
  have io: "io_ok (av_io (sample_auth t))" "av_io (sample_auth t) = calm_user_io t" for t
    by (simp_all add: sample_auth_def calm_io_ok)
  show ?thesis
    using rejected_update_takes_effect [OF sample_store_good c sample_store_users h(1-3) io(1) io(1) x r] h(4,5)
    by (auto simp: io(2))
qed

end
