(* ===== verification/Spec2Isabelle.thy ===== *)
theory Spec2Isabelle
  imports Plan_Retry Runner_Deadlock Queue_Spec Dir_Lock Entry_Reader Queue_Processor Auth_Service
begin

text \<open>
  A verification library for Dagu, a workflow engine: a DAG of steps is turned into a plan, a
  runner executes the plan, and runs wait in file queues until a scheduler takes them. A web service manages accounts and
  decides who may see and start which DAG.

  \<^bold>\<open>Prelude.\<close> \<open>Go_Base\<close> models what the code uses of Go: errors with identity and wrapping
  (\<open>errors.Is\<close>), strings, integers of 64 bits with wrap-around written out, and times as
  nanoseconds. \<open>Go_Time\<close> has the calendar and the formats of times. \<open>Digraph\<close> has adjacency lists, Kahn's algorithm as \<open>plan.go\<close> runs it and the
  theory of topological orders that shows it right.

  \<^bold>\<open>Core data.\<close> \<open>Core_Status\<close> has the statuses of runs and nodes (\<open>core/status.go\<close>), \<open>Node_Data\<close>
  the state of a node and its mutators (\<open>runtime/data.go\<close>, \<open>core/step.go\<close>), \<open>Conditions\<close> the
  evaluation of preconditions (\<open>runtime/condition.go\<close>).

  \<^bold>\<open>Retrying.\<close> \<open>Backoff\<close> models \<open>cmn/backoff\<close> and \<open>core/retry.go\<close>. A policy is the locale
  \<open>retry_policy\<close>; exponential, constant, linear and jittered policies are its instances. The lemmas
  bound the number of attempts and every waiting time.

  \<^bold>\<open>Plan.\<close> \<open>Plan_Graph\<close> and \<open>Plan_Retry\<close> model \<open>runtime/plan.go\<close>: building a plan from steps, the
  cycle check, the queries on statuses, and the plans for retrying a run or one step. A node is its
  position in the list of nodes, node ids are numbers from a counter. The retry loop may not
  end in principle, so it is a \<open>partial_function\<close>; that it returns on every well-formed plan is part
  of its theorem.

  \<^bold>\<open>Runner.\<close> \<open>Node_Exec\<close> is the execution of one node (\<open>runtime/node.go\<close>), \<open>Runner_Node\<close> the
  goroutine that prepares, executes, retries and repeats it, \<open>Runner_Status\<close> readiness, the handing
  on of dependents and the status of a run, \<open>Runner_Loop\<close> the event loop of \<open>Run\<close> (all
  \<open>runtime/runner.go\<close>). What a command does, the clock and signals are arguments. The loop and
  the goroutines are a labelled transition system: the loop is at its check, in \<open>select\<close>, blocked or
  has ended; every goroutine is one step of its node followed by the announcement on
  \<open>doneCh\<close>. \<open>Runner_Safety\<close> and \<open>Runner_Deadlock\<close> prove its invariants by rule induction: limits,
  order of starts, no lost wake-up, no false deadlock. Loops over retries take a list of what
  happens in each pass as fuel; the theorems say how long a list is enough.

  \<^bold>\<open>Queue.\<close> \<open>Queue_Names\<close>, \<open>Queue_Index\<close> and \<open>Queue_Store\<close> model \<open>persis/filequeue\<close>: file names and
  their pattern, the read index with cursors and pages, the files of a queue directory, the queue
  of two priorities and the operations of the store. \<open>Queue_Interface\<close> has the contract of a queue
  with two priorities as the locales \<open>prio_queue\<close> and \<open>prio_store\<close>. \<open>Queue_Refine\<close> interprets
  them on the store, and \<open>Queue_Spec\<close> shows that every sequence of calls has the results of two
  plain lists. Failures of the file system are fields of the record \<open>qio\<close>.

  \<^bold>\<open>Lock.\<close> \<open>Dir_Lock\<close> models \<open>cmn/dirlock\<close>: a lock directory with an owner token, stale after a
  threshold. Instances interleave as a transition system on the directory and their own state.

  \<^bold>\<open>Scheduler.\<close> \<open>Cron_Schedule\<close> models \<open>core/schedule.go\<close>: cron and one-off schedules, their normal
  forms and fingerprints. \<open>Sched_Catchup\<close> has the buffers of missed slots, the computation of missed
  intervals and the ids of scheduled runs, \<open>Sched_State\<close> the saved state and its reconciliation with
  a DAG, \<open>Tick_Planner\<close> the planner itself (\<open>service/scheduler/tick_planner.go\<close>) with the loop over
  ticks of \<open>scheduler.go\<close>. The record \<open>planner_env\<close> holds what stores and calls answer during
  one tick; the loop takes a list of them, one per tick. \<open>Tick_Safety\<close> shows that planning returns
  and starts at most one run of an idle DAG, \<open>Tick_Catchup\<close> that catch-up neither loses
  nor reorders slots, \<open>Tick_OneOff\<close> that a one-off fires once. \<open>Entry_Reader\<close> puts the
  planner together with the registry of DAG files (\<open>entryreader.go\<close>) as a transition system of file
  events, changes and ticks: reachable planners are well formed and follow the files. Runs
  that the code dispatches in goroutines are taken in the order of the plan.

  \<^bold>\<open>Queue processor.\<close> \<open>Queue_Processor\<close> models \<open>queue_processor.go\<close>: the queues of the configuration and
  of the store, the free slots of a queue, the selection of items, the start of a run with its polls, and the removal
  of items. The record \<open>qp_env\<close> holds the answers of the stores during one pass and, for each run, a list of polls,
  one for each attempt of \<open>backoff.Retry\<close>; a list longer than the limit of retries is enough (\<open>polls_enough\<close>).
  The lemmas show that a pass returns, keeps to the limit of its queue and loses no run.

  \<^bold>\<open>Access.\<close> \<open>Labels\<close> models labels, their filters with wildcards, and workspace labels
  (\<open>core/label.go\<close>, \<open>core/exec/workspace.go\<close>, names from \<open>workspace/workspace.go\<close>). \<open>Workspace_Access\<close> has roles,
  access policies and users (\<open>auth\<close>) and the checks of the web service
  (\<open>frontend/api/v1/workspace_access.go\<close>); its lemmas say what a valid policy grants and that the filter of
  listings agrees with the checks on single resources. \<open>User_Store\<close> models \<open>persis/fileuser\<close>: one file per user, indexes by name and
  identity, and the cache of \<open>cmn/fileutil/cache.go\<close>. Its contract is the locale \<open>user_repository\<close>, and \<open>User_Spec\<close> shows that
  any sequence of calls has the results of a plain map. \<open>Auth_Service\<close> models the accounts of \<open>service/auth/service.go\<close>; a user
  read from the store is a pointer into the cache, so that a change of its fields is a change of the cache entry (\<open>mutate\<close>).
  Failures of the file system and the times of files are fields of \<open>user_io\<close>, hashes, tokens and fresh ids of \<open>auth_env\<close>. Text is
  ASCII, files are changed by the store only, and messages of errors leave out quoted values.

  \<^bold>\<open>Parameters.\<close> Third-party and operating system code is an argument: the matcher of log output,
  command execution, condition matching, the JSON form of cursors (\<open>cursor_codec\<close> says it
  decodes what it encodes), \<open>sort.Slice\<close> (\<open>sort_ok\<close> says it sorts), the parser of cron expressions
  (\<open>fires\<close> says that a schedule gives the first of its fire times after the one it is asked for),
  the digest in run ids, the parsing of times in the local zone, bcrypt and signed tokens.

  \<^bold>\<open>Not modelled.\<close> Loading of YAML files, evaluation of variables, executors, the web and chat
  services apart from access and accounts, API keys and webhooks, the start-up and scanners of the scheduler, remote workers and
  the stores other than those of queues and users: they are I/O
  or glue around third-party libraries. Logging, tracing and metrics are left out everywhere.
  Data races between goroutines on one node are not modelled beyond the interleaving of the
  transitions above.
\<close>

end
